(* ===== verification/Prelude.thy ===== *)
theory Prelude
  imports Main "HOL-Library.Word" "HOL-Library.AList" "HOL-Library.Sublist"
begin

unbundle bit_operations_syntax

text \<open>
  The prelude of the development. It names the machine types of the Go sources, gives the
  pieces of Go's slices and strings packages that several components use, and collects the generic
  list, map and word lemmas the component proofs share.

  Conventions of the whole library:
  \<^item> a Go slice is a list, a Go map is a partial function or an association list, a Go string is a
    char list (one char per byte);
  \<^item> an operation that can panic returns an option whose \<open>None\<close> is the panic;
  \<^item> an operation that mutates its receiver returns the new receiver.
\<close>

section \<open>Machine types\<close>

type_synonym u8 = "8 word"
type_synonym u16 = "16 word"
type_synonym u32 = "32 word"
type_synonym u64 = "64 word"
type_synonym bytes = "u8 list"

text \<open>The simplification rules of the library's operations, component by component.\<close>

named_theorems go_simps \<open>equations of the modelled Go library functions\<close>

section \<open>Slices used as sets\<close>

text \<open>
  \<^verbatim>\<open>if !slices.Contains(xs, x) { xs = append(xs, x) }\<close>, the idiom by which every matcher of
  the program stores a mark once.
\<close>

definition append_unique :: "'a list \<Rightarrow> 'a \<Rightarrow> 'a list" where
  "append_unique xs x = (if x \<in> set xs then xs else xs @ [x])"

lemma set_append_unique [simp]: "set (append_unique xs x) = insert x (set xs)"
  by (auto simp: append_unique_def)

lemma distinct_append_unique [simp]: "distinct (append_unique xs x) \<longleftrightarrow> distinct xs"
  by (auto simp: append_unique_def)

lemma append_unique_Nil [simp]: "append_unique [] x = [x]"
  by (simp add: append_unique_def)

lemma append_unique_neq_Nil [simp]: "append_unique xs x \<noteq> []"
  by (auto simp: append_unique_def)

lemma prefix_append_unique: "prefix xs (append_unique xs x)"
  by (simp add: append_unique_def)

text \<open>The variadic form \<^verbatim>\<open>appendUnique(dst, src...)\<close>.\<close>

definition append_uniques :: "'a list \<Rightarrow> 'a list \<Rightarrow> 'a list" where
  "append_uniques = foldl append_unique"

lemma append_uniques_simps [simp]:
  "append_uniques xs [] = xs"
  "append_uniques xs (y # ys) = append_uniques (append_unique xs y) ys"
  by (simp_all add: append_uniques_def)

lemma set_append_uniques [simp]: "set (append_uniques xs ys) = set xs \<union> set ys"
  by (induction ys arbitrary: xs) auto

lemma distinct_append_uniques [simp]: "distinct (append_uniques xs ys) \<longleftrightarrow> distinct xs"
  by (induction ys arbitrary: xs) auto

lemma append_uniques_append:
  "append_uniques xs (ys @ zs) = append_uniques (append_uniques xs ys) zs"
  by (simp add: append_uniques_def)

section \<open>The bits of a byte slice\<close>

text \<open>
  The address tries walk an address bit by bit with
  \<^verbatim>\<open>for i := range ip { for b := byte(128); b != 0; b >>= 1 { ... ip[i]&b != 0 ... } }\<close>.
  \<open>mask_bits x b\<close> is the sequence of tests the inner loop makes from mask \<open>b\<close> on.
\<close>

function mask_bits :: "u8 \<Rightarrow> u8 \<Rightarrow> bool list" where
  "mask_bits x b = (if b = 0 then [] else (x AND b \<noteq> 0) # mask_bits x (drop_bit 1 b))"
  by pat_completeness auto
termination
proof (relation "measure (\<lambda>(x, b). unat b)")
  show "((x, drop_bit 1 b), (x, b)) \<in> measure (\<lambda>(x, b). unat b)" if "b \<noteq> 0" for x b :: u8
    using that by (simp add: unat_div unat_gt_0 drop_bit_eq_div)
qed simp

declare mask_bits.simps [simp del]

definition byte_bits :: "u8 \<Rightarrow> bool list" where
  "byte_bits x = mask_bits x 128"

text \<open>The loop tests the eight bits from the most significant one down.\<close>

lemma and_single_bit:
  fixes x :: u8
  shows "x AND 128 = 0 \<longleftrightarrow> \<not> bit x 7" "x AND 64 = 0 \<longleftrightarrow> \<not> bit x 6" "x AND 32 = 0 \<longleftrightarrow> \<not> bit x 5"
    "x AND 16 = 0 \<longleftrightarrow> \<not> bit x 4" "x AND 8 = 0 \<longleftrightarrow> \<not> bit x 3" "x AND 4 = 0 \<longleftrightarrow> \<not> bit x 2"
    "x AND 2 = 0 \<longleftrightarrow> \<not> bit x 1" "x AND 1 = 0 \<longleftrightarrow> \<not> bit x 0"
  using and_exp_eq_0_iff_not_bit [of x 7] and_exp_eq_0_iff_not_bit [of x 6]
    and_exp_eq_0_iff_not_bit [of x 5] and_exp_eq_0_iff_not_bit [of x 4]
    and_exp_eq_0_iff_not_bit [of x 3] and_exp_eq_0_iff_not_bit [of x 2]
    and_exp_eq_0_iff_not_bit [of x 1] and_exp_eq_0_iff_not_bit [of x 0]
  by simp_all

lemma byte_bits_code:
  "byte_bits x =
    [bit x 7, bit x 6, bit x 5, bit x 4, bit x 3, bit x 2, bit x 1, bit x 0]"
  by (simp add: byte_bits_def mask_bits.simps and_single_bit)

lemma length_byte_bits [simp]: "length (byte_bits x) = 8"
  by (simp add: byte_bits_code)

lemma byte_bits_inject [simp]: "byte_bits x = byte_bits y \<longleftrightarrow> x = y"
proof
  assume eq: "byte_bits x = byte_bits y"
  show "x = y"
  proof (rule bit_word_eqI)
    fix n :: nat
    assume "n < LENGTH(8)"
    then have "n \<in> {0, 1, 2, 3, 4, 5, 6, 7}" by auto
    then show "bit x n \<longleftrightarrow> bit y n" using eq by (auto simp: byte_bits_code)
  qed
qed simp

text \<open>The bits of a whole byte slice, in the order of the two nested loops.\<close>

definition ip_bits :: "bytes \<Rightarrow> bool list" where
  "ip_bits ip = concat (map byte_bits ip)"

lemma ip_bits_simps [simp]: "ip_bits [] = []" "ip_bits (x # xs) = byte_bits x @ ip_bits xs"
  by (simp_all add: ip_bits_def)

lemma length_ip_bits [simp]: "length (ip_bits ip) = 8 * length ip"
  by (induction ip) auto

lemma ip_bits_inject:
  "length ip = length ip' \<Longrightarrow> ip_bits ip = ip_bits ip' \<longleftrightarrow> ip = ip'"
  by (induction ip ip' rule: list_induct2) auto

end
