(* ===== verification/Ring_Buffer.thy ===== *)
theory Ring_Buffer
  imports Prelude
begin

text \<open>
  The growing ring buffer of \<^verbatim>\<open>pkg/utils/ringbuffer/ringbuffer.go\<close>, the packet queue of the UDP
  NAT and of the DNS server. The model keeps the slice, the two positions and the full flag; every
  slice access that Go bounds-checks is an explicit test whose failure is \<open>None\<close>. The queue
  contract is the locale \<open>bounded_fifo\<close>; its interpretation on the ring buffer shows that every
  run of operations behaves like the abstract queue \<open>fifo_step\<close> and never panics.
\<close>

section \<open>The model\<close>

record 'a ring_buffer =
  ring :: "'a list"
  headPos :: nat
  tailPos :: nat
  full :: bool

definition NewRingBuffer :: "'a \<Rightarrow> int \<Rightarrow> 'a ring_buffer" where
  "NewRingBuffer z initCap =
     (let initCap = (if initCap \<le> 0 then 8 else initCap)
      in \<lparr>ring = replicate (nat initCap) z, headPos = 0, tailPos = 0, full = False\<rparr>)"

definition rb_Len :: "'a ring_buffer \<Rightarrow> int" where
  "rb_Len r =
     (if full r then int (length (ring r))
      else if tailPos r \<ge> headPos r then int (tailPos r) - int (headPos r)
      else int (tailPos r) - int (headPos r) + int (length (ring r)))"

definition rb_empty :: "'a ring_buffer \<Rightarrow> bool" where
  "rb_empty r \<longleftrightarrow> \<not> full r \<and> headPos r = tailPos r"

text \<open>\<^verbatim>\<open>copy(dst[off:], src)\<close> writes as many elements as both sides hold.\<close>

definition copy_at :: "'a list \<Rightarrow> nat \<Rightarrow> 'a list \<Rightarrow> 'a list" where
  "copy_at dst off src =
     take off dst @ take (length dst - off) src @ drop (off + length src) dst"

definition rb_grow :: "'a \<Rightarrow> 'a ring_buffer \<Rightarrow> 'a ring_buffer" where
  "rb_grow z r =
     (let oldRing = ring r;
          newSize = (if length oldRing * 2 = 0 then 1 else length oldRing * 2);
          fresh = replicate newSize z;
          headLen = min newSize (length (drop (headPos r) oldRing));
          step1 = copy_at fresh 0 (drop (headPos r) oldRing);
          step2 = copy_at step1 headLen (take (headPos r) oldRing)
      in r\<lparr>ring := step2, headPos := 0, tailPos := length oldRing, full := False\<rparr>)"

definition rb_Push :: "'a \<Rightarrow> int \<Rightarrow> 'a \<Rightarrow> 'a ring_buffer \<Rightarrow> (bool \<times> 'a ring_buffer) option" where
  "rb_Push z maxCap t r =
     (if full r \<and> int (length (ring r)) \<ge> maxCap then Some (False, r)
      else
        let r = (if full r then rb_grow z r else r)
        in if tailPos r < length (ring r) then
             let r = r\<lparr>ring := (ring r)[tailPos r := t], tailPos := tailPos r + 1\<rparr>;
                 r = (if tailPos r = length (ring r) then r\<lparr>tailPos := 0\<rparr> else r);
                 r = (if tailPos r = headPos r then r\<lparr>full := True\<rparr> else r)
             in Some (True, r)
           else None)"

definition rb_Pop :: "'a \<Rightarrow> 'a ring_buffer \<Rightarrow> ('a option \<times> 'a ring_buffer) option" where
  "rb_Pop z r =
     (if rb_empty r then Some (None, r)
      else if headPos r < length (ring r) then
        let t = ring r ! headPos r;
            r = r\<lparr>full := False, ring := (ring r)[headPos r := z], headPos := headPos r + 1\<rparr>;
            r = (if headPos r = length (ring r) then r\<lparr>headPos := 0\<rparr> else r)
        in Some (Some t, r)
      else None)"

definition rb_Peek :: "'a ring_buffer \<Rightarrow> 'a option option" where
  "rb_Peek r =
     (if rb_empty r then Some None
      else if headPos r < length (ring r) then Some (Some (ring r ! headPos r)) else None)"

definition rb_Clear :: "'a \<Rightarrow> 'a ring_buffer \<Rightarrow> 'a ring_buffer" where
  "rb_Clear z r = r\<lparr>ring := map (\<lambda>_. z) (ring r), headPos := 0, tailPos := 0, full := False\<rparr>"

section \<open>Invariant and contents\<close>

definition rb_inv :: "'a ring_buffer \<Rightarrow> bool" where
  "rb_inv r \<longleftrightarrow> headPos r < length (ring r) \<and> tailPos r < length (ring r) \<and>
     (full r \<longrightarrow> headPos r = tailPos r)"

definition rb_count :: "'a ring_buffer \<Rightarrow> nat" where
  "rb_count r = nat (rb_Len r)"

definition rb_items :: "'a ring_buffer \<Rightarrow> 'a list" where
  "rb_items r = map (\<lambda>i. ring r ! ((headPos r + i) mod length (ring r))) [0..<rb_count r]"

lemma length_rb_items [simp]: "length (rb_items r) = rb_count r"
  by (simp add: rb_items_def)

lemma rb_count_cases:
  assumes "rb_inv r"
  shows "rb_count r = (if full r then length (ring r)
           else if headPos r \<le> tailPos r then tailPos r - headPos r
           else tailPos r + length (ring r) - headPos r)"
  using assms by (auto simp: rb_count_def rb_Len_def rb_inv_def)

lemma rb_Len_count: "rb_inv r \<Longrightarrow> rb_Len r = int (rb_count r)"
  by (auto simp: rb_count_def rb_Len_def rb_inv_def)

lemma rb_count_le: "rb_inv r \<Longrightarrow> rb_count r \<le> length (ring r)"
  by (auto simp: rb_count_cases rb_inv_def)

lemma rb_full_iff: "rb_inv r \<Longrightarrow> full r \<longleftrightarrow> rb_count r = length (ring r)"
  by (auto simp: rb_count_cases rb_inv_def)

lemma rb_empty_iff: "rb_inv r \<Longrightarrow> rb_empty r \<longleftrightarrow> rb_count r = 0"
  by (auto simp: rb_count_cases rb_inv_def rb_empty_def)

lemma rb_tail_mod:
  assumes "rb_inv r"
  shows "tailPos r = (headPos r + rb_count r) mod length (ring r)"
proof -
  have "headPos r < length (ring r)" "tailPos r < length (ring r)"
    using assms by (auto simp: rb_inv_def)
  moreover have "headPos r + (tailPos r + length (ring r) - headPos r) = tailPos r + length (ring r)"
    using calculation by simp
  ultimately show ?thesis
    using assms by (auto simp: rb_count_cases rb_inv_def)
qed

lemma add_mod_cases:
  fixes h i n :: nat
  assumes "i < n"
  shows "(h + i) mod n = (if h mod n + i < n then h mod n + i else h mod n + i - n)"
proof -
  have "(h + i) mod n = (h mod n + i) mod n" by (simp add: mod_add_left_eq)
  moreover have "h mod n + i - n < n"
    using assms mod_less_divisor [of n h] by linarith
  ultimately show ?thesis by (auto simp: le_mod_geq)
qed

lemma add_mod_inject:
  fixes h i j n :: nat
  assumes "i < n" "j < n" "(h + i) mod n = (h + j) mod n"
  shows "i = j"
proof -
  have "h mod n < n" using assms(1) by simp
  with assms show ?thesis by (auto simp: add_mod_cases split: if_splits)
qed

section \<open>The operations on the contents\<close>

lemma rb_inv_New: "rb_inv (NewRingBuffer z n)" and rb_items_New: "rb_items (NewRingBuffer z n) = []"
  by (auto simp: rb_inv_def NewRingBuffer_def Let_def rb_items_def rb_count_def rb_Len_def)

lemma rb_grow:
  assumes "rb_inv r" "full r"
  shows "rb_inv (rb_grow z r)" "rb_items (rb_grow z r) = rb_items r"
    "length (ring (rb_grow z r)) = 2 * length (ring r)" "\<not> full (rb_grow z r)"
    "rb_count (rb_grow z r) = rb_count r"
proof -
  let ?n = "length (ring r)"
  have n: "headPos r < ?n" "tailPos r = headPos r" "rb_count r = ?n"
    using assms by (auto simp: rb_inv_def rb_count_cases)
  have ring: "ring (rb_grow z r) = drop (headPos r) (ring r) @ take (headPos r) (ring r) @ replicate ?n z"
  proof -
    have "ring r \<noteq> []" using n by auto
    moreover have "min (?n * 2) (?n - headPos r) = ?n - headPos r" by simp
    ultimately show ?thesis using n by (simp add: rb_grow_def Let_def copy_at_def)
  qed
  have fields: "headPos (rb_grow z r) = 0" "tailPos (rb_grow z r) = ?n" "\<not> full (rb_grow z r)"
    by (simp_all add: rb_grow_def Let_def)
  show "rb_inv (rb_grow z r)" using n ring fields by (auto simp: rb_inv_def)
  show "length (ring (rb_grow z r)) = 2 * ?n" using n ring by simp
  show "\<not> full (rb_grow z r)" by (rule fields)
  show cnt: "rb_count (rb_grow z r) = rb_count r"
    using n fields ring by (simp add: rb_count_def rb_Len_def)
  show "rb_items (rb_grow z r) = rb_items r"
  proof (rule nth_equalityI)
    show "length (rb_items (rb_grow z r)) = length (rb_items r)" by (simp add: cnt)
    fix i
    assume "i < length (rb_items (rb_grow z r))"
    then have i: "i < ?n" using n cnt by simp
    have "(headPos r + i) mod ?n = (if headPos r + i < ?n then headPos r + i else headPos r + i - ?n)"
      using i n by (simp add: add_mod_cases)
    then show "rb_items (rb_grow z r) ! i = rb_items r ! i"
      using i n cnt ring fields by (auto simp: rb_items_def nth_append add.commute)
  qed
qed

text \<open>Writing at the tail of a buffer that is not full.\<close>

lemma rb_store:
  fixes t :: 'a
  assumes inv: "rb_inv r" and nf: "\<not> full r"
  defines "r' \<equiv> (let r = r\<lparr>ring := (ring r)[tailPos r := t], tailPos := tailPos r + 1\<rparr>;
                 r = (if tailPos r = length (ring r) then r\<lparr>tailPos := 0\<rparr> else r)
             in (if tailPos r = headPos r then r\<lparr>full := True\<rparr> else r))"
  shows "rb_inv r'" "rb_items r' = rb_items r @ [t]" "length (ring r') = length (ring r)"
proof -
  let ?n = "length (ring r)"
  have bnd: "headPos r < ?n" "tailPos r < ?n" using inv by (auto simp: rb_inv_def)
  have ring': "ring r' = (ring r)[tailPos r := t]" and head': "headPos r' = headPos r"
    by (auto simp: r'_def Let_def)
  show inv': "rb_inv r'" using bnd nf by (auto simp: r'_def Let_def rb_inv_def)
  show "length (ring r') = ?n" by (simp add: ring')
  have lt: "rb_count r < ?n"
    using inv nf by (metis le_neq_implies_less rb_count_le rb_full_iff)
  have cnt: "rb_count r' = Suc (rb_count r)"
    using bnd nf inv inv' by (auto simp: rb_count_cases r'_def Let_def split: if_splits)
  have old: "ring r' ! ((headPos r + i) mod ?n) = ring r ! ((headPos r + i) mod ?n)"
    if "i < rb_count r" for i
  proof -
    have "(headPos r + i) mod ?n \<noteq> tailPos r"
      using add_mod_inject [of i ?n "rb_count r" "headPos r"] that lt rb_tail_mod [OF inv] by auto
    then show ?thesis by (simp add: ring')
  qed
  have "ring r' ! ((headPos r + rb_count r) mod ?n) = t"
    using bnd rb_tail_mod [OF inv] by (simp add: ring')
  then show "rb_items r' = rb_items r @ [t]"
    using old by (simp add: rb_items_def cnt head' ring')
qed

lemma rb_Push_full:
  assumes "rb_inv r" "rb_count r = length (ring r)" "int (length (ring r)) \<ge> m"
  shows "rb_Push z m t r = Some (False, r)"
  using assms by (simp add: rb_Push_def rb_full_iff)

lemma rb_Push_ok:
  assumes inv: "rb_inv r" and room: "\<not> (rb_count r = length (ring r) \<and> int (length (ring r)) \<ge> m)"
  shows "\<exists>r'. rb_Push z m t r = Some (True, r') \<and> rb_inv r' \<and> rb_items r' = rb_items r @ [t] \<and>
    length (ring r') = (if rb_count r = length (ring r) then 2 * length (ring r) else length (ring r))"
proof -
  define r1 where "r1 = (if full r then rb_grow z r else r)"
  have r1: "rb_inv r1" "\<not> full r1" "rb_items r1 = rb_items r"
    "length (ring r1) = (if rb_count r = length (ring r) then 2 * length (ring r) else length (ring r))"
    using rb_grow [OF inv] inv rb_full_iff [OF inv] by (auto simp: r1_def)
  have tail: "tailPos r1 < length (ring r1)" using r1(1) by (simp add: rb_inv_def)
  from room rb_full_iff [OF inv] have "\<not> (full r \<and> int (length (ring r)) \<ge> m)" by simp
  then show ?thesis
    using rb_store [OF r1(1,2), of t] r1(3,4) tail
    by (simp add: rb_Push_def Let_def flip: r1_def)
qed

lemma rb_Pop_empty: "rb_inv r \<Longrightarrow> rb_items r = [] \<Longrightarrow> rb_Pop z r = Some (None, r)"
  using rb_empty_iff [of r] by (simp add: rb_Pop_def rb_items_def)

lemma rb_Pop_cons:
  assumes inv: "rb_inv r" and items: "rb_items r = x # xs"
  shows "\<exists>r'. rb_Pop z r = Some (Some x, r') \<and> rb_inv r' \<and> rb_items r' = xs \<and>
    length (ring r') = length (ring r)"
proof -
  let ?n = "length (ring r)"
  define r' where "r' = (let r = r\<lparr>full := False, ring := (ring r)[headPos r := z], headPos := headPos r + 1\<rparr>
        in (if headPos r = length (ring r) then r\<lparr>headPos := 0\<rparr> else r))"
  have bnd: "headPos r < ?n" "tailPos r < ?n" using inv by (auto simp: rb_inv_def)
  have ft: "full r \<Longrightarrow> headPos r = tailPos r" using inv by (simp add: rb_inv_def)
  have pos: "0 < rb_count r" using items by (metis length_rb_items length_Cons zero_less_Suc)
  have ne: "\<not> rb_empty r" using pos rb_empty_iff [OF inv] by simp
  have inv': "rb_inv r'" using bnd by (auto simp: r'_def Let_def rb_inv_def)
  have ring': "ring r' = (ring r)[headPos r := z]" by (auto simp: r'_def Let_def)
  have head': "headPos r' = (headPos r + 1) mod ?n"
    using bnd by (auto simp: r'_def Let_def)
  have cnt: "rb_count r = Suc (rb_count r')"
    using bnd inv inv' ne ft by (auto simp: rb_count_cases r'_def Let_def rb_empty_def split: if_splits)
  have le: "rb_count r \<le> ?n" using inv by (rule rb_count_le)
  have x: "ring r ! headPos r = x"
    using items pos bnd by (simp add: rb_items_def upt_conv_Cons)
  have "rb_items r' = tl (rb_items r)"
  proof (rule nth_equalityI)
    show "length (rb_items r') = length (tl (rb_items r))" using cnt by simp
    fix i
    assume "i < length (rb_items r')"
    then have i: "i < rb_count r'" by simp
    have eq: "(headPos r' + i) mod ?n = (headPos r + Suc i) mod ?n"
      by (simp add: head' mod_add_left_eq)
    have "(headPos r + Suc i) mod ?n \<noteq> headPos r"
    proof
      assume "(headPos r + Suc i) mod ?n = headPos r"
      moreover have "Suc i < ?n" "0 < ?n" using i cnt le by linarith+
      ultimately have "Suc i = 0"
        using add_mod_inject [of "Suc i" ?n 0 "headPos r"] bnd by (metis add_0_right mod_less)
      then show False by simp
    qed
    then show "rb_items r' ! i = tl (rb_items r) ! i"
      using i cnt eq by (simp add: rb_items_def ring' nth_tl del: upt_Suc)
  qed
  then have "rb_items r' = xs" using items by simp
  moreover have "rb_Pop z r = Some (Some x, r')"
    using ne bnd x by (simp add: rb_Pop_def r'_def Let_def)
  ultimately show ?thesis using inv' ring' by auto
qed

section \<open>The queue contract\<close>

text \<open>
  The abstract queue: its contents and the room it has. A push into a full queue is refused when
  the limit in force at that moment is reached, and doubles the room otherwise.
\<close>

datatype 'a fifo_op = FPush int 'a | FPop

datatype 'a fifo_out = Pushed bool | Popped "'a option"

fun fifo_step :: "'a fifo_op \<Rightarrow> 'a list \<times> nat \<Rightarrow> 'a fifo_out \<times> 'a list \<times> nat" where
  "fifo_step (FPush m x) (xs, c) =
     (if length xs = c \<and> int c \<ge> m then (Pushed False, xs, c)
      else (Pushed True, xs @ [x], if length xs = c then 2 * c else c))"
| "fifo_step FPop ([], c) = (Popped None, [], c)"
| "fifo_step FPop (x # xs, c) = (Popped (Some x), xs, c)"

fun fifo_run :: "'a fifo_op list \<Rightarrow> 'a list \<times> nat \<Rightarrow> 'a fifo_out list \<times> 'a list \<times> nat" where
  "fifo_run [] q = ([], q)"
| "fifo_run (p # ps) q =
     (let (out, q') = fifo_step p q; (outs, q'') = fifo_run ps q' in (out # outs, q''))"

locale bounded_fifo =
  fixes push :: "int \<Rightarrow> 'a \<Rightarrow> 'q \<Rightarrow> (bool \<times> 'q) option"
    and pop :: "'q \<Rightarrow> ('a option \<times> 'q) option"
    and items :: "'q \<Rightarrow> 'a list"
    and room :: "'q \<Rightarrow> nat"
    and invar :: "'q \<Rightarrow> bool"
  assumes push_full:
      "invar q \<Longrightarrow> length (items q) = room q \<Longrightarrow> int (room q) \<ge> m \<Longrightarrow> push m x q = Some (False, q)"
    and push_ok:
      "invar q \<Longrightarrow> \<not> (length (items q) = room q \<and> int (room q) \<ge> m) \<Longrightarrow>
        \<exists>q'. push m x q = Some (True, q') \<and> invar q' \<and> items q' = items q @ [x] \<and>
          room q' = (if length (items q) = room q then 2 * room q else room q)"
    and pop_empty: "invar q \<Longrightarrow> items q = [] \<Longrightarrow> pop q = Some (None, q)"
    and pop_cons:
      "invar q \<Longrightarrow> items q = x # xs \<Longrightarrow>
        \<exists>q'. pop q = Some (Some x, q') \<and> invar q' \<and> items q' = xs \<and> room q' = room q"
begin

definition queue_step :: "'a fifo_op \<Rightarrow> 'q \<Rightarrow> ('a fifo_out \<times> 'q) option" where
  "queue_step p q = (case p of
     FPush m x \<Rightarrow> map_option (\<lambda>(b, q'). (Pushed b, q')) (push m x q)
   | FPop \<Rightarrow> map_option (\<lambda>(r, q'). (Popped r, q')) (pop q))"

primrec queue_run :: "'a fifo_op list \<Rightarrow> 'q \<Rightarrow> ('a fifo_out list \<times> 'q) option" where
  "queue_run [] q = Some ([], q)"
| "queue_run (p # ps) q = (case queue_step p q of
     None \<Rightarrow> None
   | Some (out, q') \<Rightarrow> map_option (\<lambda>(outs, q''). (out # outs, q'')) (queue_run ps q'))"

lemma queue_step_refines:
  assumes "invar q"
  shows "\<exists>out q'. queue_step p q = Some (out, q') \<and> invar q' \<and>
    fifo_step p (items q, room q) = (out, items q', room q')"
proof (cases p)
  case (FPush m x)
  show ?thesis
  proof (cases "length (items q) = room q \<and> int (room q) \<ge> m")
    case True
    then show ?thesis using FPush push_full [OF assms] assms by (simp add: queue_step_def)
  next
    case False
    then show ?thesis using FPush push_ok [OF assms False, of x] by (auto simp: queue_step_def)
  qed
next
  case FPop
  show ?thesis
  proof (cases "items q")
    case Nil
    then show ?thesis using FPop pop_empty [OF assms] assms by (simp add: queue_step_def)
  next
    case (Cons x xs)
    then show ?thesis using FPop pop_cons [OF assms Cons] by (auto simp: queue_step_def)
  qed
qed

lemma queue_run_refines:
  "invar q \<Longrightarrow> \<exists>outs q'. queue_run ps q = Some (outs, q') \<and> invar q' \<and>
     fifo_run ps (items q, room q) = (outs, items q', room q')"
proof (induction ps arbitrary: q)
  case Nil
  then show ?case by simp
next
  case (Cons p ps)
  from queue_step_refines [OF Cons.prems, of p] obtain out q1 where
    1: "queue_step p q = Some (out, q1)" "invar q1" "fifo_step p (items q, room q) = (out, items q1, room q1)"
    by blast
  from Cons.IH [OF 1(2)] obtain outs q2 where
    2: "queue_run ps q1 = Some (outs, q2)" "invar q2" "fifo_run ps (items q1, room q1) = (outs, items q2, room q2)"
    by blast
  from 1 2 show ?case by simp
qed

end

interpretation rb: bounded_fifo "rb_Push z" "rb_Pop z" rb_items "\<lambda>r. length (ring r)" rb_inv
  for z :: 'a
proof
  fix q :: "'a ring_buffer" and m x
  assume "rb_inv q" "length (rb_items q) = length (ring q)" "int (length (ring q)) \<ge> m"
  then show "rb_Push z m x q = Some (False, q)" by (simp add: rb_Push_full)
next
  fix q :: "'a ring_buffer" and m x
  assume "rb_inv q" "\<not> (length (rb_items q) = length (ring q) \<and> int (length (ring q)) \<ge> m)"
  then show "\<exists>q'. rb_Push z m x q = Some (True, q') \<and> rb_inv q' \<and> rb_items q' = rb_items q @ [x] \<and>
      length (ring q') = (if length (rb_items q) = length (ring q) then 2 * length (ring q) else length (ring q))"
    using rb_Push_ok [of q m z x] by simp
qed (simp_all add: rb_Pop_empty rb_Pop_cons)

text \<open>A run of operations on the ring buffer itself, stopping at a panic.\<close>

fun rb_step :: "'a \<Rightarrow> 'a fifo_op \<Rightarrow> 'a ring_buffer \<Rightarrow> ('a fifo_out \<times> 'a ring_buffer) option" where
  "rb_step z (FPush m x) r = (case rb_Push z m x r of None \<Rightarrow> None | Some (b, r') \<Rightarrow> Some (Pushed b, r'))"
| "rb_step z FPop r = (case rb_Pop z r of None \<Rightarrow> None | Some (v, r') \<Rightarrow> Some (Popped v, r'))"

fun rb_run :: "'a \<Rightarrow> 'a fifo_op list \<Rightarrow> 'a ring_buffer \<Rightarrow> ('a fifo_out list \<times> 'a ring_buffer) option" where
  "rb_run z [] r = Some ([], r)"
| "rb_run z (p # ps) r = (case rb_step z p r of
     None \<Rightarrow> None
   | Some (out, r') \<Rightarrow> (case rb_run z ps r' of None \<Rightarrow> None | Some (outs, r'') \<Rightarrow> Some (out # outs, r'')))"

lemma rb_step_eq: "rb_step z p r = rb.queue_step z p r"
  by (cases p) (auto simp: rb.queue_step_def split: option.splits)

lemma rb_run_eq: "rb_run z ps r = rb.queue_run z ps r"
  by (induction ps arbitrary: r) (auto simp: rb_step_eq split: option.splits)

section \<open>Properties\<close>

text \<open>C17: Whatever sequence of pushes (each under the limit in force at that moment) and pops is
  performed on a fresh ring buffer, no slice access is out of range, every answer is the one of the
  bounded first-in-first-out queue, and the buffer ends with the queue's contents.\<close>

theorem ring_buffer_is_fifo:
  "\<exists>outs r. rb_run z ps (NewRingBuffer z n) = Some (outs, r) \<and> rb_inv r \<and>
     fifo_run ps ([], length (ring (NewRingBuffer z n))) = (outs, rb_items r, length (ring r))"
  using rb.queue_run_refines [OF rb_inv_New [of z n], of z ps] by (simp add: rb_run_eq rb_items_New)

end
