(* ===== verification/Linked_List.thy ===== *)
theory Linked_List
  imports Prelude "HOL-Library.Monad_Syntax"
begin

text \<open>
  The doubly linked list (\<^verbatim>\<open>pkg/utils/list/list.go\<close>) over an explicit heap: elements and lists are named
  by numbers, every list is a ring through its sentinel \<open>Root l\<close>, and the pointer assignments are those
  of the code, in their order. An operation returns \<open>None\<close> where the code would dereference nil.
  The invariant ties the heap to one sequence of elements per list; the operations refine the
  operations on sequences and never panic.
\<close>

section \<open>The heap\<close>

datatype ref = Root nat | El nat

record 'v heap =
  h_next :: "ref \<Rightarrow> ref option"
  h_prev :: "ref \<Rightarrow> ref option"
  h_list :: "nat \<Rightarrow> nat option"
  h_Value :: "nat \<Rightarrow> 'v option"
  h_len :: "nat \<Rightarrow> int"
  h_free :: nat

definition new_heap :: "'v heap" where
  "new_heap = \<lparr>h_next = (\<lambda>_. None), h_prev = (\<lambda>_. None), h_list = (\<lambda>_. None), h_Value = (\<lambda>_. None),
     h_len = (\<lambda>_. 0), h_free = 0\<rparr>"

text \<open>The assignments \<^verbatim>\<open>p.next = q\<close> and \<^verbatim>\<open>p.prev = q\<close> through a pointer.\<close>

definition set_next :: "ref option \<Rightarrow> ref option \<Rightarrow> 'v heap \<Rightarrow> 'v heap option" where
  "set_next p q h = (case p of None \<Rightarrow> None | Some r \<Rightarrow> Some (h\<lparr>h_next := (h_next h)(r := q)\<rparr>))"

definition set_prev :: "ref option \<Rightarrow> ref option \<Rightarrow> 'v heap \<Rightarrow> 'v heap option" where
  "set_prev p q h = (case p of None \<Rightarrow> None | Some r \<Rightarrow> Some (h\<lparr>h_prev := (h_prev h)(r := q)\<rparr>))"

section \<open>Operations\<close>

definition elem_Next :: "nat \<Rightarrow> 'v heap \<Rightarrow> ref option" where
  "elem_Next e h =
     (case h_list h e of
        None \<Rightarrow> None
      | Some l \<Rightarrow> if h_next h (El e) \<noteq> Some (Root l) then h_next h (El e) else None)"

definition elem_Prev :: "nat \<Rightarrow> 'v heap \<Rightarrow> ref option" where
  "elem_Prev e h =
     (case h_list h e of
        None \<Rightarrow> None
      | Some l \<Rightarrow> if h_prev h (El e) \<noteq> Some (Root l) then h_prev h (El e) else None)"

definition list_Init :: "nat \<Rightarrow> 'v heap \<Rightarrow> 'v heap" where
  "list_Init l h = h\<lparr>h_next := (h_next h)(Root l := Some (Root l)),
     h_prev := (h_prev h)(Root l := Some (Root l)), h_len := (h_len h)(l := 0)\<rparr>"

definition list_Len :: "nat \<Rightarrow> 'v heap \<Rightarrow> int" where
  "list_Len l h = h_len h l"

definition list_Front :: "nat \<Rightarrow> 'v heap \<Rightarrow> ref option" where
  "list_Front l h = (if h_len h l = 0 then None else h_next h (Root l))"

definition list_Back :: "nat \<Rightarrow> 'v heap \<Rightarrow> ref option" where
  "list_Back l h = (if h_len h l = 0 then None else h_prev h (Root l))"

definition list_lazyInit :: "nat \<Rightarrow> 'v heap \<Rightarrow> 'v heap" where
  "list_lazyInit l h = (if h_next h (Root l) = None then list_Init l h else h)"

text \<open>The four assignments that put \<open>e\<close> after \<open>at\<close>, and the two that take it out.\<close>

definition link_after :: "ref \<Rightarrow> ref \<Rightarrow> 'v heap \<Rightarrow> 'v heap option" where
  "link_after e at h = do {
     let h = h\<lparr>h_prev := (h_prev h)(e := Some at)\<rparr>;
     let h = h\<lparr>h_next := (h_next h)(e := h_next h at)\<rparr>;
     h \<leftarrow> set_next (h_prev h e) (Some e) h;
     set_prev (h_next h e) (Some e) h
   }"

definition unlink :: "ref \<Rightarrow> 'v heap \<Rightarrow> 'v heap option" where
  "unlink e h = do {
     h \<leftarrow> set_next (h_prev h e) (h_next h e) h;
     set_prev (h_next h e) (h_prev h e) h
   }"

definition list_insert :: "nat \<Rightarrow> nat \<Rightarrow> ref \<Rightarrow> 'v heap \<Rightarrow> 'v heap option" where
  "list_insert l e at h = do {
     h \<leftarrow> link_after (El e) at h;
     Some (h\<lparr>h_list := (h_list h)(e := Some l), h_len := (h_len h)(l := h_len h l + 1)\<rparr>)
   }"

text \<open>\<^verbatim>\<open>insertValue\<close> allocates a new element; \<open>at\<close> is a pointer, nil panics.\<close>

definition list_insertValue :: "nat \<Rightarrow> 'v \<Rightarrow> ref option \<Rightarrow> 'v heap \<Rightarrow> (nat \<times> 'v heap) option" where
  "list_insertValue l v at h = do {
     at \<leftarrow> at;
     let e = h_free h;
     let h = h\<lparr>h_free := e + 1, h_Value := (h_Value h)(e := Some v), h_list := (h_list h)(e := None),
       h_next := (h_next h)(El e := None), h_prev := (h_prev h)(El e := None)\<rparr>;
     h \<leftarrow> list_insert l e at h;
     Some (e, h)
   }"

definition list_remove :: "nat \<Rightarrow> nat \<Rightarrow> 'v heap \<Rightarrow> 'v heap option" where
  "list_remove l e h = do {
     h \<leftarrow> unlink (El e) h;
     Some (h\<lparr>h_next := (h_next h)(El e := None), h_prev := (h_prev h)(El e := None),
       h_list := (h_list h)(e := None), h_len := (h_len h)(l := h_len h l - 1)\<rparr>)
   }"

definition list_move :: "nat \<Rightarrow> ref option \<Rightarrow> 'v heap \<Rightarrow> 'v heap option" where
  "list_move e at h =
     (if Some (El e) = at then Some h
      else do {
        h \<leftarrow> unlink (El e) h;
        at \<leftarrow> at;
        link_after (El e) at h
      })"

definition list_Remove :: "nat \<Rightarrow> nat \<Rightarrow> 'v heap \<Rightarrow> ('v option \<times> 'v heap) option" where
  "list_Remove l e h =
     (if h_list h e = Some l then do { h' \<leftarrow> list_remove l e h; Some (h_Value h' e, h') }
      else Some (h_Value h e, h))"

definition list_PushFront :: "nat \<Rightarrow> 'v \<Rightarrow> 'v heap \<Rightarrow> (nat \<times> 'v heap) option" where
  "list_PushFront l v h = (let h = list_lazyInit l h in list_insertValue l v (Some (Root l)) h)"

definition list_PushBack :: "nat \<Rightarrow> 'v \<Rightarrow> 'v heap \<Rightarrow> (nat \<times> 'v heap) option" where
  "list_PushBack l v h = (let h = list_lazyInit l h in list_insertValue l v (h_prev h (Root l)) h)"

text \<open>The result of an insertion at a mark of another list is nil: the inner option.\<close>

definition list_InsertBefore :: "nat \<Rightarrow> 'v \<Rightarrow> nat \<Rightarrow> 'v heap \<Rightarrow> (nat option \<times> 'v heap) option" where
  "list_InsertBefore l v mark h =
     (if h_list h mark \<noteq> Some l then Some (None, h)
      else map_option (\<lambda>(e, h). (Some e, h)) (list_insertValue l v (h_prev h (El mark)) h))"

definition list_InsertAfter :: "nat \<Rightarrow> 'v \<Rightarrow> nat \<Rightarrow> 'v heap \<Rightarrow> (nat option \<times> 'v heap) option" where
  "list_InsertAfter l v mark h =
     (if h_list h mark \<noteq> Some l then Some (None, h)
      else map_option (\<lambda>(e, h). (Some e, h)) (list_insertValue l v (Some (El mark)) h))"

definition list_MoveToFront :: "nat \<Rightarrow> nat \<Rightarrow> 'v heap \<Rightarrow> 'v heap option" where
  "list_MoveToFront l e h =
     (if h_list h e \<noteq> Some l \<or> h_next h (Root l) = Some (El e) then Some h
      else list_move e (Some (Root l)) h)"

definition list_MoveToBack :: "nat \<Rightarrow> nat \<Rightarrow> 'v heap \<Rightarrow> 'v heap option" where
  "list_MoveToBack l e h =
     (if h_list h e \<noteq> Some l \<or> h_prev h (Root l) = Some (El e) then Some h
      else list_move e (h_prev h (Root l)) h)"

definition list_MoveBefore :: "nat \<Rightarrow> nat \<Rightarrow> nat \<Rightarrow> 'v heap \<Rightarrow> 'v heap option" where
  "list_MoveBefore l e mark h =
     (if h_list h e \<noteq> Some l \<or> e = mark \<or> h_list h mark \<noteq> Some l then Some h
      else list_move e (h_prev h (El mark)) h)"

definition list_MoveAfter :: "nat \<Rightarrow> nat \<Rightarrow> nat \<Rightarrow> 'v heap \<Rightarrow> 'v heap option" where
  "list_MoveAfter l e mark h =
     (if h_list h e \<noteq> Some l \<or> e = mark \<or> h_list h mark \<noteq> Some l then Some h
      else list_move e (Some (El mark)) h)"

text \<open>The loops of \<^verbatim>\<open>PushBackList\<close> and \<^verbatim>\<open>PushFrontList\<close>: \<open>i\<close> is the length read before the loop, the cursor
  walks the other list, which may be the same list.\<close>

fun push_back_loop :: "nat \<Rightarrow> nat \<Rightarrow> ref option \<Rightarrow> 'v heap \<Rightarrow> 'v heap option" where
  "push_back_loop l 0 e h = Some h"
| "push_back_loop l (Suc i) e h =
     (case e of
        Some (El x) \<Rightarrow> do {
          v \<leftarrow> h_Value h x;
          (_, h) \<leftarrow> list_insertValue l v (h_prev h (Root l)) h;
          push_back_loop l i (elem_Next x h) h
        }
      | _ \<Rightarrow> None)"

fun push_front_loop :: "nat \<Rightarrow> nat \<Rightarrow> ref option \<Rightarrow> 'v heap \<Rightarrow> 'v heap option" where
  "push_front_loop l 0 e h = Some h"
| "push_front_loop l (Suc i) e h =
     (case e of
        Some (El x) \<Rightarrow> do {
          v \<leftarrow> h_Value h x;
          (_, h) \<leftarrow> list_insertValue l v (Some (Root l)) h;
          push_front_loop l i (elem_Prev x h) h
        }
      | _ \<Rightarrow> None)"

definition list_PushBackList :: "nat \<Rightarrow> nat \<Rightarrow> 'v heap \<Rightarrow> 'v heap option" where
  "list_PushBackList l other h =
     (let h = list_lazyInit l h in push_back_loop l (nat (list_Len other h)) (list_Front other h) h)"

definition list_PushFrontList :: "nat \<Rightarrow> nat \<Rightarrow> 'v heap \<Rightarrow> 'v heap option" where
  "list_PushFrontList l other h =
     (let h = list_lazyInit l h in push_front_loop l (nat (list_Len other h)) (list_Back other h) h)"

section \<open>Chains of references\<close>

fun chain :: "'v heap \<Rightarrow> ref list \<Rightarrow> bool" where
  "chain h (x # y # rs) \<longleftrightarrow> h_next h x = Some y \<and> h_prev h y = Some x \<and> chain h (y # rs)"
| "chain h _ \<longleftrightarrow> True"

lemma chain_append: "chain h (us @ x # vs) \<longleftrightarrow> chain h (us @ [x]) \<and> chain h (x # vs)"
proof (induction us)
  case (Cons u us)
  then show ?case by (cases us) auto
qed simp

lemma chain_frame:
  assumes "chain h rs" "\<forall>x \<in> set (butlast rs). h_next h' x = h_next h x" "\<forall>x \<in> set (tl rs). h_prev h' x = h_prev h x"
  shows "chain h' rs"
  using assms
proof (induction rs)
  case (Cons x rs)
  then show ?case by (cases rs) (auto split: if_splits)
qed simp

text \<open>A reference list is proper when it repeats no reference except for the first being the last.\<close>

definition proper :: "ref list \<Rightarrow> bool" where
  "proper rs \<longleftrightarrow> distinct (butlast rs) \<and> distinct (tl rs)"


lemma link_after_eq:
  assumes "e \<noteq> at" "h_next h at = Some v"
  shows "link_after e at h = Some (h\<lparr>h_prev := (h_prev h)(e := Some at, v := Some e),
    h_next := (h_next h)(e := Some v, at := Some e)\<rparr>)"
  using assms by (simp add: link_after_def set_next_def set_prev_def)

lemma unlink_eq:
  assumes "h_prev h e = Some u" "h_next h e = Some v" "u \<noteq> e"
  shows "unlink e h = Some (h\<lparr>h_next := (h_next h)(u := Some v), h_prev := (h_prev h)(v := Some u)\<rparr>)"
  using assms by (simp add: unlink_def set_next_def set_prev_def)

lemma proper_split:
  assumes "proper (us @ x # y # vs)"
  shows "x \<notin> set us" "x \<notin> set (butlast (y # vs))" "y \<notin> set (tl (us @ [x]))" "y \<notin> set vs"
proof -
  have b: "butlast (us @ x # y # vs) = us @ x # butlast (y # vs)" by (simp add: butlast_append)
  show "x \<notin> set us" "x \<notin> set (butlast (y # vs))" using assms by (auto simp: proper_def b)
  show "y \<notin> set (tl (us @ [x]))" "y \<notin> set vs" using assms by (cases us; auto simp: proper_def)+
qed

lemma in_tlD: "x \<in> set (tl xs) \<Longrightarrow> x \<in> set xs"
  by (cases xs) auto

lemma chain_link:
  assumes c: "chain h (us @ at # v # vs)" and p: "proper (us @ at # v # vs)" and e: "e \<notin> set (us @ at # v # vs)"
    and h': "h_prev h' = (h_prev h)(e := Some at, v := Some e)" "h_next h' = (h_next h)(e := Some v, at := Some e)"
  shows "chain h' (us @ at # e # v # vs)"
proof -
  note n = proper_split [OF p]
  have ch: "chain h (us @ [at])" "chain h (v # vs)" using c chain_append [of h us at "v # vs"] by simp_all
  have "chain h' (us @ [at])"
  proof (rule chain_frame [OF ch(1)])
    show "\<forall>x \<in> set (butlast (us @ [at])). h_next h' x = h_next h x" using n(1) e by (auto simp: h')
    show "\<forall>x \<in> set (tl (us @ [at])). h_prev h' x = h_prev h x"
    proof
      fix x
      assume x: "x \<in> set (tl (us @ [at]))"
      then have "x \<noteq> v" using n(3) by blast
      moreover have "x \<noteq> e" using in_tlD [OF x] e by auto
      ultimately show "h_prev h' x = h_prev h x" by (simp add: h')
    qed
  qed
  moreover have "chain h' (v # vs)"
  proof (rule chain_frame [OF ch(2)])
    show "\<forall>x \<in> set (butlast (v # vs)). h_next h' x = h_next h x"
    proof
      fix x
      assume x: "x \<in> set (butlast (v # vs))"
      then have "x \<noteq> at" using n(2) by blast
      moreover have "x \<noteq> e" using in_set_butlastD [OF x] e by auto
      ultimately show "h_next h' x = h_next h x" by (simp add: h')
    qed
    show "\<forall>x \<in> set (tl (v # vs)). h_prev h' x = h_prev h x" using n(4) e by (auto simp: h')
  qed
  moreover have "h_next h' at = Some e" "h_prev h' e = Some at" "h_next h' e = Some v" "h_prev h' v = Some e"
    using e by (auto simp: h')
  ultimately show ?thesis using chain_append [of h' us at "e # v # vs"] by simp
qed

lemma chain_unlink:
  assumes c: "chain h (us @ u # e # v # vs)" and p: "proper (us @ u # e # v # vs)"
    and h': "h_next h' = (h_next h)(u := Some v)" "h_prev h' = (h_prev h)(v := Some u)"
  shows "chain h' (us @ u # v # vs)"
proof -
  note n1 = proper_split [OF p]
  have "proper ((us @ [u]) @ e # v # vs)" using p by simp
  note n2 = proper_split [OF this]
  have ch: "chain h (us @ [u])" "chain h (v # vs)" using c chain_append [of h us u "e # v # vs"] by simp_all
  have "chain h' (us @ [u])"
  proof (rule chain_frame [OF ch(1)])
    show "\<forall>x \<in> set (butlast (us @ [u])). h_next h' x = h_next h x" using n1(1) by (auto simp: h')
    show "\<forall>x \<in> set (tl (us @ [u])). h_prev h' x = h_prev h x" using n2(3) by (cases us) (auto simp: h')
  qed
  moreover have "chain h' (v # vs)"
  proof (rule chain_frame [OF ch(2)])
    show "\<forall>x \<in> set (butlast (v # vs)). h_next h' x = h_next h x"
      using n1(2) by (auto simp: h')
    show "\<forall>x \<in> set (tl (v # vs)). h_prev h' x = h_prev h x" using n2(4) by (auto simp: h')
  qed
  moreover have "h_next h' u = Some v" "h_prev h' v = Some u" by (simp_all add: h')
  ultimately show ?thesis using chain_append [of h' us u "v # vs"] by simp
qed

section \<open>The invariant\<close>

definition ring_of :: "nat \<Rightarrow> nat list \<Rightarrow> ref list" where
  "ring_of l xs = Root l # map El xs @ [Root l]"

definition list_ok :: "'v heap \<Rightarrow> nat \<Rightarrow> nat list \<Rightarrow> bool" where
  "list_ok h l xs \<longleftrightarrow> distinct xs \<and> h_len h l = int (length xs) \<and>
     (if h_next h (Root l) = None then xs = [] else chain h (ring_of l xs))"

text \<open>\<open>S\<close> gives the elements of every list; an element belongs to the list its pointer names.\<close>

definition heap_inv :: "'v heap \<Rightarrow> (nat \<Rightarrow> nat list) \<Rightarrow> bool" where
  "heap_inv h S \<longleftrightarrow> (\<forall>l. list_ok h l (S l)) \<and> (\<forall>e l. h_list h e = Some l \<longleftrightarrow> e \<in> set (S l)) \<and>
     (\<forall>e. h_list h e \<noteq> None \<longrightarrow> e < h_free h \<and> h_Value h e \<noteq> None)"

lemma heap_inv_new [simp]: "heap_inv new_heap (\<lambda>_. [])"
  by (simp add: heap_inv_def new_heap_def list_ok_def)

lemma proper_ring: "distinct xs \<Longrightarrow> proper (ring_of l xs)"
  by (auto simp: proper_def ring_of_def distinct_map inj_on_def butlast_append)

lemma heap_inv_change:
  assumes inv: "heap_inv h S"
    and frame: "\<And>k x. k \<noteq> l \<Longrightarrow> x \<in> set (ring_of k (S k)) \<Longrightarrow> h_next h' x = h_next h x \<and> h_prev h' x = h_prev h x"
    and len: "\<And>k. k \<noteq> l \<Longrightarrow> h_len h' k = h_len h k"
    and ok: "list_ok h' l zs"
    and own: "\<And>e k. h_list h' e = Some k \<longleftrightarrow> e \<in> set ((S(l := zs)) k)"
    and alloc: "\<And>e. h_list h' e \<noteq> None \<Longrightarrow> e < h_free h' \<and> h_Value h' e \<noteq> None"
  shows "heap_inv h' (S(l := zs))"
proof -
  have "list_ok h' k (S k)" if k: "k \<noteq> l" for k
  proof -
    note f = frame [OF k]
    have "h_next h' (Root k) = h_next h (Root k)" using f [of "Root k"] by (simp add: ring_of_def)
    moreover have "chain h (ring_of k (S k)) \<Longrightarrow> chain h' (ring_of k (S k))"
      by (erule chain_frame) (auto dest: in_set_butlastD in_tlD simp: f)
    ultimately show ?thesis
      using inv len [OF k] by (auto simp: heap_inv_def list_ok_def)
  qed
  then show ?thesis using ok own alloc by (auto simp: heap_inv_def)
qed


section \<open>Insertion, removal and moves keep the invariant\<close>

text \<open>The reference after which an element goes to stand behind \<open>xs\<close>.\<close>

definition after :: "nat \<Rightarrow> nat list \<Rightarrow> ref" where
  "after l xs = last (Root l # map El xs)"

lemma ring_split:
  obtains us v vs where "Root l # map El xs = us @ [after l xs]" "map El ys @ [Root l] = v # vs"
proof -
  have "Root l # map El xs = butlast (Root l # map El xs) @ [after l xs]"
    unfolding after_def by (rule append_butlast_last_id [symmetric]) simp
  moreover obtain v vs where "map El ys @ [Root l] = v # vs" by (cases ys) auto
  ultimately show thesis using that by blast
qed

lemma heap_invD:
  assumes "heap_inv h S"
  shows "distinct (S l)" "h_len h l = int (length (S l))" "h_list h e = Some l \<longleftrightarrow> e \<in> set (S l)"
    "e \<in> set (S l) \<Longrightarrow> e < h_free h" "e \<in> set (S l) \<Longrightarrow> h_Value h e \<noteq> None"
    "h_next h (Root l) \<noteq> None \<Longrightarrow> chain h (ring_of l (S l))" "h_next h (Root l) = None \<Longrightarrow> S l = []"
  using assms by (auto simp: heap_inv_def list_ok_def) force+

lemma other_ring:
  assumes "heap_inv h S" "k \<noteq> l" "x \<in> set (ring_of k (S k))"
  shows "x \<notin> set (ring_of l (S l))" "x \<noteq> El (h_free h)"
  using assms heap_invD(3) [OF assms(1)] heap_invD(4) [OF assms(1)]
  by (auto simp: ring_of_def) (metis option.inject)+

lemma list_insertValue_ok:
  assumes inv: "heap_inv h S" and S: "S l = xs @ ys" and n: "h_next h (Root l) \<noteq> None"
  shows "\<exists>h'. list_insertValue l v (Some (after l xs)) h = Some (h_free h, h') \<and>
    heap_inv h' (S(l := xs @ h_free h # ys)) \<and> h_Value h' = (h_Value h)(h_free h := Some v) \<and> h_free h' = h_free h + 1"
proof -
  let ?e = "h_free h"
  obtain us w vs where r: "Root l # map El xs = us @ [after l xs]" "map El ys @ [Root l] = w # vs"
    using ring_split .
  have ring: "ring_of l (xs @ ys) = us @ after l xs # w # vs" "ring_of l (xs @ ?e # ys) = us @ after l xs # El ?e # w # vs"
    using r by (simp_all add: ring_of_def flip: append_assoc) (metis append.assoc append_Cons append_Nil)+
  have e: "El ?e \<notin> set (us @ after l xs # w # vs)"
    using heap_invD(4) [OF inv, of ?e l] by (auto simp: S ring_of_def simp flip: ring)
  have c: "chain h (us @ after l xs # w # vs)" using heap_invD(6) [OF inv n] by (simp add: S ring)
  have p: "proper (us @ after l xs # w # vs)" using heap_invD(1) [OF inv, of l] by (simp add: S proper_ring flip: ring)
  have nx: "h_next h (after l xs) = Some w" using c chain_append [of h us "after l xs" "w # vs"] by simp
  let ?h0 = "h\<lparr>h_free := ?e + 1, h_Value := (h_Value h)(?e := Some v), h_list := (h_list h)(?e := None),
       h_next := (h_next h)(El ?e := None), h_prev := (h_prev h)(El ?e := None)\<rparr>"
  have ea: "El ?e \<noteq> after l xs" "El ?e \<noteq> w" using e by auto
  have l0: "link_after (El ?e) (after l xs) ?h0 = Some (?h0\<lparr>h_prev := (h_prev ?h0)(El ?e := Some (after l xs), w := Some (El ?e)),
    h_next := (h_next ?h0)(El ?e := Some w, after l xs := Some (El ?e))\<rparr>)"
    using ea nx by (intro link_after_eq) auto
  let ?h' = "?h0\<lparr>h_prev := (h_prev ?h0)(El ?e := Some (after l xs), w := Some (El ?e)),
    h_next := (h_next ?h0)(El ?e := Some w, after l xs := Some (El ?e)),
    h_list := (h_list ?h0)(?e := Some l), h_len := (h_len ?h0)(l := h_len ?h0 l + 1)\<rparr>"
  have "chain ?h' (ring_of l (xs @ ?e # ys))"
    unfolding ring by (rule chain_link [OF c p e]) (auto simp: fun_eq_iff)
  moreover have "h_next ?h' (Root l) \<noteq> None" using n by auto
  moreover have "distinct (xs @ ?e # ys)"
    using heap_invD(1) [OF inv, of l] heap_invD(4) [OF inv, of ?e l] by (auto simp: S)
  ultimately have ok: "list_ok ?h' l (xs @ ?e # ys)"
    using heap_invD(2) [OF inv, of l] by (simp add: list_ok_def S)
  have at_w: "after l xs \<in> set (ring_of l (S l))" "w \<in> set (ring_of l (S l))" by (auto simp: S ring)
  have "heap_inv ?h' (S(l := xs @ ?e # ys))"
  proof (rule heap_inv_change [OF inv _ _ ok])
    fix k x
    assume "k \<noteq> l" "x \<in> set (ring_of k (S k))"
    then show "h_next ?h' x = h_next h x \<and> h_prev ?h' x = h_prev h x"
      using other_ring [OF inv] at_w by fastforce
  next
    fix e k
    show "h_list ?h' e = Some k \<longleftrightarrow> e \<in> set ((S(l := xs @ ?e # ys)) k)"
      using heap_invD(3) [OF inv, of e k] heap_invD(4) [OF inv, of ?e] by (auto simp: S)
  next
    fix e
    assume "h_list ?h' e \<noteq> None"
    then show "e < h_free ?h' \<and> h_Value ?h' e \<noteq> None"
      using inv by (auto simp: heap_inv_def split: if_splits)
  qed simp
  moreover have "list_insertValue l v (Some (after l xs)) h = Some (?e, ?h')"
    using l0 by (simp add: list_insertValue_def list_insert_def Let_def)
  ultimately show ?thesis by simp
qed


lemma ring_next [simp]: "ring_of l xs \<noteq> []" "Root l \<in> set (ring_of l xs)"
  by (simp_all add: ring_of_def)

lemma element_listed: "heap_inv h S \<Longrightarrow> e \<in> set (S l) \<Longrightarrow> h_next h (Root l) \<noteq> None"
  using heap_invD(7) by force

lemma unlink_ok:
  assumes inv: "heap_inv h S" and S: "S l = xs @ e # ys"
  shows "\<exists>h1. unlink (El e) h = Some h1 \<and> chain h1 (ring_of l (xs @ ys)) \<and> h_next h1 (Root l) \<noteq> None \<and>
    (\<forall>k x. k \<noteq> l \<longrightarrow> x \<in> set (ring_of k (S k)) \<longrightarrow> h_next h1 x = h_next h x \<and> h_prev h1 x = h_prev h x) \<and>
    h_list h1 = h_list h \<and> h_Value h1 = h_Value h \<and> h_len h1 = h_len h \<and> h_free h1 = h_free h"
proof -
  obtain us w vs where r: "Root l # map El xs = us @ [after l xs]" "map El ys @ [Root l] = w # vs"
    using ring_split .
  have ring: "ring_of l (xs @ ys) = us @ after l xs # w # vs" "ring_of l (xs @ e # ys) = us @ after l xs # El e # w # vs"
    using r by (simp_all add: ring_of_def flip: append_assoc) (metis append.assoc append_Cons append_Nil)+
  have n: "h_next h (Root l) \<noteq> None" using element_listed [OF inv, of e l] by (simp add: S)
  have c: "chain h (us @ after l xs # El e # w # vs)" using heap_invD(6) [OF inv n] by (simp add: S ring)
  have d: "distinct (xs @ e # ys)" using heap_invD(1) [OF inv, of l] by (simp add: S)
  then have p: "proper (us @ after l xs # El e # w # vs)" by (simp add: proper_ring flip: ring)
  have links: "h_next h (El e) = Some w" "h_prev h (El e) = Some (after l xs)"
    using c chain_append [of h us "after l xs" "El e # w # vs"] by simp_all
  have "El e \<noteq> after l xs"
  proof
    assume "El e = after l xs"
    then have "El e \<in> set (Root l # map El xs)" unfolding r(1) by simp
    then show False using d by auto
  qed
  then have u: "unlink (El e) h = Some (h\<lparr>h_next := (h_next h)(after l xs := Some w), h_prev := (h_prev h)(w := Some (after l xs))\<rparr>)"
    using links by (intro unlink_eq) auto
  let ?h1 = "h\<lparr>h_next := (h_next h)(after l xs := Some w), h_prev := (h_prev h)(w := Some (after l xs))\<rparr>"
  have "chain ?h1 (ring_of l (xs @ ys))" unfolding ring by (rule chain_unlink [OF c p]) simp_all
  moreover have "after l xs \<in> set (ring_of l (S l))" "w \<in> set (ring_of l (S l))" by (auto simp: S ring)
  then have "\<forall>k x. k \<noteq> l \<longrightarrow> x \<in> set (ring_of k (S k)) \<longrightarrow> h_next ?h1 x = h_next h x \<and> h_prev ?h1 x = h_prev h x"
    using other_ring(1) [OF inv] by fastforce
  moreover have "h_next ?h1 (Root l) \<noteq> None" using n by auto
  ultimately show ?thesis using u by auto
qed

lemma list_remove_ok:
  assumes inv: "heap_inv h S" and S: "S l = xs @ e # ys"
  shows "\<exists>h'. list_remove l e h = Some h' \<and> heap_inv h' (S(l := xs @ ys)) \<and>
    h_Value h' = h_Value h \<and> h_free h' = h_free h"
proof -
  obtain h1 where h1: "unlink (El e) h = Some h1" "chain h1 (ring_of l (xs @ ys))" "h_next h1 (Root l) \<noteq> None"
    "\<And>k x. k \<noteq> l \<Longrightarrow> x \<in> set (ring_of k (S k)) \<Longrightarrow> h_next h1 x = h_next h x \<and> h_prev h1 x = h_prev h x"
    "h_list h1 = h_list h" "h_Value h1 = h_Value h" "h_len h1 = h_len h" "h_free h1 = h_free h"
    using unlink_ok [OF assms] by blast
  let ?h' = "h1\<lparr>h_next := (h_next h1)(El e := None), h_prev := (h_prev h1)(El e := None),
       h_list := (h_list h1)(e := None), h_len := (h_len h1)(l := h_len h1 l - 1)\<rparr>"
  have d: "distinct (xs @ e # ys)" using heap_invD(1) [OF inv, of l] by (simp add: S)
  have e: "El e \<notin> set (ring_of l (xs @ ys))" using d by (auto simp: ring_of_def)
  have "chain ?h' (ring_of l (xs @ ys))"
    by (rule chain_frame [OF h1(2)]) (use e in \<open>auto dest: in_set_butlastD in_tlD\<close>)
  then have ok: "list_ok ?h' l (xs @ ys)"
    using d h1 heap_invD(2) [OF inv, of l] by (auto simp: list_ok_def S)
  have "heap_inv ?h' (S(l := xs @ ys))"
  proof (rule heap_inv_change [OF inv _ _ ok])
    fix k x
    assume kx: "k \<noteq> l" "x \<in> set (ring_of k (S k))"
    have "El e \<in> set (ring_of l (S l))" by (simp add: S ring_of_def)
    then have "x \<noteq> El e" using other_ring(1) [OF inv kx] by blast
    then show "h_next ?h' x = h_next h x \<and> h_prev ?h' x = h_prev h x" using h1(4) [OF kx] by simp
  next
    fix x k
    show "h_list ?h' x = Some k \<longleftrightarrow> x \<in> set ((S(l := xs @ ys)) k)"
      using heap_invD(3) [OF inv, of x k] heap_invD(3) [OF inv, of e k] heap_invD(3) [OF inv, of e l] d h1(5)
      by (auto simp: S)
  next
    fix x
    assume "h_list ?h' x \<noteq> None"
    then show "x < h_free ?h' \<and> h_Value ?h' x \<noteq> None"
      using inv h1 by (auto simp: heap_inv_def split: if_splits)
  qed (use h1 in simp)
  moreover have "list_remove l e h = Some ?h'" using h1(1) by (simp add: list_remove_def)
  ultimately show ?thesis using h1 by auto
qed

lemma list_move_ok:
  assumes inv: "heap_inv h S" and S: "S l = xs @ e # ys" and to: "xs @ ys = us @ vs"
  shows "\<exists>h'. list_move e (Some (after l us)) h = Some h' \<and> heap_inv h' (S(l := us @ e # vs)) \<and>
    h_Value h' = h_Value h \<and> h_free h' = h_free h"
proof -
  obtain h1 where h1: "unlink (El e) h = Some h1" "chain h1 (ring_of l (us @ vs))" "h_next h1 (Root l) \<noteq> None"
    "\<And>k x. k \<noteq> l \<Longrightarrow> x \<in> set (ring_of k (S k)) \<Longrightarrow> h_next h1 x = h_next h x \<and> h_prev h1 x = h_prev h x"
    "h_list h1 = h_list h" "h_Value h1 = h_Value h" "h_len h1 = h_len h" "h_free h1 = h_free h"
    using unlink_ok [OF inv S] to by metis
  have d: "distinct (xs @ e # ys)" using heap_invD(1) [OF inv, of l] by (simp add: S)
  have set_eq: "set xs \<union> set ys = set us \<union> set vs" using arg_cong [OF to, of set] by simp
  have len_eq: "length xs + length ys = length us + length vs" using arg_cong [OF to, of length] by simp
  have "distinct (xs @ ys)" using d by auto
  then have duv: "distinct (us @ vs)" unfolding to .
  moreover have "e \<notin> set us \<union> set vs" using d set_eq by auto
  ultimately have d': "distinct (us @ e # vs)" "distinct (us @ vs)" by auto
  obtain rs w ws where r: "Root l # map El us = rs @ [after l us]" "map El vs @ [Root l] = w # ws"
    using ring_split .
  have ring: "ring_of l (us @ vs) = rs @ after l us # w # ws" "ring_of l (us @ e # vs) = rs @ after l us # El e # w # ws"
    using r by (simp_all add: ring_of_def flip: append_assoc) (metis append.assoc append_Cons append_Nil)+
  have e: "El e \<notin> set (rs @ after l us # w # ws)" using d' by (auto simp: ring_of_def simp flip: ring)
  have nx: "h_next h1 (after l us) = Some w"
    using h1(2) chain_append [of h1 rs "after l us" "w # ws"] by (simp add: ring)
  have la: "link_after (El e) (after l us) h1 = Some (h1\<lparr>h_prev := (h_prev h1)(El e := Some (after l us), w := Some (El e)),
    h_next := (h_next h1)(El e := Some w, after l us := Some (El e))\<rparr>)"
    using e nx by (intro link_after_eq) auto
  let ?h' = "h1\<lparr>h_prev := (h_prev h1)(El e := Some (after l us), w := Some (El e)),
    h_next := (h_next h1)(El e := Some w, after l us := Some (El e))\<rparr>"
  have "chain ?h' (ring_of l (us @ e # vs))"
    unfolding ring by (rule chain_link [OF _ _ e]) (use h1(2) proper_ring [OF d'(2), of l] in \<open>simp_all add: ring\<close>)
  then have ok: "list_ok ?h' l (us @ e # vs)"
    using d' h1 len_eq heap_invD(2) [OF inv, of l] by (auto simp: list_ok_def S)
  have tw: "after l us \<in> set (ring_of l (S l))" "w \<in> set (ring_of l (S l))" "El e \<in> set (ring_of l (S l))"
  proof -
    have "set (ring_of l (us @ vs)) \<subseteq> set (ring_of l (S l))" using set_eq by (auto simp: S ring_of_def)
    moreover have "after l us \<in> set (ring_of l (us @ vs))" "w \<in> set (ring_of l (us @ vs))" by (auto simp: ring)
    ultimately show "after l us \<in> set (ring_of l (S l))" "w \<in> set (ring_of l (S l))" by auto
    show "El e \<in> set (ring_of l (S l))" by (simp add: S ring_of_def)
  qed
  have "heap_inv ?h' (S(l := us @ e # vs))"
  proof (rule heap_inv_change [OF inv _ _ ok])
    fix k x
    assume kx: "k \<noteq> l" "x \<in> set (ring_of k (S k))"
    then show "h_next ?h' x = h_next h x \<and> h_prev ?h' x = h_prev h x"
      using h1(4) [OF kx] other_ring(1) [OF inv kx] tw by fastforce
  next
    fix x k
    show "h_list ?h' x = Some k \<longleftrightarrow> x \<in> set ((S(l := us @ e # vs)) k)"
      using heap_invD(3) [OF inv, of x k] set_eq h1(5) by (auto simp: S)
  next
    fix x
    assume "h_list ?h' x \<noteq> None"
    then show "x < h_free ?h' \<and> h_Value ?h' x \<noteq> None" using inv h1 by (auto simp: heap_inv_def)
  qed (use h1 in simp)
  moreover have "list_move e (Some (after l us)) h = Some ?h'"
    using h1(1) la e by (simp add: list_move_def)
  ultimately show ?thesis using h1 by auto
qed


section \<open>The operations on sequences\<close>

text \<open>The abstract state: the elements of every list, the value of every element and the number of
  elements ever made, which is the name of the next one.\<close>

record 'v seqs =
  sq_lists :: "nat \<Rightarrow> nat list"
  sq_vals :: "nat \<Rightarrow> 'v option"
  sq_next :: nat

definition new_seqs :: "'v seqs" where
  "new_seqs = \<lparr>sq_lists = (\<lambda>_. []), sq_vals = (\<lambda>_. None), sq_next = 0\<rparr>"

definition ins_before :: "nat \<Rightarrow> nat \<Rightarrow> nat list \<Rightarrow> nat list" where
  "ins_before m e xs = takeWhile (\<lambda>x. x \<noteq> m) xs @ e # dropWhile (\<lambda>x. x \<noteq> m) xs"

definition ins_after :: "nat \<Rightarrow> nat \<Rightarrow> nat list \<Rightarrow> nat list" where
  "ins_after m e xs = takeWhile (\<lambda>x. x \<noteq> m) xs @ m # e # tl (dropWhile (\<lambda>x. x \<noteq> m) xs)"

definition sq_alloc :: "nat \<Rightarrow> 'v \<Rightarrow> (nat \<Rightarrow> nat list \<Rightarrow> nat list) \<Rightarrow> 'v seqs \<Rightarrow> 'v seqs" where
  "sq_alloc l v f s = \<lparr>sq_lists = (sq_lists s)(l := f (sq_next s) (sq_lists s l)),
     sq_vals = (sq_vals s)(sq_next s := Some v), sq_next = sq_next s + 1\<rparr>"

datatype 'v list_op =
    PushFront nat 'v | PushBack nat 'v | InsertBefore nat 'v nat | InsertAfter nat 'v nat
  | Remove nat nat | MoveToFront nat nat | MoveToBack nat nat | MoveBefore nat nat nat | MoveAfter nat nat nat

fun seq_step :: "'v list_op \<Rightarrow> 'v seqs \<Rightarrow> 'v seqs" where
  "seq_step (PushFront l v) s = sq_alloc l v (\<lambda>e xs. e # xs) s"
| "seq_step (PushBack l v) s = sq_alloc l v (\<lambda>e xs. xs @ [e]) s"
| "seq_step (InsertBefore l v m) s =
     (if m \<in> set (sq_lists s l) then sq_alloc l v (\<lambda>e. ins_before m e) s else s)"
| "seq_step (InsertAfter l v m) s =
     (if m \<in> set (sq_lists s l) then sq_alloc l v (\<lambda>e. ins_after m e) s else s)"
| "seq_step (Remove l e) s = s\<lparr>sq_lists := (sq_lists s)(l := remove1 e (sq_lists s l))\<rparr>"
| "seq_step (MoveToFront l e) s =
     (if e \<in> set (sq_lists s l) then s\<lparr>sq_lists := (sq_lists s)(l := e # remove1 e (sq_lists s l))\<rparr> else s)"
| "seq_step (MoveToBack l e) s =
     (if e \<in> set (sq_lists s l) then s\<lparr>sq_lists := (sq_lists s)(l := remove1 e (sq_lists s l) @ [e])\<rparr> else s)"
| "seq_step (MoveBefore l e m) s =
     (if e \<in> set (sq_lists s l) \<and> m \<in> set (sq_lists s l) \<and> e \<noteq> m
      then s\<lparr>sq_lists := (sq_lists s)(l := ins_before m e (remove1 e (sq_lists s l)))\<rparr> else s)"
| "seq_step (MoveAfter l e m) s =
     (if e \<in> set (sq_lists s l) \<and> m \<in> set (sq_lists s l) \<and> e \<noteq> m
      then s\<lparr>sq_lists := (sq_lists s)(l := ins_after m e (remove1 e (sq_lists s l)))\<rparr> else s)"

fun heap_step :: "'v list_op \<Rightarrow> 'v heap \<Rightarrow> 'v heap option" where
  "heap_step (PushFront l v) h = map_option snd (list_PushFront l v h)"
| "heap_step (PushBack l v) h = map_option snd (list_PushBack l v h)"
| "heap_step (InsertBefore l v m) h = map_option snd (list_InsertBefore l v m h)"
| "heap_step (InsertAfter l v m) h = map_option snd (list_InsertAfter l v m h)"
| "heap_step (Remove l e) h = map_option snd (list_Remove l e h)"
| "heap_step (MoveToFront l e) h = list_MoveToFront l e h"
| "heap_step (MoveToBack l e) h = list_MoveToBack l e h"
| "heap_step (MoveBefore l e m) h = list_MoveBefore l e m h"
| "heap_step (MoveAfter l e m) h = list_MoveAfter l e m h"

fun heap_run :: "'v list_op list \<Rightarrow> 'v heap \<Rightarrow> 'v heap option" where
  "heap_run [] h = Some h"
| "heap_run (x # xs) h = (case heap_step x h of None \<Rightarrow> None | Some h' \<Rightarrow> heap_run xs h')"

text \<open>The abstraction relation.\<close>

definition represents :: "'v heap \<Rightarrow> 'v seqs \<Rightarrow> bool" where
  "represents h s \<longleftrightarrow> heap_inv h (sq_lists s) \<and> h_Value h = sq_vals s \<and> h_free h = sq_next s"

lemma heap_inv_lazyInit:
  assumes "heap_inv h S"
  shows "heap_inv (list_lazyInit l h) S" "h_next (list_lazyInit l h) (Root l) \<noteq> None"
    "h_Value (list_lazyInit l h) = h_Value h" "h_free (list_lazyInit l h) = h_free h"
proof -
  have "heap_inv (list_Init l h) S" if n: "h_next h (Root l) = None"
  proof -
    have e: "S l = []" using heap_invD(7) [OF assms n] .
    have "heap_inv (list_Init l h) (S(l := []))"
      using assms heap_invD(3) [OF assms] e
      by (intro heap_inv_change [OF assms])
        (auto simp: list_Init_def list_ok_def ring_of_def heap_inv_def split: if_splits)
    then show ?thesis using e by (metis fun_upd_triv)
  qed
  then show "heap_inv (list_lazyInit l h) S" using assms by (simp add: list_lazyInit_def)
qed (auto simp: list_lazyInit_def list_Init_def)

lemma heap_prev:
  assumes inv: "heap_inv h S" and n: "h_next h (Root l) \<noteq> None"
  shows "h_prev h (Root l) = Some (after l (S l))"
    and "S l = xs @ m # ys \<Longrightarrow> h_prev h (El m) = Some (after l xs)"
    and "S l = x # ys \<Longrightarrow> h_next h (Root l) = Some (El x)"
proof -
  note c = heap_invD(6) [OF inv n]
  have "Root l # map El (S l) = butlast (Root l # map El (S l)) @ [after l (S l)]"
    unfolding after_def by (rule append_butlast_last_id [symmetric]) simp
  then have "ring_of l (S l) = butlast (Root l # map El (S l)) @ after l (S l) # [Root l]"
    unfolding ring_of_def by (metis append.assoc append_Cons append_Nil)
  then show "h_prev h (Root l) = Some (after l (S l))"
    using c chain_append [of h "butlast (Root l # map El (S l))" "after l (S l)" "[Root l]"] by simp
  show "S l = x # ys \<Longrightarrow> h_next h (Root l) = Some (El x)" using c by (simp add: ring_of_def)
  assume S: "S l = xs @ m # ys"
  obtain us where us: "Root l # map El xs = us @ [after l xs]" using ring_split by metis
  then have "ring_of l (S l) = us @ after l xs # El m # map El ys @ [Root l]"
    unfolding ring_of_def S by (metis append.assoc append_Cons append_Nil list.simps(9) map_append)
  then show "h_prev h (El m) = Some (after l xs)"
    using c chain_append [of h us "after l xs" "El m # map El ys @ [Root l]"] by simp
qed


section \<open>Every operation refines its sequence operation\<close>

lemma after_simps [simp]: "after l [] = Root l" "after l (xs @ [x]) = El x"
  by (simp_all add: after_def)

lemma after_append: "ys \<noteq> [] \<Longrightarrow> after l (xs @ ys) = El (last ys)"
  by (simp add: after_def last_map)

lemma split_at:
  assumes "m \<in> set zs"
  obtains ys where "zs = takeWhile (\<lambda>x. x \<noteq> m) zs @ m # ys" "dropWhile (\<lambda>x. x \<noteq> m) zs = m # ys"
proof -
  have "dropWhile (\<lambda>x. x \<noteq> m) zs \<noteq> []" using assms by (auto simp: dropWhile_eq_Nil_conv)
  then obtain y ys where y: "dropWhile (\<lambda>x. x \<noteq> m) zs = y # ys" by (cases "dropWhile (\<lambda>x. x \<noteq> m) zs") auto
  then have "y = m" using hd_dropWhile [of "\<lambda>x. x \<noteq> m" zs] by simp
  then show thesis using that y takeWhile_dropWhile_id [of "\<lambda>x. x \<noteq> m" zs] by metis
qed

lemma takeWhile_neq: "m \<notin> set xs \<Longrightarrow> takeWhile (\<lambda>x. x \<noteq> m) (xs @ m # ys) = xs"
  "m \<notin> set xs \<Longrightarrow> dropWhile (\<lambda>x. x \<noteq> m) (xs @ m # ys) = m # ys"
  by (induction xs) auto

lemma first_split_unique:
  "xs @ m # ys = us @ m # vs \<Longrightarrow> m \<notin> set xs \<Longrightarrow> m \<notin> set us \<Longrightarrow> xs = us \<and> ys = vs"
  by (metis takeWhile_neq list.inject)

lemma ins_at [simp]:
  "m \<notin> set xs \<Longrightarrow> ins_before m e (xs @ m # ys) = xs @ e # m # ys"
  "m \<notin> set xs \<Longrightarrow> ins_after m e (xs @ m # ys) = xs @ m # e # ys"
  by (simp_all add: ins_before_def ins_after_def takeWhile_neq)

lemma represents_alloc:
  assumes "represents h s" "sq_lists s l = xs @ ys" "f (sq_next s) (xs @ ys) = xs @ sq_next s # ys"
    "h_next h (Root l) \<noteq> None"
  shows "\<exists>h'. list_insertValue l v (Some (after l xs)) h = Some (sq_next s, h') \<and> represents h' (sq_alloc l v f s)"
  using assms list_insertValue_ok [of h "sq_lists s" l xs ys v] by (auto simp: represents_def sq_alloc_def)

lemma represents_lazyInit: "represents h s \<Longrightarrow> represents (list_lazyInit l h) s"
  using heap_inv_lazyInit [of h "sq_lists s" l] by (simp add: represents_def)

lemma represents_move:
  assumes "represents h s" "sq_lists s l = xs @ e # ys" "xs @ ys = us @ vs"
  shows "\<exists>h'. list_move e (Some (after l us)) h = Some h' \<and>
    represents h' (s\<lparr>sq_lists := (sq_lists s)(l := us @ e # vs)\<rparr>)"
  using assms list_move_ok [of h "sq_lists s" l xs e ys us vs] by (auto simp: represents_def)

lemma represents_list: "represents h s \<Longrightarrow> h_list h e = Some l \<longleftrightarrow> e \<in> set (sq_lists s l)"
  using heap_invD(3) by (auto simp: represents_def)

lemma represents_distinct: "represents h s \<Longrightarrow> distinct (sq_lists s l)"
  using heap_invD(1) by (auto simp: represents_def)

lemma represents_listed: "represents h s \<Longrightarrow> e \<in> set (sq_lists s l) \<Longrightarrow> h_next h (Root l) \<noteq> None"
  using element_listed by (auto simp: represents_def)

lemma represents_prev:
  assumes "represents h s" "h_next h (Root l) \<noteq> None"
  shows "h_prev h (Root l) = Some (after l (sq_lists s l))"
    and "sq_lists s l = xs @ m # ys \<Longrightarrow> h_prev h (El m) = Some (after l xs)"
    and "sq_lists s l = x # ys \<Longrightarrow> h_next h (Root l) = Some (El x)"
  using assms heap_prev [of h "sq_lists s" l] by (auto simp: represents_def)

lemma step_PushFront: "represents h s \<Longrightarrow> \<exists>h'. list_PushFront l v h = Some (sq_next s, h') \<and> represents h' (seq_step (PushFront l v) s)"
  using represents_alloc [of "list_lazyInit l h" s l "[]" "sq_lists s l" "\<lambda>e xs. e # xs" v] represents_lazyInit [of h s l]
    heap_inv_lazyInit(2) [of h "sq_lists s" l]
  by (auto simp: list_PushFront_def represents_def)

lemma step_PushBack: "represents h s \<Longrightarrow> \<exists>h'. list_PushBack l v h = Some (sq_next s, h') \<and> represents h' (seq_step (PushBack l v) s)"
  using represents_alloc [of "list_lazyInit l h" s l "sq_lists s l" "[]" "\<lambda>e xs. xs @ [e]" v] represents_lazyInit [of h s l]
    heap_inv_lazyInit(2) [of h "sq_lists s" l] represents_prev(1) [of "list_lazyInit l h" s l]
  by (auto simp: list_PushBack_def represents_def)

lemma step_Insert:
  assumes r: "represents h s"
  shows "\<exists>r h'. list_InsertBefore l v m h = Some (r, h') \<and> represents h' (seq_step (InsertBefore l v m) s)"
    and "\<exists>r h'. list_InsertAfter l v m h = Some (r, h') \<and> represents h' (seq_step (InsertAfter l v m) s)"
proof -
  have "(\<exists>r h'. list_InsertBefore l v m h = Some (r, h') \<and> represents h' (seq_step (InsertBefore l v m) s)) \<and>
    (\<exists>r h'. list_InsertAfter l v m h = Some (r, h') \<and> represents h' (seq_step (InsertAfter l v m) s))"
  proof (cases "m \<in> set (sq_lists s l)")
    case True
    obtain xs ys where S: "sq_lists s l = xs @ m # ys" "m \<notin> set xs"
      using split_list_first [OF True] by blast
    have n: "h_next h (Root l) \<noteq> None" using represents_listed [OF r True] .
    show ?thesis
      using represents_alloc [OF r S(1), of "\<lambda>e. ins_before m e" v] represents_prev(2) [OF r n S(1)] n S True
        represents_alloc [OF r, of l "xs @ [m]" ys "\<lambda>e. ins_after m e" v] represents_list [OF r, of m l]
      by (auto simp: list_InsertBefore_def list_InsertAfter_def)
  next
    case False
    then show ?thesis
      using r represents_list [OF r, of m l] by (auto simp: list_InsertBefore_def list_InsertAfter_def)
  qed
  then show "\<exists>r h'. list_InsertBefore l v m h = Some (r, h') \<and> represents h' (seq_step (InsertBefore l v m) s)"
    and "\<exists>r h'. list_InsertAfter l v m h = Some (r, h') \<and> represents h' (seq_step (InsertAfter l v m) s)" by auto
qed

lemma step_Remove:
  assumes r: "represents h s"
  shows "\<exists>h'. list_Remove l e h = Some (sq_vals s e, h') \<and> represents h' (seq_step (Remove l e) s)"
proof (cases "e \<in> set (sq_lists s l)")
  case True
  obtain xs ys where S: "sq_lists s l = xs @ e # ys" "e \<notin> set xs" using split_list_first [OF True] by blast
  then have "remove1 e (sq_lists s l) = xs @ ys" by (simp add: remove1_append)
  then show ?thesis
    using r list_remove_ok [of h "sq_lists s" l xs e ys] S represents_list [OF r, of e l] True
    by (auto simp: list_Remove_def represents_def)
next
  case False
  then have "remove1 e (sq_lists s l) = sq_lists s l" by (simp add: remove1_idem)
  then show ?thesis using r False represents_list [OF r, of e l] by (auto simp: list_Remove_def represents_def)
qed

lemma step_MoveToFront:
  assumes r: "represents h s"
  shows "\<exists>h'. list_MoveToFront l e h = Some h' \<and> represents h' (seq_step (MoveToFront l e) s)"
proof (cases "e \<in> set (sq_lists s l)")
  case True
  obtain xs ys where S: "sq_lists s l = xs @ e # ys" "e \<notin> set xs" using split_list_first [OF True] by blast
  then have rm: "remove1 e (sq_lists s l) = xs @ ys" by (simp add: remove1_append)
  note n = represents_listed [OF r True]
  show ?thesis
  proof (cases "h_next h (Root l) = Some (El e)")
    case first: True
    then have "xs = []" using represents_prev(3) [OF r n] S by (cases xs) auto
    then show ?thesis using r S True first rm by (simp add: list_MoveToFront_def represents_def fun_upd_idem)
  next
    case False
    then show ?thesis
      using represents_move [OF r S(1), of "[]" "xs @ ys"] represents_list [OF r, of e l] True rm
      by (auto simp: list_MoveToFront_def)
  qed
next
  case False
  then show ?thesis using r represents_list [OF r, of e l] by (auto simp: list_MoveToFront_def)
qed

lemma step_MoveToBack:
  assumes r: "represents h s"
  shows "\<exists>h'. list_MoveToBack l e h = Some h' \<and> represents h' (seq_step (MoveToBack l e) s)"
proof (cases "e \<in> set (sq_lists s l)")
  case True
  obtain xs ys where S: "sq_lists s l = xs @ e # ys" "e \<notin> set xs" using split_list_first [OF True] by blast
  then have rm: "remove1 e (sq_lists s l) = xs @ ys" by (simp add: remove1_append)
  have e: "e \<notin> set ys" using represents_distinct [OF r, of l] by (simp add: S)
  note n = represents_listed [OF r True]
  note p = represents_prev(1) [OF r n]
  show ?thesis
  proof (cases "ys = []")
    case nil: True
    then have "h_prev h (Root l) = Some (El e)" using p by (simp add: S)
    then show ?thesis using r S True nil rm by (simp add: list_MoveToBack_def represents_def fun_upd_idem)
  next
    case False
    then have "after l (sq_lists s l) = after l (xs @ ys)" "last ys \<in> set ys"
      using after_append [of "e # ys" l xs] after_append [OF False, of l xs] by (simp_all add: S)
    moreover from this have "h_prev h (Root l) \<noteq> Some (El e)" using p e after_append [OF False, of l xs] by auto
    ultimately show ?thesis
      using represents_move [OF r S(1), of "xs @ ys" "[]"] p represents_list [OF r, of e l] True rm
      by (auto simp: list_MoveToBack_def)
  qed
next
  case False
  then show ?thesis using r represents_list [OF r, of e l] by (auto simp: list_MoveToBack_def)
qed


lemma step_MoveBefore:
  assumes r: "represents h s"
  shows "\<exists>h'. list_MoveBefore l e m h = Some h' \<and> represents h' (seq_step (MoveBefore l e m) s)"
proof (cases "e \<in> set (sq_lists s l) \<and> m \<in> set (sq_lists s l) \<and> e \<noteq> m")
  case True
  obtain xs ys where S: "sq_lists s l = xs @ e # ys" "e \<notin> set xs" using split_list_first [of e] True by blast
  obtain ps qs where P: "sq_lists s l = ps @ m # qs" "m \<notin> set ps" using split_list_first [of m] True by blast
  have rm: "remove1 e (sq_lists s l) = xs @ ys" using S by (simp add: remove1_append)
  have "m \<in> set (xs @ ys)" using True S by auto
  then obtain us vs where U: "xs @ ys = us @ m # vs" "m \<notin> set us" using split_list_first by metis
  have d: "distinct (sq_lists s l)" by (rule represents_distinct [OF r])
  have n: "h_next h (Root l) \<noteq> None" using represents_listed [OF r] True by blast
  note p = represents_prev(2) [OF r n P(1)]
  have spec: "seq_step (MoveBefore l e m) s = s\<lparr>sq_lists := (sq_lists s)(l := us @ e # m # vs)\<rparr>"
    using True U by (simp add: rm)
  show ?thesis
  proof (cases "\<exists>ps'. ps = ps' @ [e]")
    case True
    then obtain ps' where ps': "ps = ps' @ [e]" by blast
    then have "xs = ps'" "ys = m # qs" using S P d
      by (auto simp: append_eq_append_conv2 append_eq_Cons_conv Cons_eq_append_conv)
    then have "us = ps'" "vs = qs" using first_split_unique [of us m vs ps' qs] U P ps' by auto
    then have "represents h (seq_step (MoveBefore l e m) s)"
      unfolding spec using r S \<open>xs = ps'\<close> \<open>ys = m # qs\<close> by (simp add: represents_def fun_upd_idem)
    then show ?thesis using p ps' by (auto simp: list_MoveBefore_def list_move_def)
  next
    case False
    then have "after l ps \<noteq> El e" by (cases ps rule: rev_cases) (auto simp: after_def)
    moreover have "us = remove1 e ps"
    proof -
      have "xs @ ys = remove1 e (ps @ m # qs)" using rm P by simp
      also have "\<dots> = remove1 e ps @ (if e \<in> set ps then m # qs else remove1 e (m # qs))"
        by (simp add: remove1_append remove1_idem)
      also have "\<dots> = remove1 e ps @ m # (if e \<in> set ps then qs else remove1 e qs)"
        using \<open>e \<in> set (sq_lists s l) \<and> m \<in> set (sq_lists s l) \<and> e \<noteq> m\<close> by simp
      finally have "us @ m # vs = remove1 e ps @ m # (if e \<in> set ps then qs else remove1 e qs)" using U by simp
      moreover have "m \<notin> set (remove1 e ps)" using P by (auto dest: notin_set_remove1)
      ultimately show ?thesis using U(2) first_split_unique by metis
    qed
    then have "after l us = after l ps"
      using False by (cases ps rule: rev_cases) (auto simp: after_def remove1_append last_map)
    ultimately show ?thesis
      using represents_move [OF r S(1) U(1)] p True spec represents_list [OF r, of e l] represents_list [OF r, of m l]
      by (auto simp: list_MoveBefore_def)
  qed
next
  case False
  then show ?thesis
    using r represents_list [OF r, of e l] represents_list [OF r, of m l] by (auto simp: list_MoveBefore_def)
qed

lemma step_MoveAfter:
  assumes r: "represents h s"
  shows "\<exists>h'. list_MoveAfter l e m h = Some h' \<and> represents h' (seq_step (MoveAfter l e m) s)"
proof (cases "e \<in> set (sq_lists s l) \<and> m \<in> set (sq_lists s l) \<and> e \<noteq> m")
  case True
  obtain xs ys where S: "sq_lists s l = xs @ e # ys" "e \<notin> set xs" using split_list_first [of e] True by blast
  have rm: "remove1 e (sq_lists s l) = xs @ ys" using S by (simp add: remove1_append)
  have "m \<in> set (xs @ ys)" using True S by auto
  then obtain us vs where U: "xs @ ys = us @ m # vs" "m \<notin> set us" using split_list_first by metis
  then have U': "xs @ ys = (us @ [m]) @ vs" by simp
  show ?thesis
    using represents_move [OF r S(1) U'] True U represents_list [OF r, of e l] represents_list [OF r, of m l]
    by (auto simp: list_MoveAfter_def rm)
next
  case False
  then show ?thesis
    using r represents_list [OF r, of e l] represents_list [OF r, of m l] by (auto simp: list_MoveAfter_def)
qed

lemma heap_step_refines:
  assumes r: "represents h s"
  shows "\<exists>h'. heap_step x h = Some h' \<and> represents h' (seq_step x s)"
proof (cases x)
  case (PushFront l v) then show ?thesis using step_PushFront [OF r, of l v] by auto
next
  case (PushBack l v) then show ?thesis using step_PushBack [OF r, of l v] by auto
next
  case (InsertBefore l v m) then show ?thesis using step_Insert(1) [OF r, of l v m] by auto
next
  case (InsertAfter l v m) then show ?thesis using step_Insert(2) [OF r, of l v m] by auto
next
  case (Remove l e) then show ?thesis using step_Remove [OF r, of l e] by auto
next
  case (MoveToFront l e) then show ?thesis using step_MoveToFront [OF r, of l e] by auto
next
  case (MoveToBack l e) then show ?thesis using step_MoveToBack [OF r, of l e] by auto
next
  case (MoveBefore l e m) then show ?thesis using step_MoveBefore [OF r, of l e m] by auto
next
  case (MoveAfter l e m) then show ?thesis using step_MoveAfter [OF r, of l e m] by auto
qed

lemma heap_run_refines:
  "represents h s \<Longrightarrow> \<exists>h'. heap_run xs h = Some h' \<and> represents h' (foldl (\<lambda>s x. seq_step x s) s xs)"
proof (induction xs arbitrary: h s)
  case (Cons x xs)
  obtain h1 where "heap_step x h = Some h1" "represents h1 (seq_step x s)"
    using heap_step_refines [OF Cons.prems] by blast
  then show ?case using Cons.IH [of h1 "seq_step x s"] by auto
qed simp

section \<open>Reading a list\<close>

text \<open>The loop of the package comment: from \<^verbatim>\<open>Front\<close> along \<^verbatim>\<open>Next\<close> until nil; \<open>n\<close> bounds the turns.\<close>

fun walk :: "nat \<Rightarrow> ref option \<Rightarrow> 'v heap \<Rightarrow> nat list" where
  "walk 0 r h = []"
| "walk (Suc n) r h = (case r of Some (El e) \<Rightarrow> e # walk n (elem_Next e h) h | _ \<Rightarrow> [])"

lemma walk_chain:
  assumes "chain h (map El xs @ [Root l])" "\<forall>e \<in> set xs. h_list h e = Some l" "length xs \<le> n"
  shows "walk n (case xs of [] \<Rightarrow> None | x # _ \<Rightarrow> Some (El x)) h = xs"
  using assms
proof (induction xs arbitrary: n)
  case Nil
  then show ?case by (cases n) auto
next
  case (Cons x xs)
  obtain k where n: "n = Suc k" using Cons.prems by (cases n) auto
  have "elem_Next x h = (case xs of [] \<Rightarrow> None | y # _ \<Rightarrow> Some (El y))"
    using Cons.prems by (cases xs) (auto simp: elem_Next_def)
  moreover have "chain h (map El xs @ [Root l])" using Cons.prems by (cases xs) auto
  ultimately show ?case using Cons n by simp
qed

lemma represents_walk:
  assumes r: "represents h s" and n: "length (sq_lists s l) \<le> n"
  shows "walk n (list_Front l h) h = sq_lists s l"
proof -
  have inv: "heap_inv h (sq_lists s)" using r by (simp add: represents_def)
  show ?thesis
  proof (cases "sq_lists s l")
    case Nil
    then show ?thesis using heap_invD(2) [OF inv, of l] by (cases n) (auto simp: list_Front_def)
  next
    case (Cons x xs)
    then have m: "x \<in> set (sq_lists s l)" by simp
    have nx: "h_next h (Root l) \<noteq> None" using represents_listed [OF r m] .
    have "chain h (map El (sq_lists s l) @ [Root l])" "h_next h (Root l) = Some (El x)"
      using heap_invD(6) [OF inv nx] Cons by (auto simp: ring_of_def)
    then show ?thesis
      using walk_chain [of h "sq_lists s l" l n] n represents_list [OF r] heap_invD(2) [OF inv, of l] Cons
      by (simp add: list_Front_def)
  qed
qed



section \<open>The contract a recency list relies on\<close>

text \<open>
  What the LRU cache uses of one list: pushing to the front, moving to the front, removing an
  element, reading the back, the length, and assigning the value of an element. The items are the
  elements in order with their values.
\<close>

locale recency_list =
  fixes push_front :: "'v \<Rightarrow> 'h \<Rightarrow> (nat \<times> 'h) option"
    and move_front :: "nat \<Rightarrow> 'h \<Rightarrow> 'h option"
    and remove :: "nat \<Rightarrow> 'h \<Rightarrow> ('v option \<times> 'h) option"
    and back_of :: "'h \<Rightarrow> ref option"
    and len_of :: "'h \<Rightarrow> int"
    and assign :: "nat \<Rightarrow> 'v \<Rightarrow> 'h \<Rightarrow> 'h"
    and val_of :: "'h \<Rightarrow> nat \<Rightarrow> 'v option"
    and items :: "'h \<Rightarrow> (nat \<times> 'v) list"
    and invar :: "'h \<Rightarrow> bool"
  assumes distinct_items: "invar h \<Longrightarrow> distinct (map fst (items h))"
    and val_items: "invar h \<Longrightarrow> (e, v) \<in> set (items h) \<Longrightarrow> val_of h e = Some v"
    and push: "invar h \<Longrightarrow> \<exists>e h'. push_front v h = Some (e, h') \<and> invar h' \<and> items h' = (e, v) # items h"
    and move: "invar h \<Longrightarrow> (e, v) \<in> set (items h) \<Longrightarrow>
      \<exists>h'. move_front e h = Some h' \<and> invar h' \<and> items h' = (e, v) # filter (\<lambda>(x, _). x \<noteq> e) (items h)"
    and rem: "invar h \<Longrightarrow> (e, v) \<in> set (items h) \<Longrightarrow>
      \<exists>h'. remove e h = Some (Some v, h') \<and> invar h' \<and> val_of h' = val_of h \<and>
        items h' = filter (\<lambda>(x, _). x \<noteq> e) (items h)"
    and back_last: "invar h \<Longrightarrow> items h \<noteq> [] \<Longrightarrow> back_of h = Some (El (fst (last (items h))))"
    and len_items: "invar h \<Longrightarrow> len_of h = int (length (items h))"
    and put: "invar h \<Longrightarrow> (e, w) \<in> set (items h) \<Longrightarrow>
      invar (assign e v h) \<and> items (assign e v h) = map (\<lambda>(x, u). if x = e then (x, v) else (x, u)) (items h)"
begin

text \<open>Removing the back drops the last item.\<close>

lemma rem_back:
  assumes "invar h" "items h \<noteq> []"
  shows "\<exists>h'. remove (fst (last (items h))) h = Some (Some (snd (last (items h))), h') \<and> invar h' \<and>
    val_of h' = val_of h \<and> items h' = butlast (items h)"
proof -
  obtain xs e v where i: "items h = xs @ [(e, v)]" using assms(2) by (metis rev_exhaust surj_pair)
  have "e \<notin> fst ` set xs" using distinct_items [OF assms(1)] by (auto simp: i)
  then have "filter (\<lambda>(x, _). x \<noteq> e) xs = xs" by (force simp: filter_id_conv image_iff)
  then show ?thesis using rem [OF assms(1), of e v] by (simp add: i)
qed

text \<open>Assigning a value and moving to the front replaces the item and brings it to the front.\<close>

lemma put_move:
  assumes "invar h" "(e, w) \<in> set (items h)"
  shows "\<exists>h'. move_front e (assign e v h) = Some h' \<and> invar h' \<and>
    items h' = (e, v) # filter (\<lambda>(x, _). x \<noteq> e) (items h)"
proof -
  note p = put [OF assms]
  have "(e, v) \<in> set (items (assign e v h))" using p assms(2) by force
  moreover have "filter (\<lambda>(x, _). x \<noteq> e) (map (\<lambda>(x, u). if x = e then (x, v) else (x, u)) xs)
      = filter (\<lambda>(x, _). x \<noteq> e) xs" for xs
    by (induction xs) auto
  ultimately show ?thesis using move [of "assign e v h" e v] p by auto
qed

end

text \<open>The heap list 0 as such a list.\<close>

definition heap_elems :: "'v heap \<Rightarrow> nat list" where
  "heap_elems h = walk (nat (list_Len 0 h)) (list_Front 0 h) h"

definition heap_items :: "'v heap \<Rightarrow> (nat \<times> 'v) list" where
  "heap_items h = map (\<lambda>e. (e, the (h_Value h e))) (heap_elems h)"

definition elem_assign :: "nat \<Rightarrow> 'v \<Rightarrow> 'v heap \<Rightarrow> 'v heap" where
  "elem_assign e v h = h\<lparr>h_Value := (h_Value h)(e := Some v)\<rparr>"

definition heap_ok :: "'v heap \<Rightarrow> bool" where
  "heap_ok h \<longleftrightarrow> (\<exists>s. represents h s)"

lemma elem_assign_simps [simp]:
  "h_next (elem_assign e v h) = h_next h" "h_prev (elem_assign e v h) = h_prev h"
  "h_list (elem_assign e v h) = h_list h" "h_len (elem_assign e v h) = h_len h"
  "h_free (elem_assign e v h) = h_free h" "h_Value (elem_assign e v h) = (h_Value h)(e := Some v)"
  "elem_Next x (elem_assign e v h) = elem_Next x h"
  by (simp_all add: elem_assign_def elem_Next_def split: option.splits)

lemma elem_assign_chain [simp]: "chain (elem_assign e v h) rs = chain h rs"
  by (induction h rs rule: chain.induct) auto

lemma elem_assign_walk [simp]: "walk n x (elem_assign e v h) = walk n x h"
  by (induction n arbitrary: x) (auto split: option.splits ref.splits)

lemma heap_inv_assign: "heap_inv h S \<Longrightarrow> heap_inv (elem_assign e v h) S"
  unfolding heap_inv_def list_ok_def elem_assign_simps elem_assign_chain
  by (elim conjE, intro conjI) (assumption, assumption, simp del: not_None_eq)

lemma heap_elems_represents: "represents h s \<Longrightarrow> heap_elems h = sq_lists s 0"
  using represents_walk [of h s 0] heap_invD(2) [of h "sq_lists s" 0]
  by (auto simp: heap_elems_def list_Len_def represents_def)

lemma heap_value: "represents h s \<Longrightarrow> e \<in> set (sq_lists s l) \<Longrightarrow> \<exists>v. h_Value h e = Some v"
  using heap_invD(5) by (fastforce simp: represents_def)

lemma heap_fresh: "represents h s \<Longrightarrow> e \<in> set (sq_lists s l) \<Longrightarrow> e < sq_next s"
  using heap_invD(4) by (force simp: represents_def)

lemma distinct_remove1_filter: "distinct xs \<Longrightarrow> remove1 e xs = filter (\<lambda>x. x \<noteq> e) xs"
  by (induction xs) (auto simp: remove1_idem)

interpretation hl: recency_list "list_PushFront 0" "list_MoveToFront 0" "list_Remove 0" "list_Back 0" "list_Len 0"
  elem_assign h_Value heap_items heap_ok
proof unfold_locales
  fix h :: "'v heap" and e and v :: 'v
  assume "heap_ok h"
  then obtain s where r: "represents h s" by (auto simp: heap_ok_def)
  note el = heap_elems_represents [OF r]
  have d: "distinct (heap_elems h)" using represents_distinct [OF r] by (simp add: el)
  show "distinct (map fst (heap_items h))" using d by (simp add: heap_items_def comp_def)
  show "list_Len 0 h = int (length (heap_items h))"
    using heap_invD(2) [of h "sq_lists s" 0] r by (simp add: heap_items_def el represents_def list_Len_def)
  show "(e, v) \<in> set (heap_items h) \<Longrightarrow> h_Value h e = Some v"
    using heap_value [OF r, of _ 0] by (fastforce simp: heap_items_def el)
  show "\<exists>e h'. list_PushFront 0 v h = Some (e, h') \<and> heap_ok h' \<and> heap_items h' = (e, v) # heap_items h"
  proof -
    obtain h' where h': "list_PushFront 0 v h = Some (sq_next s, h')" "represents h' (seq_step (PushFront 0 v) s)"
      using step_PushFront [OF r] by blast
    have "h_Value h' = (sq_vals s)(sq_next s := Some v)" using h'(2) by (simp add: represents_def sq_alloc_def)
    moreover have "h_Value h = sq_vals s" using r by (simp add: represents_def)
    moreover have "heap_elems h' = sq_next s # heap_elems h"
      using heap_elems_represents [OF h'(2)] by (simp add: el sq_alloc_def)
    ultimately have "heap_items h' = (sq_next s, v) # heap_items h"
      using heap_fresh [OF r, of _ 0] by (auto simp: heap_items_def el)
    then show ?thesis using h' by (auto simp: heap_ok_def)
  qed
  assume i: "(e, v) \<in> set (heap_items h)"
  then have e: "e \<in> set (sq_lists s 0)" by (auto simp: heap_items_def el)
  have f: "map (\<lambda>e. (e, the (h_Value h e))) (remove1 e (heap_elems h)) = filter (\<lambda>(x, _). x \<noteq> e) (heap_items h)"
    using d by (simp add: heap_items_def distinct_remove1_filter filter_map comp_def)
  show "\<exists>h'. list_MoveToFront 0 e h = Some h' \<and> heap_ok h' \<and> heap_items h' = (e, v) # filter (\<lambda>(x, _). x \<noteq> e) (heap_items h)"
  proof -
    obtain h' where h': "list_MoveToFront 0 e h = Some h'" "represents h' (seq_step (MoveToFront 0 e) s)"
      using step_MoveToFront [OF r] by blast
    have "heap_elems h' = e # remove1 e (heap_elems h)" using heap_elems_represents [OF h'(2)] e by (simp add: el)
    moreover have "h_Value h' = h_Value h" using h'(2) r e by (simp add: represents_def)
    ultimately have "heap_items h' = (e, v) # filter (\<lambda>(x, _). x \<noteq> e) (heap_items h)"
      using i f by (auto simp: heap_items_def)
    then show ?thesis using h' by (auto simp: heap_ok_def)
  qed
  show "\<exists>h'. list_Remove 0 e h = Some (Some v, h') \<and> heap_ok h' \<and> h_Value h' = h_Value h \<and>
      heap_items h' = filter (\<lambda>(x, _). x \<noteq> e) (heap_items h)"
  proof -
    obtain h' where h': "list_Remove 0 e h = Some (sq_vals s e, h')" "represents h' (seq_step (Remove 0 e) s)"
      using step_Remove [OF r] by blast
    have "heap_elems h' = remove1 e (heap_elems h)" using heap_elems_represents [OF h'(2)] by (simp add: el)
    moreover have v: "h_Value h' = h_Value h" "h_Value h = sq_vals s" using h'(2) r by (simp_all add: represents_def)
    moreover have "sq_vals s e = Some v" using i heap_value [OF r e] v by (auto simp: heap_items_def)
    ultimately show ?thesis using h' f by (auto simp: heap_items_def heap_ok_def)
  qed
next
  fix h :: "'v heap"
  assume "heap_ok h" and n: "heap_items h \<noteq> []"
  then obtain s where r: "represents h s" by (auto simp: heap_ok_def)
  note el = heap_elems_represents [OF r]
  have ne: "sq_lists s 0 \<noteq> []" using n by (simp add: heap_items_def el)
  then have "h_next h (Root 0) \<noteq> None" using represents_listed [OF r, of "hd (sq_lists s 0)" 0] by simp
  from represents_prev(1) [OF r this] show "list_Back 0 h = Some (El (fst (last (heap_items h))))"
    using ne heap_invD(2) [of h "sq_lists s" 0] r after_append [OF ne, of 0 "[]"]
    by (simp add: list_Back_def heap_items_def el represents_def last_map)
next
  fix h :: "'v heap" and e v w
  assume "heap_ok h" and i: "(e, w) \<in> set (heap_items h)"
  then obtain s where r: "represents h s" by (auto simp: heap_ok_def)
  have "represents (elem_assign e v h) (s\<lparr>sq_vals := (sq_vals s)(e := Some v)\<rparr>)"
    using r heap_inv_assign [of h "sq_lists s" e v] by (simp add: represents_def)
  then have "heap_ok (elem_assign e v h)" by (auto simp: heap_ok_def)
  moreover have "heap_items (elem_assign e v h) = map (\<lambda>(x, u). if x = e then (x, v) else (x, u)) (heap_items h)"
    by (simp add: heap_items_def heap_elems_def list_Len_def list_Front_def)
  ultimately show "heap_ok (elem_assign e v h) \<and>
      heap_items (elem_assign e v h) = map (\<lambda>(x, u). if x = e then (x, v) else (x, u)) (heap_items h)" ..
qed

end
