(* ===== verification/Lru.thy ===== *)
theory Lru
  imports Linked_List
begin

text \<open>
  The LRU cache (\<^verbatim>\<open>pkg/utils/lru/lru.go\<close>) and its locked form (\<^verbatim>\<open>sync.go\<close>) on the linked list of
  \<^verbatim>\<open>Linked_List\<close>: the list of entries, most recent first, and the map from keys to list elements. The
  clock is the argument \<open>now\<close> of an operation (the code reads a coarse cached clock); times are
  unbounded integers. The callbacks \<^verbatim>\<open>onRemove\<close> and \<^verbatim>\<open>onValueUpdate\<close> are the events an operation returns, in
  the order of the calls. The iteration order of the map in \<^verbatim>\<open>ClearExpired\<close> and \<^verbatim>\<open>Range\<close> is an argument.
  \<open>None\<close> is a nil dereference; the refinement shows there is none.
\<close>

section \<open>State and events\<close>

record ('k, 'v) lruEntry =
  le_key :: 'k
  le_data :: 'v
  le_expire :: int

record ('k, 'v) lru =
  lr_list :: "('k, 'v) lruEntry heap"
  lr_lastPopEntry :: "('k, 'v) lruEntry option"
  lr_mapping :: "'k \<Rightarrow> nat option"
  lr_capacity :: int
  lr_timeout :: int

datatype ('k, 'v) lru_event = OnRemove 'k 'v | OnValueUpdate 'v 'v

definition le_Expired :: "int \<Rightarrow> ('k, 'v) lruEntry \<Rightarrow> bool" where
  "le_Expired now e \<longleftrightarrow> le_expire e \<noteq> 0 \<and> now > le_expire e"

text \<open>\<^verbatim>\<open>newLru\<close> with the options \<^verbatim>\<open>WithCapacity\<close> and \<^verbatim>\<open>WithDefaultTimeout\<close>; 0 stands for an option not given.\<close>

definition newLru :: "int \<Rightarrow> int \<Rightarrow> ('k, 'v) lru" where
  "newLru capacity timeout = \<lparr>lr_list = list_Init 0 new_heap, lr_lastPopEntry = None, lr_mapping = (\<lambda>_. None),
     lr_capacity = capacity, lr_timeout = timeout\<rparr>"

section \<open>Operations\<close>

definition WithTimeout :: "int \<Rightarrow> int \<Rightarrow> ('k, 'v) lruEntry \<Rightarrow> ('k, 'v) lruEntry" where
  "WithTimeout now t e = e\<lparr>le_expire := now + t\<rparr>"

text \<open>The entry \<^verbatim>\<open>Add\<close> builds; \<open>opts\<close> are the arguments of the \<^verbatim>\<open>WithTimeout\<close> options.\<close>

definition new_entry :: "int \<Rightarrow> int \<Rightarrow> 'k \<Rightarrow> 'v \<Rightarrow> int list \<Rightarrow> ('k, 'v) lruEntry" where
  "new_entry now timeout key val opts =
     (let e = foldl (\<lambda>e t. WithTimeout now t e) \<lparr>le_key = key, le_data = val, le_expire = 0\<rparr> opts in
      if timeout \<noteq> 0 \<and> le_expire e = 0 then e\<lparr>le_expire := now + timeout\<rparr> else e)"

definition lru_removeElement :: "nat \<Rightarrow> ('k, 'v) lru \<Rightarrow> (('k, 'v) lru \<times> ('k, 'v) lru_event list) option" where
  "lru_removeElement elem l = do {
     en \<leftarrow> h_Value (lr_list l) elem;
     (_, h) \<leftarrow> list_Remove 0 elem (lr_list l);
     en' \<leftarrow> h_Value h elem;
     Some (l\<lparr>lr_lastPopEntry := Some en, lr_list := h, lr_mapping := (lr_mapping l)(le_key en' := None)\<rparr>,
       [OnRemove (le_key en') (le_data en')])
   }"

definition lru_Add :: "int \<Rightarrow> 'k \<Rightarrow> 'v \<Rightarrow> int list \<Rightarrow> ('k, 'v) lru \<Rightarrow> (('k, 'v) lru \<times> ('k, 'v) lru_event list) option" where
  "lru_Add now key val opts l =
     (let entry = new_entry now (lr_timeout l) key val opts in
      case lr_mapping l key of
        Some elem \<Rightarrow> do {
          old \<leftarrow> h_Value (lr_list l) elem;
          h \<leftarrow> list_MoveToFront 0 elem (elem_assign elem entry (lr_list l));
          Some (l\<lparr>lr_list := h\<rparr>, [OnValueUpdate (le_data old) val])
        }
      | None \<Rightarrow> do {
          (elem, h) \<leftarrow> list_PushFront 0 entry (lr_list l);
          let l = l\<lparr>lr_list := h, lr_mapping := (lr_mapping l)(key \<mapsto> elem)\<rparr>;
          if lr_capacity l \<noteq> 0 \<and> list_Len 0 h > lr_capacity l then
            case list_Back 0 h of
              Some (El b) \<Rightarrow> lru_removeElement b l
            | _ \<Rightarrow> None
          else Some (l, [])
        })"

text \<open>The three results of \<^verbatim>\<open>load\<close>: the value when there is one, whether it is expired, and \<^verbatim>\<open>ok\<close>.\<close>

definition lru_load :: "int \<Rightarrow> 'k \<Rightarrow> bool \<Rightarrow> bool \<Rightarrow> ('k, 'v) lru \<Rightarrow>
    (('v option \<times> bool \<times> bool) \<times> ('k, 'v) lru \<times> ('k, 'v) lru_event list) option" where
  "lru_load now key refresh optimistic l =
     (case lr_mapping l key of
        None \<Rightarrow> Some ((None, False, False), l, [])
      | Some node \<Rightarrow> do {
          en \<leftarrow> h_Value (lr_list l) node;
          let expired = le_Expired now en;
          if expired \<and> \<not> optimistic then do {
            (l, ev) \<leftarrow> lru_removeElement node l;
            Some ((None, True, False), l, ev)
          } else do {
            let en = (if refresh \<and> lr_timeout l \<noteq> 0 then en\<lparr>le_expire := now + lr_timeout l\<rparr> else en);
            h \<leftarrow> list_MoveToFront 0 node (elem_assign node en (lr_list l));
            Some ((Some (le_data en), expired, True), l\<lparr>lr_list := h\<rparr>, [])
          }
        })"

definition lru_Load :: "int \<Rightarrow> 'k \<Rightarrow> ('k, 'v) lru \<Rightarrow>
    ('v option \<times> ('k, 'v) lru \<times> ('k, 'v) lru_event list) option" where
  "lru_Load now key l = map_option (\<lambda>((v, _, _), l, ev). (v, l, ev)) (lru_load now key False False l)"

definition lru_LoadOptimistic :: "int \<Rightarrow> 'k \<Rightarrow> ('k, 'v) lru \<Rightarrow>
    (('v option \<times> bool \<times> bool) \<times> ('k, 'v) lru \<times> ('k, 'v) lru_event list) option" where
  "lru_LoadOptimistic now key l = lru_load now key False True l"

definition lru_LoadRefreshExpire :: "int \<Rightarrow> 'k \<Rightarrow> ('k, 'v) lru \<Rightarrow>
    ('v option \<times> ('k, 'v) lru \<times> ('k, 'v) lru_event list) option" where
  "lru_LoadRefreshExpire now key l = map_option (\<lambda>((v, _, _), l, ev). (v, l, ev)) (lru_load now key True False l)"

fun lru_ClearExpired :: "int \<Rightarrow> 'k list \<Rightarrow> ('k, 'v) lru \<Rightarrow> (('k, 'v) lru \<times> ('k, 'v) lru_event list) option" where
  "lru_ClearExpired now [] l = Some (l, [])"
| "lru_ClearExpired now (k # ks) l =
     (case lr_mapping l k of
        None \<Rightarrow> lru_ClearExpired now ks l
      | Some v \<Rightarrow> do {
          en \<leftarrow> h_Value (lr_list l) v;
          if le_Expired now en then do {
            (l, ev) \<leftarrow> lru_removeElement v l;
            (l, evs) \<leftarrow> lru_ClearExpired now ks l;
            Some (l, ev @ evs)
          } else lru_ClearExpired now ks l
        })"

definition lru_Delete :: "'k \<Rightarrow> ('k, 'v) lru \<Rightarrow> (('k, 'v) lru \<times> ('k, 'v) lru_event list) option" where
  "lru_Delete key l =
     (case lr_mapping l key of
        None \<Rightarrow> Some (l, [])
      | Some x \<Rightarrow> lru_removeElement x l)"

definition lru_Len :: "('k, 'v) lru \<Rightarrow> int" where
  "lru_Len l = list_Len 0 (lr_list l)"

text \<open>\<^verbatim>\<open>LoadOrAdd\<close> of the locked cache; \<open>val\<close> is what the function argument returns.\<close>

definition lru_LoadOrAdd :: "int \<Rightarrow> 'k \<Rightarrow> 'v \<Rightarrow> int list \<Rightarrow> ('k, 'v) lru \<Rightarrow>
    (('v \<times> bool) \<times> ('k, 'v) lru \<times> ('k, 'v) lru_event list) option" where
  "lru_LoadOrAdd now key val opts l = do {
     (v, l, ev) \<leftarrow> lru_Load now key l;
     case v of
       Some v \<Rightarrow> Some ((v, True), l, ev)
     | None \<Rightarrow> do {
         (l, ev') \<leftarrow> lru_Add now key val opts l;
         Some ((val, False), l, ev @ ev')
       }
   }"

section \<open>The cache as a list of entries\<close>

definition lru_entries :: "('k, 'v) lru \<Rightarrow> ('k, 'v) lruEntry list" where
  "lru_entries l = map snd (heap_items (lr_list l))"

definition lru_inv :: "('k, 'v) lru \<Rightarrow> bool" where
  "lru_inv l \<longleftrightarrow> heap_ok (lr_list l) \<and> distinct (map le_key (lru_entries l)) \<and>
     (\<forall>k e. lr_mapping l k = Some e \<longleftrightarrow> (\<exists>en. (e, en) \<in> set (heap_items (lr_list l)) \<and> le_key en = k))"

definition entry_of :: "'k \<Rightarrow> ('k, 'v) lruEntry list \<Rightarrow> ('k, 'v) lruEntry option" where
  "entry_of k al = find (\<lambda>en. le_key en = k) al"

definition drop_key :: "'k \<Rightarrow> ('k, 'v) lruEntry list \<Rightarrow> ('k, 'v) lruEntry list" where
  "drop_key k al = filter (\<lambda>en. le_key en \<noteq> k) al"

lemma entry_of_Some:
  "distinct (map le_key al) \<Longrightarrow> entry_of k al = Some en \<longleftrightarrow> en \<in> set al \<and> le_key en = k"
  by (induction al) (auto simp: entry_of_def)

lemma entry_of_None: "entry_of k al = None \<longleftrightarrow> k \<notin> le_key ` set al"
  by (auto simp: entry_of_def find_None_iff)

lemma entry_of_key: "entry_of k al = Some en \<Longrightarrow> le_key en = k \<and> en \<in> set al"
  by (auto simp: entry_of_def find_Some_iff)

text \<open>A key of the map leads to its entry, and no key leads to nothing.\<close>

lemma lru_lookup:
  assumes "lru_inv l"
  shows "lr_mapping l k = None \<longleftrightarrow> entry_of k (lru_entries l) = None"
    and "lr_mapping l k = Some e \<Longrightarrow>
      \<exists>en. (e, en) \<in> set (heap_items (lr_list l)) \<and> le_key en = k \<and> entry_of k (lru_entries l) = Some en \<and>
        h_Value (lr_list l) e = Some en"
proof -
  have d: "distinct (map le_key (lru_entries l))" and h: "heap_ok (lr_list l)"
    and m: "\<And>k e. lr_mapping l k = Some e \<longleftrightarrow> (\<exists>en. (e, en) \<in> set (heap_items (lr_list l)) \<and> le_key en = k)"
    using assms by (auto simp: lru_inv_def)
  show "lr_mapping l k = None \<longleftrightarrow> entry_of k (lru_entries l) = None"
  proof -
    have "(\<exists>e. lr_mapping l k = Some e) \<longleftrightarrow> k \<in> le_key ` set (lru_entries l)"
      unfolding m by (force simp: lru_entries_def image_iff)
    then show ?thesis unfolding entry_of_None by (cases "lr_mapping l k") auto
  qed
  assume "lr_mapping l k = Some e"
  then obtain en where en: "(e, en) \<in> set (heap_items (lr_list l))" "le_key en = k" using m by blast
  then have "entry_of k (lru_entries l) = Some en" using entry_of_Some [OF d] by (force simp: lru_entries_def)
  then show "\<exists>en. (e, en) \<in> set (heap_items (lr_list l)) \<and> le_key en = k \<and> entry_of k (lru_entries l) = Some en \<and>
        h_Value (lr_list l) e = Some en"
    using en hl.val_items [OF h en(1)] by blast
qed

text \<open>Taking an element out of the items takes its key out of the entries.\<close>

lemma items_drop_key:
  assumes "lru_inv l" "(e, en) \<in> set (heap_items (lr_list l))"
  shows "map snd (filter (\<lambda>(x, _). x \<noteq> e) (heap_items (lr_list l))) = drop_key (le_key en) (lru_entries l)"
proof -
  have d: "distinct (map fst (heap_items (lr_list l)))" using assms hl.distinct_items by (auto simp: lru_inv_def)
  have k: "distinct (map le_key (lru_entries l))" using assms by (simp add: lru_inv_def)
  have "x \<noteq> e \<longleftrightarrow> le_key en' \<noteq> le_key en" if "(x, en') \<in> set (heap_items (lr_list l))" for x en'
  proof -
    have "x = e \<Longrightarrow> en' = en" using d that assms(2) by (auto dest: eq_key_imp_eq_value)
    moreover have "le_key en' = le_key en \<Longrightarrow> x = e"
    proof -
      assume "le_key en' = le_key en"
      then have "lr_mapping l (le_key en) = Some x" "lr_mapping l (le_key en) = Some e"
        using assms that by (auto simp: lru_inv_def)
      then show "x = e" by simp
    qed
    ultimately show ?thesis by auto
  qed
  then have "filter (\<lambda>(x, _). x \<noteq> e) (heap_items (lr_list l)) = filter (\<lambda>(x, en'). le_key en' \<noteq> le_key en) (heap_items (lr_list l))"
    by (intro filter_cong) auto
  then show ?thesis by (simp add: drop_key_def lru_entries_def filter_map comp_def case_prod_unfold)
qed


section \<open>What every operation does to the entries\<close>

lemma lru_invD:
  assumes "lru_inv l"
  shows "heap_ok (lr_list l)" "distinct (map le_key (lru_entries l))" "distinct (map fst (heap_items (lr_list l)))"
    "lr_mapping l k = Some e \<longleftrightarrow> (\<exists>en. (e, en) \<in> set (heap_items (lr_list l)) \<and> le_key en = k)"
  using assms hl.distinct_items by (auto simp: lru_inv_def)

lemma same_element:
  "lru_inv l \<Longrightarrow> (e, en) \<in> set (heap_items (lr_list l)) \<Longrightarrow> (e, en') \<in> set (heap_items (lr_list l)) \<Longrightarrow> en = en'"
  using lru_invD(3) by (auto dest: eq_key_imp_eq_value)

lemma key_element:
  assumes "lru_inv l" "(e, en) \<in> set (heap_items (lr_list l))" "(x, en') \<in> set (heap_items (lr_list l))"
  shows "le_key en' = le_key en \<longleftrightarrow> x = e"
proof
  assume "le_key en' = le_key en"
  then have "lr_mapping l (le_key en) = Some x" using lru_invD(4) [OF assms(1)] assms(3) by blast
  moreover have "lr_mapping l (le_key en) = Some e" using lru_invD(4) [OF assms(1)] assms(2) by blast
  ultimately show "x = e" by simp
next
  assume "x = e"
  then show "le_key en' = le_key en" using same_element [OF assms(1,2)] assms(3) by blast
qed

lemma distinct_drop_key: "distinct (map le_key al) \<Longrightarrow> distinct (map le_key (drop_key k al))"
  by (simp add: drop_key_def distinct_map_filter)

lemma set_drop_key: "set (drop_key k al) = {en \<in> set al. le_key en \<noteq> k}"
  by (auto simp: drop_key_def)

lemma removeElement_ok:
  assumes i: "lru_inv l" and e: "(e, en) \<in> set (heap_items (lr_list l))"
  shows "\<exists>l'. lru_removeElement e l = Some (l', [OnRemove (le_key en) (le_data en)]) \<and> lru_inv l' \<and>
    lru_entries l' = drop_key (le_key en) (lru_entries l) \<and> lr_lastPopEntry l' = Some en \<and>
    lr_capacity l' = lr_capacity l \<and> lr_timeout l' = lr_timeout l"
proof -
  obtain h where h: "list_Remove 0 e (lr_list l) = Some (Some en, h)" "heap_ok h" "h_Value h = h_Value (lr_list l)"
    "heap_items h = filter (\<lambda>(x, _). x \<noteq> e) (heap_items (lr_list l))"
    using hl.rem [OF lru_invD(1) [OF i] e] by blast
  let ?l = "l\<lparr>lr_lastPopEntry := Some en, lr_list := h, lr_mapping := (lr_mapping l)(le_key en := None)\<rparr>"
  have ents: "lru_entries ?l = drop_key (le_key en) (lru_entries l)"
    using items_drop_key [OF i e] by (simp add: lru_entries_def h)
  have "lr_mapping ?l k = Some x \<longleftrightarrow> (\<exists>en'. (x, en') \<in> set (heap_items h) \<and> le_key en' = k)" for k x
  proof -
    have "lr_mapping ?l k = Some x \<longleftrightarrow> k \<noteq> le_key en \<and> lr_mapping l k = Some x" by simp
    also have "\<dots> \<longleftrightarrow> (\<exists>en'. (x, en') \<in> set (heap_items h) \<and> le_key en' = k)"
      unfolding lru_invD(4) [OF i] h(4) using key_element [OF i e] by auto
    finally show ?thesis .
  qed
  then have "lru_inv ?l"
    using h(2) ents distinct_drop_key [OF lru_invD(2) [OF i]] by (simp add: lru_inv_def)
  moreover have "lru_removeElement e l = Some (?l, [OnRemove (le_key en) (le_data en)])"
    using hl.val_items [OF lru_invD(1) [OF i] e] h by (simp add: lru_removeElement_def)
  ultimately show ?thesis using ents by auto
qed

text \<open>Replacing the entry of an element by one with the same key and moving it to the front.\<close>

lemma touch_ok:
  assumes i: "lru_inv l" and e: "(e, en) \<in> set (heap_items (lr_list l))" and k: "le_key en' = le_key en"
  shows "\<exists>h. list_MoveToFront 0 e (elem_assign e en' (lr_list l)) = Some h \<and> lru_inv (l\<lparr>lr_list := h\<rparr>) \<and>
    lru_entries (l\<lparr>lr_list := h\<rparr>) = en' # drop_key (le_key en) (lru_entries l)"
proof -
  obtain h where h: "list_MoveToFront 0 e (elem_assign e en' (lr_list l)) = Some h" "heap_ok h"
    "heap_items h = (e, en') # filter (\<lambda>(x, _). x \<noteq> e) (heap_items (lr_list l))"
    using hl.put_move [OF lru_invD(1) [OF i] e] by blast
  have ents: "lru_entries (l\<lparr>lr_list := h\<rparr>) = en' # drop_key (le_key en) (lru_entries l)"
    using items_drop_key [OF i e] by (simp add: lru_entries_def h)
  have "lr_mapping l k = Some x \<longleftrightarrow> (\<exists>en'. (x, en') \<in> set (heap_items h) \<and> le_key en' = k)" for k x
  proof (cases "x = e")
    case True
    have "lr_mapping l k = Some e \<longleftrightarrow> le_key en = k"
      unfolding lru_invD(4) [OF i] using same_element [OF i e] e by blast
    then show ?thesis using True \<open>le_key en' = le_key en\<close> by (auto simp: h(3))
  next
    case False
    then show ?thesis unfolding lru_invD(4) [OF i] h(3) by auto
  qed
  moreover have "distinct (map le_key (lru_entries (l\<lparr>lr_list := h\<rparr>)))"
    using distinct_drop_key [OF lru_invD(2) [OF i], of "le_key en"] k by (auto simp: ents set_drop_key)
  ultimately show ?thesis using h ents by (auto simp: lru_inv_def)
qed

text \<open>Pushing a new key.\<close>

lemma push_ok:
  assumes i: "lru_inv l" and k: "lr_mapping l (le_key en) = None"
  shows "\<exists>e h. list_PushFront 0 en (lr_list l) = Some (e, h) \<and>
    lru_inv (l\<lparr>lr_list := h, lr_mapping := (lr_mapping l)(le_key en \<mapsto> e)\<rparr>) \<and>
    heap_items h = (e, en) # heap_items (lr_list l)"
proof -
  obtain e h where h: "list_PushFront 0 en (lr_list l) = Some (e, h)" "heap_ok h"
    "heap_items h = (e, en) # heap_items (lr_list l)"
    using hl.push [OF lru_invD(1) [OF i]] by blast
  let ?l = "l\<lparr>lr_list := h, lr_mapping := (lr_mapping l)(le_key en \<mapsto> e)\<rparr>"
  have new: "le_key en \<notin> le_key ` set (lru_entries l)"
    using lru_lookup(1) [OF i, of "le_key en"] k by (simp add: entry_of_None)
  have fresh: "(e, en') \<notin> set (heap_items (lr_list l))" for en'
    using hl.distinct_items [OF h(2)] by (force simp: h)
  have "lr_mapping ?l k = Some x \<longleftrightarrow> (\<exists>en'. (x, en') \<in> set (heap_items h) \<and> le_key en' = k)" for k x
  proof (cases "k = le_key en")
    case True
    then show ?thesis using new by (auto simp: h(3) lru_entries_def image_iff)
  next
    case False
    then have "lr_mapping ?l k = Some x \<longleftrightarrow> lr_mapping l k = Some x" by simp
    then show ?thesis unfolding lru_invD(4) [OF i] h(3) using False by auto
  qed
  moreover have "distinct (map le_key (lru_entries ?l))"
    using lru_invD(2) [OF i] new by (auto simp: lru_entries_def h)
  ultimately show ?thesis using h by (auto simp: lru_inv_def)
qed

lemma drop_last_key:
  "distinct (map le_key al) \<Longrightarrow> al \<noteq> [] \<Longrightarrow> drop_key (le_key (last al)) al = butlast al"
proof (induction al rule: rev_induct)
  case (snoc x xs)
  have "filter (\<lambda>en. le_key en \<noteq> le_key x) xs = xs" using snoc.prems by (intro filter_True) (auto simp: image_iff)
  then show ?case by (simp add: drop_key_def)
qed simp

section \<open>The specification\<close>

text \<open>The state is the list of entries, most recent first, and the entry removed last.\<close>

type_synonym ('k, 'v) lru_state = "('k, 'v) lruEntry list \<times> ('k, 'v) lruEntry option"

definition spec_remove :: "('k, 'v) lruEntry \<Rightarrow> ('k, 'v) lru_state \<Rightarrow> ('k, 'v) lru_state \<times> ('k, 'v) lru_event list" where
  "spec_remove en s = ((drop_key (le_key en) (fst s), Some en), [OnRemove (le_key en) (le_data en)])"

definition spec_add :: "int \<Rightarrow> ('k, 'v) lruEntry \<Rightarrow> ('k, 'v) lru_state \<Rightarrow> ('k, 'v) lru_state \<times> ('k, 'v) lru_event list" where
  "spec_add cap en s =
     (case entry_of (le_key en) (fst s) of
        Some old \<Rightarrow> ((en # drop_key (le_key en) (fst s), snd s), [OnValueUpdate (le_data old) (le_data en)])
      | None \<Rightarrow>
          let al = en # fst s in
          if cap \<noteq> 0 \<and> int (length al) > cap
          then ((butlast al, Some (last al)), [OnRemove (le_key (last al)) (le_data (last al))])
          else ((al, snd s), []))"

definition spec_load :: "int \<Rightarrow> int \<Rightarrow> 'k \<Rightarrow> bool \<Rightarrow> bool \<Rightarrow> ('k, 'v) lru_state \<Rightarrow>
    ('v option \<times> bool \<times> bool) \<times> ('k, 'v) lru_state \<times> ('k, 'v) lru_event list" where
  "spec_load now timeout k refresh optimistic s =
     (case entry_of k (fst s) of
        None \<Rightarrow> ((None, False, False), s, [])
      | Some en \<Rightarrow>
          if le_Expired now en \<and> \<not> optimistic then ((None, True, False), spec_remove en s)
          else
            let en' = (if refresh \<and> timeout \<noteq> 0 then en\<lparr>le_expire := now + timeout\<rparr> else en) in
            ((Some (le_data en), le_Expired now en, True), (en' # drop_key k (fst s), snd s), []))"

definition spec_delete :: "'k \<Rightarrow> ('k, 'v) lru_state \<Rightarrow> ('k, 'v) lru_state \<times> ('k, 'v) lru_event list" where
  "spec_delete k s = (case entry_of k (fst s) of None \<Rightarrow> (s, []) | Some en \<Rightarrow> spec_remove en s)"

fun spec_clear :: "int \<Rightarrow> 'k list \<Rightarrow> ('k, 'v) lru_state \<Rightarrow> ('k, 'v) lru_state \<times> ('k, 'v) lru_event list" where
  "spec_clear now [] s = (s, [])"
| "spec_clear now (k # ks) s =
     (case entry_of k (fst s) of
        None \<Rightarrow> spec_clear now ks s
      | Some en \<Rightarrow>
          if le_Expired now en then
            (case spec_remove en s of (s1, ev) \<Rightarrow> case spec_clear now ks s1 of (s2, evs) \<Rightarrow> (s2, ev @ evs))
          else spec_clear now ks s)"

definition lru_state :: "('k, 'v) lru \<Rightarrow> ('k, 'v) lru_state" where
  "lru_state l = (lru_entries l, lr_lastPopEntry l)"

definition refines :: "('k, 'v) lru \<Rightarrow> ('k, 'v) lru_state \<Rightarrow> ('k, 'v) lru \<Rightarrow> bool" where
  "refines l s l' \<longleftrightarrow> lru_inv l' \<and> lru_state l' = s \<and> lr_capacity l' = lr_capacity l \<and> lr_timeout l' = lr_timeout l"

lemma fold_timeouts [simp]:
  "le_key (foldl (\<lambda>e t. WithTimeout now t e) e opts) = le_key e"
  "le_data (foldl (\<lambda>e t. WithTimeout now t e) e opts) = le_data e"
  by (induction opts arbitrary: e) (simp_all add: WithTimeout_def)

lemma new_entry_simps [simp]: "le_key (new_entry now t k v opts) = k" "le_data (new_entry now t k v opts) = v"
  by (simp_all add: new_entry_def Let_def)

lemma lru_removeElement_refines:
  "lru_inv l \<Longrightarrow> (e, en) \<in> set (heap_items (lr_list l)) \<Longrightarrow>
    \<exists>l'. lru_removeElement e l = Some (l', snd (spec_remove en (lru_state l))) \<and>
      refines l (fst (spec_remove en (lru_state l))) l'"
  using removeElement_ok [of l e en] by (auto simp: spec_remove_def refines_def lru_state_def)

lemma lru_Delete_refines:
  assumes i: "lru_inv l"
  shows "\<exists>l'. lru_Delete k l = Some (l', snd (spec_delete k (lru_state l))) \<and> refines l (fst (spec_delete k (lru_state l))) l'"
proof (cases "lr_mapping l k")
  case None
  then have "entry_of k (lru_entries l) = None" using lru_lookup(1) [OF i] by simp
  then show ?thesis using i None by (simp add: lru_Delete_def spec_delete_def lru_state_def refines_def)
next
  case (Some e)
  then obtain en where "(e, en) \<in> set (heap_items (lr_list l))" "entry_of k (lru_entries l) = Some en"
    using lru_lookup(2) [OF i] by blast
  then show ?thesis
    using lru_removeElement_refines [OF i] Some by (simp add: lru_Delete_def spec_delete_def lru_state_def)
qed


lemma lru_Add_refines:
  assumes i: "lru_inv l"
  shows "\<exists>l'. lru_Add now k v opts l = Some (l', snd (spec_add (lr_capacity l) (new_entry now (lr_timeout l) k v opts) (lru_state l))) \<and>
    refines l (fst (spec_add (lr_capacity l) (new_entry now (lr_timeout l) k v opts) (lru_state l))) l'"
proof (cases "lr_mapping l k")
  case (Some e)
  let ?en = "new_entry now (lr_timeout l) k v opts"
  obtain en where en: "(e, en) \<in> set (heap_items (lr_list l))" "le_key en = k" "entry_of k (lru_entries l) = Some en"
    "h_Value (lr_list l) e = Some en"
    using lru_lookup(2) [OF i Some] by blast
  then show ?thesis
    using touch_ok [OF i en(1), of ?en] Some
    by (auto simp: lru_Add_def spec_add_def lru_state_def refines_def Let_def)
next
  case None
  let ?en = "new_entry now (lr_timeout l) k v opts"
  have e: "entry_of k (lru_entries l) = None" using None lru_lookup(1) [OF i] by simp
  obtain e h where h: "list_PushFront 0 ?en (lr_list l) = Some (e, h)"
    "lru_inv (l\<lparr>lr_list := h, lr_mapping := (lr_mapping l)(k \<mapsto> e)\<rparr>)" (is "lru_inv ?l")
    "heap_items h = (e, ?en) # heap_items (lr_list l)"
    using push_ok [OF i, of ?en] None by auto
  have ents: "lru_entries ?l = ?en # lru_entries l" by (simp add: lru_entries_def h)
  have len: "list_Len 0 h = int (length (lru_entries ?l))"
    using hl.len_items lru_invD(1) [OF h(2)] by (simp add: lru_entries_def)
  show ?thesis
  proof (cases "lr_capacity l \<noteq> 0 \<and> list_Len 0 h > lr_capacity l")
    case True
    obtain b bn where b: "last (heap_items h) = (b, bn)" by fastforce
    have mem: "(b, bn) \<in> set (heap_items (lr_list ?l))" using last_in_set [of "heap_items h"] b h(3) by simp
    have bn: "bn = last (lru_entries ?l)" using b h(3) by (auto simp: lru_entries_def last_map split: if_splits)
    have bk: "list_Back 0 h = Some (El b)"
      using hl.back_last [of h] lru_invD(1) [OF h(2)] h(3) b by simp
    obtain l' where l': "lru_removeElement b ?l = Some (l', [OnRemove (le_key bn) (le_data bn)])" "lru_inv l'"
      "lru_entries l' = drop_key (le_key bn) (lru_entries ?l)" "lr_lastPopEntry l' = Some bn"
      "lr_capacity l' = lr_capacity l" "lr_timeout l' = lr_timeout l"
      using removeElement_ok [OF h(2) mem] by auto
    have "lru_entries l' = butlast (lru_entries ?l)"
      unfolding l'(3) bn using lru_invD(2) [OF h(2)] by (intro drop_last_key) (simp_all add: ents)
    then show ?thesis
      using True l' h(1) bk None e len bn
      by (auto simp: lru_Add_def spec_add_def lru_state_def refines_def Let_def ents)
  next
    case False
    then show ?thesis
      using h None e len
      by (auto simp: lru_Add_def spec_add_def lru_state_def refines_def Let_def ents)
  qed
qed

lemma lru_load_refines:
  assumes i: "lru_inv l"
  shows "\<exists>l'. lru_load now k refresh optimistic l =
      Some (fst (spec_load now (lr_timeout l) k refresh optimistic (lru_state l)), l',
            snd (snd (spec_load now (lr_timeout l) k refresh optimistic (lru_state l)))) \<and>
    refines l (fst (snd (spec_load now (lr_timeout l) k refresh optimistic (lru_state l)))) l'"
proof (cases "lr_mapping l k")
  case None
  then have "entry_of k (lru_entries l) = None" using lru_lookup(1) [OF i] by simp
  then show ?thesis using i None by (simp add: lru_load_def spec_load_def lru_state_def refines_def)
next
  case (Some e)
  obtain en where en: "(e, en) \<in> set (heap_items (lr_list l))" "le_key en = k" "entry_of k (lru_entries l) = Some en"
    "h_Value (lr_list l) e = Some en"
    using lru_lookup(2) [OF i Some] by blast
  show ?thesis
  proof (cases "le_Expired now en \<and> \<not> optimistic")
    case True
    then show ?thesis
      using lru_removeElement_refines [OF i en(1)] Some en
      by (auto simp: lru_load_def spec_load_def lru_state_def)
  next
    case False
    let ?en = "if refresh \<and> lr_timeout l \<noteq> 0 then en\<lparr>le_expire := now + lr_timeout l\<rparr> else en"
    have "le_key ?en = le_key en" by simp
    from touch_ok [OF i en(1) this] obtain h where
      "list_MoveToFront 0 e (elem_assign e ?en (lr_list l)) = Some h" "lru_inv (l\<lparr>lr_list := h\<rparr>)"
      "lru_entries (l\<lparr>lr_list := h\<rparr>) = ?en # drop_key k (lru_entries l)"
      using en(2) by auto
    then show ?thesis
      using False Some en by (auto simp: lru_load_def spec_load_def lru_state_def refines_def Let_def)
  qed
qed

lemma refines_trans: "refines l s l' \<Longrightarrow> refines l' s' l'' \<Longrightarrow> refines l s' l''"
  by (simp add: refines_def)

lemma lru_ClearExpired_refines:
  "lru_inv l \<Longrightarrow> \<exists>l'. lru_ClearExpired now ks l = Some (l', snd (spec_clear now ks (lru_state l))) \<and>
    refines l (fst (spec_clear now ks (lru_state l))) l'"
proof (induction ks arbitrary: l)
  case Nil
  then show ?case by (simp add: refines_def)
next
  case (Cons k ks)
  show ?case
  proof (cases "lr_mapping l k")
    case None
    then have "entry_of k (lru_entries l) = None" using lru_lookup(1) [OF Cons.prems] by simp
    then show ?thesis using Cons None by (simp add: lru_state_def)
  next
    case (Some e)
    obtain en where en: "(e, en) \<in> set (heap_items (lr_list l))" "entry_of k (lru_entries l) = Some en"
      "h_Value (lr_list l) e = Some en"
      using lru_lookup(2) [OF Cons.prems Some] by blast
    show ?thesis
    proof (cases "le_Expired now en")
      case False
      then show ?thesis using Cons Some en by (simp add: lru_state_def)
    next
      case True
      obtain l1 where l1: "lru_removeElement e l = Some (l1, snd (spec_remove en (lru_state l)))"
        "refines l (fst (spec_remove en (lru_state l))) l1"
        using lru_removeElement_refines [OF Cons.prems en(1)] by blast
      then have "lru_inv l1" "lru_state l1 = fst (spec_remove en (lru_state l))" by (simp_all add: refines_def)
      with Cons.IH [of l1] obtain l2 where
        "lru_ClearExpired now ks l1 = Some (l2, snd (spec_clear now ks (fst (spec_remove en (lru_state l)))))"
        "refines l1 (fst (spec_clear now ks (fst (spec_remove en (lru_state l))))) l2" by auto
      then show ?thesis
        using True Some en l1 refines_trans [OF l1(2)]
        by (auto simp: lru_state_def split: prod.splits)
    qed
  qed
qed

section \<open>Histories\<close>

datatype ('k, 'v) lru_op =
    AddOp int 'k 'v "int list" | LoadOp int 'k bool bool | DeleteOp 'k | ClearExpiredOp int "'k list"

text \<open>The output of a call: what a load returns, and the callbacks made.\<close>

type_synonym ('k, 'v) lru_out = "('v option \<times> bool \<times> bool) option \<times> ('k, 'v) lru_event list"

fun lru_step :: "('k, 'v) lru_op \<Rightarrow> ('k, 'v) lru \<Rightarrow> (('k, 'v) lru_out \<times> ('k, 'v) lru) option" where
  "lru_step (AddOp now k v opts) l = map_option (\<lambda>(l, ev). ((None, ev), l)) (lru_Add now k v opts l)"
| "lru_step (LoadOp now k r o1) l = map_option (\<lambda>(x, l, ev). ((Some x, ev), l)) (lru_load now k r o1 l)"
| "lru_step (DeleteOp k) l = map_option (\<lambda>(l, ev). ((None, ev), l)) (lru_Delete k l)"
| "lru_step (ClearExpiredOp now ks) l = map_option (\<lambda>(l, ev). ((None, ev), l)) (lru_ClearExpired now ks l)"

fun spec_step :: "int \<Rightarrow> int \<Rightarrow> ('k, 'v) lru_op \<Rightarrow> ('k, 'v) lru_state \<Rightarrow> ('k, 'v) lru_out \<times> ('k, 'v) lru_state" where
  "spec_step cap t (AddOp now k v opts) s = (case spec_add cap (new_entry now t k v opts) s of (s', ev) \<Rightarrow> ((None, ev), s'))"
| "spec_step cap t (LoadOp now k r o1) s = (case spec_load now t k r o1 s of (x, s', ev) \<Rightarrow> ((Some x, ev), s'))"
| "spec_step cap t (DeleteOp k) s = (case spec_delete k s of (s', ev) \<Rightarrow> ((None, ev), s'))"
| "spec_step cap t (ClearExpiredOp now ks) s = (case spec_clear now ks s of (s', ev) \<Rightarrow> ((None, ev), s'))"

fun lru_run :: "('k, 'v) lru_op list \<Rightarrow> ('k, 'v) lru \<Rightarrow> (('k, 'v) lru_out list \<times> ('k, 'v) lru) option" where
  "lru_run [] l = Some ([], l)"
| "lru_run (x # xs) l = do {
     (y, l) \<leftarrow> lru_step x l;
     (ys, l) \<leftarrow> lru_run xs l;
     Some (y # ys, l)
   }"

fun spec_run :: "int \<Rightarrow> int \<Rightarrow> ('k, 'v) lru_op list \<Rightarrow> ('k, 'v) lru_state \<Rightarrow> ('k, 'v) lru_out list \<times> ('k, 'v) lru_state" where
  "spec_run cap t [] s = ([], s)"
| "spec_run cap t (x # xs) s =
     (case spec_step cap t x s of (y, s1) \<Rightarrow> case spec_run cap t xs s1 of (ys, s2) \<Rightarrow> (y # ys, s2))"

lemma lru_step_refines:
  assumes "lru_inv l"
  shows "\<exists>l'. lru_step x l = Some (fst (spec_step (lr_capacity l) (lr_timeout l) x (lru_state l)), l') \<and>
    refines l (snd (spec_step (lr_capacity l) (lr_timeout l) x (lru_state l))) l'"
proof (cases x)
  case (AddOp now k v opts)
  then show ?thesis using lru_Add_refines [OF assms, of now k v opts] by (auto split: prod.splits)
next
  case (LoadOp now k r o1)
  then show ?thesis using lru_load_refines [OF assms, of now k r o1] by (auto split: prod.splits)
next
  case (DeleteOp k)
  then show ?thesis using lru_Delete_refines [OF assms, of k] by (auto split: prod.splits)
next
  case (ClearExpiredOp now ks)
  then show ?thesis using lru_ClearExpired_refines [OF assms, of now ks] by (auto split: prod.splits)
qed

lemma lru_run_refines:
  "lru_inv l \<Longrightarrow> \<exists>l'. lru_run xs l = Some (fst (spec_run (lr_capacity l) (lr_timeout l) xs (lru_state l)), l') \<and>
    refines l (snd (spec_run (lr_capacity l) (lr_timeout l) xs (lru_state l))) l'"
proof (induction xs arbitrary: l)
  case Nil
  then show ?case by (simp add: refines_def)
next
  case (Cons x xs)
  obtain l1 where l1: "lru_step x l = Some (fst (spec_step (lr_capacity l) (lr_timeout l) x (lru_state l)), l1)"
    "refines l (snd (spec_step (lr_capacity l) (lr_timeout l) x (lru_state l))) l1"
    using lru_step_refines [OF Cons.prems] by blast
  then have "lru_inv l1" "lru_state l1 = snd (spec_step (lr_capacity l) (lr_timeout l) x (lru_state l))"
    "lr_capacity l1 = lr_capacity l" "lr_timeout l1 = lr_timeout l" by (simp_all add: refines_def)
  with Cons.IH [of l1] show ?case
    using l1 refines_trans [OF l1(2)] by (auto split: prod.splits)
qed

lemma heap_ok_init: "heap_ok (list_Init 0 new_heap)" "heap_items (list_Init 0 new_heap) = []"
proof -
  have "list_Init 0 new_heap = list_lazyInit 0 new_heap" by (simp add: list_lazyInit_def new_heap_def)
  moreover have "represents new_heap new_seqs"
    by (simp add: represents_def new_seqs_def) (simp add: new_heap_def)
  ultimately have r: "represents (list_Init 0 new_heap) new_seqs" using represents_lazyInit by metis
  then show "heap_ok (list_Init 0 new_heap)" by (auto simp: heap_ok_def)
  show "heap_items (list_Init 0 new_heap) = []"
    using heap_elems_represents [OF r] by (simp add: heap_items_def new_seqs_def)
qed

lemma lru_inv_new: "lru_inv (newLru cap t)" "lru_state (newLru cap t) = ([], None)"
  by (simp_all add: lru_inv_def newLru_def lru_entries_def lru_state_def heap_ok_init)

lemma lru_entries_new [simp]: "lru_entries (newLru cap t) = []"
  by (rule prod.inject [THEN iffD1, THEN conjunct1, OF lru_inv_new(2) [unfolded lru_state_def]])

lemma newLru_simps [simp]: "lr_capacity (newLru cap t) = cap" "lr_timeout (newLru cap t) = t"
  by (simp_all add: newLru_def)

lemma lru_new_run:
  "\<exists>l. lru_run ops (newLru cap t) = Some (fst (spec_run cap t ops ([], None)), l) \<and>
     refines (newLru cap t) (snd (spec_run cap t ops ([], None))) l"
  using lru_run_refines [OF lru_inv_new(1) [of cap t], of ops] by (simp add: lru_inv_new(2))

text \<open>C15: Any history of Add, load, Delete and ClearExpired calls on a new cache runs without a nil
  dereference and returns the values, expiry flags and callbacks of the specification over a list of
  entries ordered by recency, for every capacity, timeout and clock reading.\<close>

theorem lru_refines_recency_list:
  "\<exists>l. lru_run ops (newLru cap t) = Some (fst (spec_run cap t ops ([], None)), l) \<and>
     lru_state l = snd (spec_run cap t ops ([], None))"
  using lru_new_run [of ops cap t] by (auto simp: refines_def)

text \<open>The number of entries never exceeds a positive capacity.\<close>

lemma length_drop_key: "length (drop_key k al) \<le> length al"
  by (simp add: drop_key_def)

lemma length_drop_present: "entry_of k al = Some en \<Longrightarrow> length (drop_key k al) < length al"
  using entry_of_key [of k al en] length_filter_less [of en al "\<lambda>en. le_key en \<noteq> k"] by (auto simp: drop_key_def)

lemma spec_clear_length: "length (fst (fst (spec_clear now ks s))) \<le> length (fst s)"
proof (induction now ks s rule: spec_clear.induct)
  case (2 now k ks s)
  then show ?case
    using length_drop_key by (fastforce simp: spec_remove_def split: option.splits prod.splits intro: order_trans)
qed simp

lemma spec_step_length:
  assumes "cap > 0" "int (length (fst s)) \<le> cap"
  shows "int (length (fst (snd (spec_step cap t x s)))) \<le> cap"
proof -
  have drop: "int (length (drop_key k (fst s))) \<le> cap" for k
    using length_drop_key [of k "fst s"] assms(2) by linarith
  have add: "entry_of k (fst s) = Some en \<Longrightarrow> int (length (drop_key k (fst s))) + 1 \<le> cap" for k en
    using length_drop_present [of k "fst s" en] assms(2) by linarith
  show ?thesis
  proof (cases x)
    case (AddOp now k v opts)
    then show ?thesis
      using assms add [of k] by (auto simp: spec_add_def Let_def case_prod_unfold split: option.splits)
  next
    case (LoadOp now k r o1)
    then show ?thesis
      using assms drop add [of k] by (auto simp: spec_load_def spec_remove_def Let_def case_prod_unfold split: option.splits)
  next
    case (DeleteOp k)
    then show ?thesis
      using assms drop by (auto simp: spec_delete_def spec_remove_def case_prod_unfold split: option.splits)
  next
    case (ClearExpiredOp now ks)
    then show ?thesis
      using assms spec_clear_length [of now ks s] by (auto simp: case_prod_unfold)
  qed
qed

lemma spec_run_length:
  "cap > 0 \<Longrightarrow> int (length (fst s)) \<le> cap \<Longrightarrow> int (length (fst (snd (spec_run cap t ops s)))) \<le> cap"
proof (induction ops arbitrary: s)
  case (Cons x xs)
  have "int (length (fst (snd (spec_run cap t xs (snd (spec_step cap t x s)))))) \<le> cap"
    using Cons.IH [OF Cons.prems(1) spec_step_length [OF Cons.prems]] .
  then show ?case by (simp add: case_prod_unfold)
qed simp

text \<open>A cache of positive capacity never holds more entries than its capacity, whatever the history.\<close>

theorem lru_capacity_bound:
  assumes "0 < cap"
  shows "\<exists>out l. lru_run ops (newLru cap t) = Some (out, l) \<and> lru_Len l \<le> cap"
proof -
  obtain l where l: "lru_run ops (newLru cap t) = Some (fst (spec_run cap t ops ([], None)), l)"
    "refines (newLru cap t) (snd (spec_run cap t ops ([], None))) l"
    using lru_new_run by blast
  have "lru_Len l = int (length (lru_entries l))"
    using l(2) hl.len_items lru_invD(1) by (auto simp: lru_Len_def refines_def lru_entries_def)
  also have "\<dots> = int (length (fst (snd (spec_run cap t ops ([], None)))))"
    using l(2) unfolding refines_def lru_state_def by (metis fst_conv)
  finally show ?thesis using l(1) spec_run_length [of cap "([], None)" t ops] assms by auto
qed

theorem lru_capacity_bound_witness:
  "\<exists>out l. lru_run [AddOp 1 ''a'' (1 :: nat) [], AddOp 2 ''b'' 2 [], AddOp 3 ''c'' 3 []] (newLru 2 0) = Some (out, l) \<and> lru_Len l \<le> 2"
  by (rule lru_capacity_bound) simp

text \<open>A value just added is found again until it expires, also in a full cache: the eviction an Add
  makes never hits the entry it adds.\<close>

theorem lru_load_after_add:
  assumes "0 \<le> cap" and "lru_run ops (newLru cap t) = Some (out, l)"
  shows "\<exists>l1 ev l2. lru_Add now k v opts l = Some (l1, ev) \<and>
    lru_LoadOptimistic now' k l1 = Some ((Some v, le_Expired now' (new_entry now t k v opts), True), l2, [])"
proof -
  have "refines (newLru cap t) (lru_state l) l"
    using lru_new_run [of ops cap t] assms(2) by (auto simp: refines_def)
  then have i: "lru_inv l" "lr_capacity l = cap" "lr_timeout l = t" by (simp_all add: refines_def)
  let ?en = "new_entry now t k v opts"
  obtain l1 ev where l1: "lru_Add now k v opts l = Some (l1, ev)" "refines l (fst (spec_add cap ?en (lru_state l))) l1"
    using lru_Add_refines [OF i(1), of now k v opts] i by auto
  have "\<exists>al. lru_entries l1 = ?en # al"
    using l1(2) assms(1) by (auto simp: refines_def lru_state_def spec_add_def Let_def split: option.splits if_splits)
  then have e: "entry_of k (lru_entries l1) = Some ?en" by (auto simp: entry_of_def)
  have "lru_inv l1" using l1(2) by (simp add: refines_def)
  from lru_load_refines [OF this, of now' k False True]
  have "\<exists>l2. lru_LoadOptimistic now' k l1 = Some ((Some v, le_Expired now' ?en, True), l2, [])"
    using e by (auto simp: lru_LoadOptimistic_def spec_load_def lru_state_def Let_def)
  then show ?thesis using l1(1) by blast
qed

theorem lru_load_after_add_witness:
  "\<exists>l out l1 ev l2. lru_run [] (newLru 1 10) = Some (out, l) \<and> lru_Add 5 ''k'' (7 :: nat) [] l = Some (l1, ev) \<and>
    lru_LoadOptimistic 6 ''k'' l1 = Some ((Some 7, le_Expired 6 (new_entry 5 10 ''k'' (7 :: nat) []), True), l2, [])"
  using lru_load_after_add [of 1 "[]" 10 "[]" "newLru 1 10" 5 "''k''" "7 :: nat" "[]" 6] by auto

end
