(* ===== verification/Reverse_Lru.thy ===== *)
theory Reverse_Lru
  imports Lru
begin

text \<open>
  The cache that can also be read by value (\<^verbatim>\<open>pkg/utils/lru/reverse.go\<close>): an LRU cache and the map from
  values back to keys, kept in step by the two callbacks. The callbacks touch the reverse map only, so
  they are replayed on it in the order the cache made them. The mutex makes every method one step.
\<close>

section \<open>State and callbacks\<close>

record ('k, 'v) reverse_lru =
  rv_lru :: "('k, 'v) lru"
  rv_reverseMap :: "'v \<Rightarrow> 'k option"

definition NewSyncReverseLru :: "int \<Rightarrow> int \<Rightarrow> ('k, 'v) reverse_lru" where
  "NewSyncReverseLru capacity timeout = \<lparr>rv_lru = newLru capacity timeout, rv_reverseMap = (\<lambda>_. None)\<rparr>"

text \<open>The closures \<^verbatim>\<open>onRemove\<close> and \<^verbatim>\<open>onValueUpdate\<close> that \<^verbatim>\<open>NewSyncReverseLru\<close> installs.\<close>

fun rv_callback :: "('k, 'v) lru_event \<Rightarrow> ('v \<Rightarrow> 'k option) \<Rightarrow> ('v \<Rightarrow> 'k option)" where
  "rv_callback (OnRemove k v) m = m(v := None)"
| "rv_callback (OnValueUpdate old new) m =
     (if old = new then m
      else case m old of
          None \<Rightarrow> m
        | Some k \<Rightarrow> (m(old := None))(new \<mapsto> k))"

definition rv_callbacks :: "('k, 'v) lru_event list \<Rightarrow> ('v \<Rightarrow> 'k option) \<Rightarrow> ('v \<Rightarrow> 'k option)" where
  "rv_callbacks ev m = fold rv_callback ev m"

section \<open>Operations\<close>

definition rv_Delete :: "'k \<Rightarrow> ('k, 'v) reverse_lru \<Rightarrow> ('k, 'v) reverse_lru option" where
  "rv_Delete key l = do {
     (c, ev) \<leftarrow> lru_Delete key (rv_lru l);
     Some \<lparr>rv_lru = c, rv_reverseMap = rv_callbacks ev (rv_reverseMap l)\<rparr>
   }"

definition rv_Add :: "int \<Rightarrow> 'k \<Rightarrow> 'v \<Rightarrow> int list \<Rightarrow> ('k, 'v) reverse_lru \<Rightarrow> ('k, 'v) reverse_lru option" where
  "rv_Add now key val opts l = do {
     l \<leftarrow> (case rv_reverseMap l val of Some k \<Rightarrow> rv_Delete k l | None \<Rightarrow> Some l);
     (c, ev) \<leftarrow> lru_Add now key val opts (rv_lru l);
     Some \<lparr>rv_lru = c, rv_reverseMap = (rv_callbacks ev (rv_reverseMap l))(val \<mapsto> key)\<rparr>
   }"

definition rv_LoadRefreshExpire :: "int \<Rightarrow> 'k \<Rightarrow> ('k, 'v) reverse_lru \<Rightarrow> ('v option \<times> ('k, 'v) reverse_lru) option" where
  "rv_LoadRefreshExpire now key l = do {
     (v, c, ev) \<leftarrow> lru_LoadRefreshExpire now key (rv_lru l);
     Some (v, \<lparr>rv_lru = c, rv_reverseMap = rv_callbacks ev (rv_reverseMap l)\<rparr>)
   }"

definition rv_Load :: "int \<Rightarrow> 'k \<Rightarrow> ('k, 'v) reverse_lru \<Rightarrow> ('v option \<times> ('k, 'v) reverse_lru) option" where
  "rv_Load now key l = do {
     (v, c, ev) \<leftarrow> lru_Load now key (rv_lru l);
     Some (v, \<lparr>rv_lru = c, rv_reverseMap = rv_callbacks ev (rv_reverseMap l)\<rparr>)
   }"

definition rv_LoadOptimistic :: "int \<Rightarrow> 'k \<Rightarrow> ('k, 'v) reverse_lru \<Rightarrow> (('v option \<times> bool \<times> bool) \<times> ('k, 'v) reverse_lru) option" where
  "rv_LoadOptimistic now key l = do {
     (r, c, ev) \<leftarrow> lru_LoadOptimistic now key (rv_lru l);
     Some (r, \<lparr>rv_lru = c, rv_reverseMap = rv_callbacks ev (rv_reverseMap l)\<rparr>)
   }"

text \<open>The calls of the ranger, for an enumeration of the keys.\<close>

definition rv_Range :: "'k list \<Rightarrow> ('k, 'v) reverse_lru \<Rightarrow> ('k \<times> 'v) list" where
  "rv_Range ks l =
     concat (map (\<lambda>k. case lr_mapping (rv_lru l) k of
         None \<Rightarrow> []
       | Some e \<Rightarrow> (case h_Value (lr_list (rv_lru l)) e of None \<Rightarrow> [] | Some en \<Rightarrow> [(k, le_data en)])) ks)"

definition rv_ReverseLoad :: "int \<Rightarrow> 'v \<Rightarrow> ('k, 'v) reverse_lru \<Rightarrow> ('k option \<times> bool \<times> ('k, 'v) reverse_lru) option" where
  "rv_ReverseLoad now v l =
     (case rv_reverseMap l v of
        None \<Rightarrow> Some (None, False, l)
      | Some node \<Rightarrow> do {
          (r, l) \<leftarrow> rv_Load now node l;
          Some (Some node, r \<noteq> None, l)
        })"

definition rv_ReverseLoadRefreshExpire :: "int \<Rightarrow> 'v \<Rightarrow> ('k, 'v) reverse_lru \<Rightarrow> ('k option \<times> bool \<times> ('k, 'v) reverse_lru) option" where
  "rv_ReverseLoadRefreshExpire now v l =
     (case rv_reverseMap l v of
        None \<Rightarrow> Some (None, False, l)
      | Some node \<Rightarrow> do {
          (_, l) \<leftarrow> rv_LoadRefreshExpire now node l;
          Some (Some node, True, l)
        })"

definition rv_ValueExist :: "int \<Rightarrow> 'v \<Rightarrow> ('k, 'v) reverse_lru \<Rightarrow> (bool \<times> ('k, 'v) reverse_lru) option" where
  "rv_ValueExist now v l =
     (case rv_reverseMap l v of
        None \<Rightarrow> Some (False, l)
      | Some node \<Rightarrow> do {
          (r, l) \<leftarrow> rv_Load now node l;
          Some (r \<noteq> None, l)
        })"

definition rv_LastPopValue :: "('k, 'v) reverse_lru \<Rightarrow> 'v option" where
  "rv_LastPopValue l = map_option le_data (lr_lastPopEntry (rv_lru l))"

definition rv_ClearExpired :: "int \<Rightarrow> 'k list \<Rightarrow> ('k, 'v) reverse_lru \<Rightarrow> ('k, 'v) reverse_lru option" where
  "rv_ClearExpired now ks l = do {
     (c, ev) \<leftarrow> lru_ClearExpired now ks (rv_lru l);
     Some \<lparr>rv_lru = c, rv_reverseMap = rv_callbacks ev (rv_reverseMap l)\<rparr>
   }"

definition rv_Len :: "('k, 'v) reverse_lru \<Rightarrow> int" where
  "rv_Len l = lru_Len (rv_lru l)"

section \<open>The reverse map is the inverse of the cache\<close>

definition inverse_of :: "('v \<Rightarrow> 'k option) \<Rightarrow> ('k, 'v) lruEntry list \<Rightarrow> bool" where
  "inverse_of m al \<longleftrightarrow> (\<forall>v k. m v = Some k \<longleftrightarrow> (\<exists>en \<in> set al. le_key en = k \<and> le_data en = v))"

definition rv_inv :: "('k, 'v) reverse_lru \<Rightarrow> bool" where
  "rv_inv l \<longleftrightarrow> lru_inv (rv_lru l) \<and> 0 \<le> lr_capacity (rv_lru l) \<and> inverse_of (rv_reverseMap l) (lru_entries (rv_lru l))"

text \<open>Two entries with the same value are the same entry.\<close>

lemma inverse_unique:
  assumes "inverse_of m al" "distinct (map le_key al)" "en \<in> set al" "en' \<in> set al" "le_data en = le_data en'"
  shows "en = en'"
proof -
  have "m (le_data en) = Some (le_key en)" "m (le_data en) = Some (le_key en')"
    using assms unfolding inverse_of_def by metis+
  then have "le_key en = le_key en'" by simp
  then show ?thesis using assms(2-4) by (metis distinct_map inj_on_def)
qed

lemma inverse_remove:
  assumes "inverse_of m al" "distinct (map le_key al)" "en \<in> set al"
  shows "inverse_of (m(le_data en := None)) (drop_key (le_key en) al)"
proof -
  have "(\<exists>en' \<in> set (drop_key (le_key en) al). le_key en' = k \<and> le_data en' = v) \<longleftrightarrow>
      v \<noteq> le_data en \<and> (\<exists>en' \<in> set al. le_key en' = k \<and> le_data en' = v)" for v k
  proof -
    have "le_key en' \<noteq> le_key en \<longleftrightarrow> le_data en' \<noteq> le_data en" if "en' \<in> set al" for en'
      using inverse_unique [OF assms(1,2) that assms(3)] assms(2,3) that by (metis distinct_map inj_on_def)
    then show ?thesis by (auto simp: set_drop_key)
  qed
  then show ?thesis using assms(1) by (simp add: inverse_of_def)
qed

lemma inverse_same:
  "inverse_of m al \<Longrightarrow> (\<And>k v. (\<exists>en \<in> set al'. le_key en = k \<and> le_data en = v) = (\<exists>en \<in> set al. le_key en = k \<and> le_data en = v)) \<Longrightarrow>
   inverse_of m al'"
  by (simp add: inverse_of_def)


lemma inverse_spec_remove:
  assumes "inverse_of m (fst s)" "distinct (map le_key (fst s))" "en \<in> set (fst s)"
  shows "inverse_of (rv_callbacks (snd (spec_remove en s)) m) (fst (fst (spec_remove en s)))"
  using inverse_remove [OF assms] by (simp add: spec_remove_def rv_callbacks_def)

lemma inverse_spec_delete:
  assumes "inverse_of m (fst s)" "distinct (map le_key (fst s))"
  shows "inverse_of (rv_callbacks (snd (spec_delete k s)) m) (fst (fst (spec_delete k s)))"
  using inverse_spec_remove [OF assms] assms entry_of_key [of k "fst s"]
  by (auto simp: spec_delete_def rv_callbacks_def split: option.splits)

lemma set_drop_key_unique:
  assumes "distinct (map le_key al)" "en \<in> set al"
  shows "set (drop_key (le_key en) al) = set al - {en}"
proof -
  have "en' = en" if "en' \<in> set al" "le_key en' = le_key en" for en'
    using assms that by (metis distinct_map inj_on_def)
  then show ?thesis by (auto simp: set_drop_key)
qed

lemma bex_touch:
  assumes "en \<in> A" "le_key en' = le_key en" "le_data en' = le_data en"
  shows "(\<exists>e \<in> insert en' (A - {en}). le_key e = k \<and> le_data e = v) = (\<exists>e \<in> A. le_key e = k \<and> le_data e = v)"
proof -
  define B where "B = A - {en}"
  have "A = insert en B" using assms(1) by (auto simp: B_def)
  then show ?thesis unfolding B_def [symmetric] by (simp add: assms(2,3))
qed

lemma inverse_spec_load:
  assumes "inverse_of m (fst s)" "distinct (map le_key (fst s))"
  shows "inverse_of (rv_callbacks (snd (snd (spec_load now t k r o1 s))) m) (fst (fst (snd (spec_load now t k r o1 s))))"
proof (cases "entry_of k (fst s)")
  case None
  then show ?thesis using assms by (simp add: spec_load_def rv_callbacks_def)
next
  case (Some en)
  then have en: "en \<in> set (fst s)" "le_key en = k" using entry_of_key [OF Some] by auto
  show ?thesis
  proof (cases "le_Expired now en \<and> \<not> o1")
    case True
    then show ?thesis using inverse_spec_remove [OF assms en(1)] Some by (simp add: spec_load_def)
  next
    case False
    let ?en = "if r \<and> t \<noteq> 0 then en\<lparr>le_expire := now + t\<rparr> else en"
    have "set (drop_key k (fst s)) = set (fst s) - {en}" using set_drop_key_unique [OF assms(2) en(1)] en(2) by simp
    then have "inverse_of m (?en # drop_key k (fst s))"
      by (intro inverse_same [OF assms(1)]) (simp only: list.set(2), rule bex_touch [OF en(1)], simp_all)
    moreover have "spec_load now t k r o1 s = ((Some (le_data en), le_Expired now en, True), (?en # drop_key k (fst s), snd s), [])"
      using False Some by (auto simp: spec_load_def Let_def)
    ultimately show ?thesis by (simp add: rv_callbacks_def)
  qed
qed

lemma inverse_spec_clear:
  "inverse_of m (fst s) \<Longrightarrow> distinct (map le_key (fst s)) \<Longrightarrow>
   inverse_of (rv_callbacks (snd (spec_clear now ks s)) m) (fst (fst (spec_clear now ks s)))"
proof (induction ks arbitrary: m s)
  case Nil
  then show ?case by (simp add: rv_callbacks_def)
next
  case (Cons k ks)
  show ?case
  proof (cases "entry_of k (fst s)")
    case None
    then show ?thesis using Cons by simp
  next
    case (Some en)
    then have en: "en \<in> set (fst s)" using entry_of_key [OF Some] by auto
    show ?thesis
    proof (cases "le_Expired now en")
      case True
      have "distinct (map le_key (fst (fst (spec_remove en s))))"
        using distinct_drop_key [OF Cons.prems(2)] by (simp add: spec_remove_def)
      from Cons.IH [OF inverse_spec_remove [OF Cons.prems en] this]
      show ?thesis using True Some by (simp add: rv_callbacks_def case_prod_unfold)
    next
      case False
      then show ?thesis using Cons Some by simp
    qed
  qed
qed

text \<open>The update callback moves the value of a key.\<close>

lemma inverse_update:
  assumes inv: "inverse_of m al" and d: "distinct (map le_key al)" and old: "old \<in> set al" and k: "le_key en = le_key old"
    and free: "m (le_data en) = None"
  shows "inverse_of ((rv_callbacks [OnValueUpdate (le_data old) (le_data en)] m)(le_data en \<mapsto> le_key en)) (en # drop_key (le_key en) al)"
proof -
  have m_old: "m (le_data old) = Some (le_key old)" using inv old unfolding inverse_of_def by blast
  have ne: "le_data old \<noteq> le_data en" using m_old free by auto
  have rest: "inverse_of (m(le_data old := None)) (drop_key (le_key en) al)"
    using inverse_remove [OF inv d old] by (simp add: k)
  have not_in: "le_data en' \<noteq> le_data en" if "en' \<in> set al" for en'
    using inv free that unfolding inverse_of_def by (metis option.distinct(1))
  have "(\<exists>en' \<in> set (en # drop_key (le_key en) al). le_key en' = k' \<and> le_data en' = v) \<longleftrightarrow>
      ((m(le_data old := None))(le_data en \<mapsto> le_key en)) v = Some k'" for v k'
    using rest not_in by (cases "v = le_data en") (auto simp: inverse_of_def set_drop_key)
  then show ?thesis using m_old ne by (simp add: inverse_of_def rv_callbacks_def k)
qed

text \<open>Adding a key that is not in the cache, possibly evicting the oldest entry.\<close>

lemma inverse_push:
  assumes inv: "inverse_of m al" and new: "le_key en \<notin> le_key ` set al" and free: "m (le_data en) = None"
  shows "inverse_of (m(le_data en \<mapsto> le_key en)) (en # al)"
proof -
  have not_in: "le_data en' \<noteq> le_data en" if "en' \<in> set al" for en'
    using inv free that unfolding inverse_of_def by (metis option.distinct(1))
  then show ?thesis using inv by (auto simp: inverse_of_def)
qed

lemma inverse_spec_add:
  assumes inv: "inverse_of m (fst s)" and d: "distinct (map le_key (fst s))" and free: "m (le_data en) = None" and cap: "0 \<le> cap"
  shows "inverse_of ((rv_callbacks (snd (spec_add cap en s)) m)(le_data en \<mapsto> le_key en)) (fst (fst (spec_add cap en s)))"
proof (cases "entry_of (le_key en) (fst s)")
  case (Some old)
  then have "old \<in> set (fst s)" "le_key old = le_key en" using entry_of_key [OF Some] by auto
  then show ?thesis using inverse_update [OF inv d _ _ free, of old] Some by (simp add: spec_add_def)
next
  case None
  then have new: "le_key en \<notin> le_key ` set (fst s)" by (simp add: entry_of_None)
  note p = inverse_push [OF inv new free]
  show ?thesis
  proof (cases "cap \<noteq> 0 \<and> int (length (en # fst s)) > cap")
    case True
    then have ne: "fst s \<noteq> []" using cap by auto
    let ?b = "last (fst s)"
    have d': "distinct (map le_key (en # fst s))" using d new by simp
    have b: "?b \<in> set (en # fst s)" "?b \<in> set (fst s)" using ne by simp_all
    have "le_data ?b \<noteq> le_data en" using inv free b(2) unfolding inverse_of_def by (metis option.distinct(1))
    then have "(m(le_data ?b := None))(le_data en \<mapsto> le_key en) = (m(le_data en \<mapsto> le_key en))(le_data ?b := None)"
      by (simp add: fun_upd_twist)
    moreover have "drop_key (le_key ?b) (en # fst s) = butlast (en # fst s)"
      using drop_last_key [OF d'] ne by simp
    ultimately show ?thesis
      using inverse_remove [OF p d' b(1)] True None ne by (simp add: spec_add_def rv_callbacks_def)
  next
    case False
    then show ?thesis using p None by (auto simp: spec_add_def rv_callbacks_def Let_def)
  qed
qed


section \<open>Every operation keeps the inverse\<close>

lemma rv_invD:
  assumes "rv_inv l"
  shows "lru_inv (rv_lru l)" "inverse_of (rv_reverseMap l) (fst (lru_state (rv_lru l)))"
    "distinct (map le_key (fst (lru_state (rv_lru l))))" "0 \<le> lr_capacity (rv_lru l)"
  using assms lru_invD(2) by (auto simp: rv_inv_def lru_state_def)

lemma rv_invI:
  "refines c s c' \<Longrightarrow> 0 \<le> lr_capacity c \<Longrightarrow> inverse_of m (fst s) \<Longrightarrow> rv_inv \<lparr>rv_lru = c', rv_reverseMap = m\<rparr>"
  by (auto simp: rv_inv_def refines_def lru_state_def)

lemma rv_Delete_ok:
  assumes "rv_inv l"
  shows "\<exists>l'. rv_Delete k l = Some l' \<and> rv_inv l' \<and> lr_timeout (rv_lru l') = lr_timeout (rv_lru l) \<and>
    lru_state (rv_lru l') = fst (spec_delete k (lru_state (rv_lru l))) \<and>
    rv_reverseMap l' = rv_callbacks (snd (spec_delete k (lru_state (rv_lru l)))) (rv_reverseMap l)"
proof -
  note i = rv_invD [OF assms]
  obtain c where c: "lru_Delete k (rv_lru l) = Some (c, snd (spec_delete k (lru_state (rv_lru l))))"
    "refines (rv_lru l) (fst (spec_delete k (lru_state (rv_lru l)))) c"
    using lru_Delete_refines [OF i(1)] by blast
  then show ?thesis
    using rv_invI [OF c(2) i(4) inverse_spec_delete [OF i(2,3)]] by (auto simp: rv_Delete_def refines_def)
qed

lemma rv_load_ok:
  assumes "rv_inv l"
  shows "\<exists>c. lru_load now k r o1 (rv_lru l) = Some (fst (spec_load now (lr_timeout (rv_lru l)) k r o1 (lru_state (rv_lru l))), c,
      snd (snd (spec_load now (lr_timeout (rv_lru l)) k r o1 (lru_state (rv_lru l))))) \<and>
    rv_inv \<lparr>rv_lru = c, rv_reverseMap = rv_callbacks (snd (snd (spec_load now (lr_timeout (rv_lru l)) k r o1 (lru_state (rv_lru l))))) (rv_reverseMap l)\<rparr> \<and>
    refines (rv_lru l) (fst (snd (spec_load now (lr_timeout (rv_lru l)) k r o1 (lru_state (rv_lru l))))) c"
proof -
  note i = rv_invD [OF assms]
  obtain c where c: "lru_load now k r o1 (rv_lru l) = Some (fst (spec_load now (lr_timeout (rv_lru l)) k r o1 (lru_state (rv_lru l))), c,
      snd (snd (spec_load now (lr_timeout (rv_lru l)) k r o1 (lru_state (rv_lru l)))))"
    "refines (rv_lru l) (fst (snd (spec_load now (lr_timeout (rv_lru l)) k r o1 (lru_state (rv_lru l))))) c"
    using lru_load_refines [OF i(1)] by blast
  then show ?thesis using rv_invI [OF c(2) i(4) inverse_spec_load [OF i(2,3)]] by blast
qed

lemma rv_ClearExpired_ok:
  assumes "rv_inv l"
  shows "\<exists>l'. rv_ClearExpired now ks l = Some l' \<and> rv_inv l'"
proof -
  note i = rv_invD [OF assms]
  obtain c where c: "lru_ClearExpired now ks (rv_lru l) = Some (c, snd (spec_clear now ks (lru_state (rv_lru l))))"
    "refines (rv_lru l) (fst (spec_clear now ks (lru_state (rv_lru l)))) c"
    using lru_ClearExpired_refines [OF i(1)] by blast
  then show ?thesis
    using rv_invI [OF c(2) i(4) inverse_spec_clear [OF i(2,3)]] by (auto simp: rv_ClearExpired_def)
qed

text \<open>Before the new value is added, the entry that holds it is gone.\<close>

lemma rv_Add_ok:
  assumes "rv_inv l"
  shows "\<exists>l' al. rv_Add now k v opts l = Some l' \<and> rv_inv l' \<and> rv_reverseMap l' v = Some k \<and>
    lru_entries (rv_lru l') = new_entry now (lr_timeout (rv_lru l)) k v opts # al \<and>
    lr_timeout (rv_lru l') = lr_timeout (rv_lru l)"
proof -
  obtain l1 where l1: "(case rv_reverseMap l v of Some k \<Rightarrow> rv_Delete k l | None \<Rightarrow> Some l) = Some l1" "rv_inv l1"
    "rv_reverseMap l1 v = None" "lr_timeout (rv_lru l1) = lr_timeout (rv_lru l)"
  proof (cases "rv_reverseMap l v")
    case None
    then show thesis using that assms by simp
  next
    case (Some k0)
    note i = rv_invD [OF assms]
    obtain l1 where l1: "rv_Delete k0 l = Some l1" "rv_inv l1" "lr_timeout (rv_lru l1) = lr_timeout (rv_lru l)"
      "rv_reverseMap l1 = rv_callbacks (snd (spec_delete k0 (lru_state (rv_lru l)))) (rv_reverseMap l)"
      using rv_Delete_ok [OF assms] by blast
    obtain en where "en \<in> set (fst (lru_state (rv_lru l)))" "le_key en = k0" "le_data en = v"
      using i(2) Some unfolding inverse_of_def by blast
    then have "entry_of k0 (fst (lru_state (rv_lru l))) = Some en" using entry_of_Some [OF i(3)] by blast
    then have "rv_reverseMap l1 v = None"
      using l1(4) \<open>le_data en = v\<close> by (simp add: spec_delete_def spec_remove_def rv_callbacks_def)
    then show thesis using that l1 Some by simp
  qed
  note i = rv_invD [OF l1(2)]
  let ?en = "new_entry now (lr_timeout (rv_lru l1)) k v opts"
  let ?r = "spec_add (lr_capacity (rv_lru l1)) ?en (lru_state (rv_lru l1))"
  obtain c where c: "lru_Add now k v opts (rv_lru l1) = Some (c, snd ?r)" "refines (rv_lru l1) (fst ?r) c"
    using lru_Add_refines [OF i(1)] by blast
  have "inverse_of ((rv_callbacks (snd ?r) (rv_reverseMap l1))(v \<mapsto> k)) (fst (fst ?r))"
    using inverse_spec_add [OF i(2,3) _ i(4), of ?en] l1(3) by simp
  from rv_invI [OF c(2) i(4) this]
  have "rv_inv \<lparr>rv_lru = c, rv_reverseMap = (rv_callbacks (snd ?r) (rv_reverseMap l1))(v \<mapsto> k)\<rparr>" .
  moreover have "\<exists>al. lru_entries c = ?en # al"
    using c(2) i(4) by (auto simp: refines_def lru_state_def spec_add_def Let_def split: option.splits if_splits)
  moreover have "rv_Add now k v opts l = Some \<lparr>rv_lru = c, rv_reverseMap = (rv_callbacks (snd ?r) (rv_reverseMap l1))(v \<mapsto> k)\<rparr>"
    unfolding rv_Add_def l1(1) using c(1) by simp
  ultimately show ?thesis using l1(4) c(2) by (auto simp: refines_def)
qed

section \<open>Histories\<close>

datatype ('k, 'v) rv_op =
    RvAdd int 'k 'v "int list" | RvDelete 'k | RvLoad int 'k | RvLoadRefresh int 'k | RvLoadOptimistic int 'k
  | RvReverseLoad int 'v | RvReverseLoadRefresh int 'v | RvValueExist int 'v | RvClearExpired int "'k list"

fun rv_step :: "('k, 'v) rv_op \<Rightarrow> ('k, 'v) reverse_lru \<Rightarrow> ('k, 'v) reverse_lru option" where
  "rv_step (RvAdd now k v opts) l = rv_Add now k v opts l"
| "rv_step (RvDelete k) l = rv_Delete k l"
| "rv_step (RvLoad now k) l = map_option snd (rv_Load now k l)"
| "rv_step (RvLoadRefresh now k) l = map_option snd (rv_LoadRefreshExpire now k l)"
| "rv_step (RvLoadOptimistic now k) l = map_option snd (rv_LoadOptimistic now k l)"
| "rv_step (RvReverseLoad now v) l = map_option (snd \<circ> snd) (rv_ReverseLoad now v l)"
| "rv_step (RvReverseLoadRefresh now v) l = map_option (snd \<circ> snd) (rv_ReverseLoadRefreshExpire now v l)"
| "rv_step (RvValueExist now v) l = map_option snd (rv_ValueExist now v l)"
| "rv_step (RvClearExpired now ks) l = rv_ClearExpired now ks l"

fun rv_run :: "('k, 'v) rv_op list \<Rightarrow> ('k, 'v) reverse_lru \<Rightarrow> ('k, 'v) reverse_lru option" where
  "rv_run [] l = Some l"
| "rv_run (x # xs) l = (case rv_step x l of None \<Rightarrow> None | Some l \<Rightarrow> rv_run xs l)"

lemma rv_loads_ok:
  assumes "rv_inv l"
  shows "\<exists>v l'. rv_Load now k l = Some (v, l') \<and> rv_inv l'"
    and "\<exists>v l'. rv_LoadRefreshExpire now k l = Some (v, l') \<and> rv_inv l'"
    and "\<exists>v l'. rv_LoadOptimistic now k l = Some (v, l') \<and> rv_inv l'"
  using rv_load_ok [OF assms, of now k False False] rv_load_ok [OF assms, of now k True False] rv_load_ok [OF assms, of now k False True]
  by (auto simp: rv_Load_def rv_LoadRefreshExpire_def rv_LoadOptimistic_def lru_Load_def lru_LoadRefreshExpire_def
      lru_LoadOptimistic_def case_prod_unfold) (metis prod_cases3)

lemma rv_step_ok:
  assumes i: "rv_inv l"
  shows "\<exists>l'. rv_step x l = Some l' \<and> rv_inv l'"
proof (cases x)
  case (RvAdd now k v opts) then show ?thesis using rv_Add_ok [OF i, of now k v opts] by auto
next
  case (RvDelete k) then show ?thesis using rv_Delete_ok [OF i, of k] by auto
next
  case (RvLoad now k) then show ?thesis using rv_loads_ok(1) [OF i, of now k] by auto
next
  case (RvLoadRefresh now k) then show ?thesis using rv_loads_ok(2) [OF i, of now k] by auto
next
  case (RvLoadOptimistic now k) then show ?thesis using rv_loads_ok(3) [OF i, of now k] by auto
next
  case (RvReverseLoad now v)
  then show ?thesis
    using rv_loads_ok(1) [OF i, of now "the (rv_reverseMap l v)"] i by (auto simp: rv_ReverseLoad_def split: option.splits)
next
  case (RvReverseLoadRefresh now v)
  then show ?thesis
    using rv_loads_ok(2) [OF i, of now "the (rv_reverseMap l v)"] i
    by (auto simp: rv_ReverseLoadRefreshExpire_def split: option.splits)
next
  case (RvValueExist now v)
  then show ?thesis
    using rv_loads_ok(1) [OF i, of now "the (rv_reverseMap l v)"] i by (auto simp: rv_ValueExist_def split: option.splits)
next
  case (RvClearExpired now ks) then show ?thesis using rv_ClearExpired_ok [OF i, of now ks] by auto
qed

lemma rv_run_ok: "rv_inv l \<Longrightarrow> \<exists>l'. rv_run xs l = Some l' \<and> rv_inv l'"
proof (induction xs arbitrary: l)
  case (Cons x xs)
  obtain l1 where "rv_step x l = Some l1" "rv_inv l1" using rv_step_ok [OF Cons.prems] by blast
  then show ?case using Cons.IH by simp
qed simp

lemma rv_inv_new: "0 \<le> cap \<Longrightarrow> rv_inv (NewSyncReverseLru cap t)"
  by (simp add: rv_inv_def NewSyncReverseLru_def inverse_of_def lru_inv_new(1) lru_state_def)

text \<open>C14: After any history of calls on a cache of capacity zero (unbounded) or more, the reverse map holds
  exactly the live entries: a value is mapped to a key if and only if that key holds that value.\<close>

theorem reverse_map_exact:
  assumes "0 \<le> cap"
  shows "\<exists>l. rv_run ops (NewSyncReverseLru cap t) = Some l \<and>
    (\<forall>v k. rv_reverseMap l v = Some k \<longleftrightarrow> (\<exists>en \<in> set (lru_entries (rv_lru l)). le_key en = k \<and> le_data en = v))"
  using rv_run_ok [OF rv_inv_new [OF assms, of t], of ops] by (auto simp: rv_inv_def inverse_of_def)

theorem reverse_map_exact_witness:
  "\<exists>l. rv_run [RvAdd 0 ''a.com'' (1 :: nat) [], RvAdd 0 ''b.com'' 2 [], RvAdd 0 ''c.com'' 1 []] (NewSyncReverseLru 2 0) = Some l \<and>
    (\<forall>v k. rv_reverseMap l v = Some k \<longleftrightarrow> (\<exists>en \<in> set (lru_entries (rv_lru l)). le_key en = k \<and> le_data en = v))"
  by (rule reverse_map_exact) simp

text \<open>What the load of a mapped value answers.\<close>

lemma rv_ReverseLoad_found:
  assumes "rv_inv l" "rv_reverseMap l v = Some k" "entry_of k (lru_entries (rv_lru l)) = Some en"
  shows "\<exists>l'. rv_ReverseLoad now v l = Some (Some k, \<not> le_Expired now en, l')"
proof -
  let ?s = "spec_load now (lr_timeout (rv_lru l)) k False False (lru_state (rv_lru l))"
  obtain c where c: "lru_load now k False False (rv_lru l) = Some (fst ?s, c, snd (snd ?s))"
    using rv_load_ok [OF assms(1)] by blast
  have "fst (fst ?s) = (if le_Expired now en then None else Some (le_data en))"
    using assms(3) by (simp add: spec_load_def lru_state_def)
  then show ?thesis
    using c assms(2) by (simp add: rv_ReverseLoad_def rv_Load_def lru_Load_def case_prod_unfold)
qed

text \<open>After Add of a key with a value, ReverseLoad of the value gives that key, with success as long as
  the entry is not expired.\<close>

theorem reverse_load_after_add:
  assumes "0 \<le> cap" and "rv_run ops (NewSyncReverseLru cap t) = Some l"
  shows "\<exists>l1 l2. rv_Add now k v opts l = Some l1 \<and>
    rv_ReverseLoad now' v l1 = Some (Some k, \<not> le_Expired now' (new_entry now (lr_timeout (rv_lru l)) k v opts), l2)"
proof -
  have "rv_inv l" using rv_run_ok [OF rv_inv_new [OF assms(1), of t], of ops] assms(2) by auto
  from rv_Add_ok [OF this, of now k v opts]
  obtain l1 al where l1: "rv_Add now k v opts l = Some l1" "rv_inv l1" "rv_reverseMap l1 v = Some k"
    "lru_entries (rv_lru l1) = new_entry now (lr_timeout (rv_lru l)) k v opts # al"
    by auto
  have "entry_of k (lru_entries (rv_lru l1)) = Some (new_entry now (lr_timeout (rv_lru l)) k v opts)"
    by (simp add: l1(4) entry_of_def)
  from rv_ReverseLoad_found [OF l1(2,3) this] l1(1) show ?thesis by blast
qed

theorem reverse_load_after_add_witness:
  "\<exists>l l1 l2. rv_run [] (NewSyncReverseLru 4 0) = Some l \<and> rv_Add 1 ''a.com'' (9 :: nat) [] l = Some l1 \<and>
    rv_ReverseLoad 2 9 l1 = Some (Some ''a.com'', \<not> le_Expired 2 (new_entry 1 (lr_timeout (rv_lru l)) ''a.com'' (9 :: nat) []), l2)"
  using reverse_load_after_add [of 4 "[]" 0 "NewSyncReverseLru 4 0" 1 "''a.com''" "9 :: nat" "[]" 2] by auto

text \<open>ReverseLoadRefreshExpire reports success for an entry that has just expired and is removed by the
  very call, where ReverseLoad reports failure.\<close>

theorem reverse_refresh_expired_reports_ok:
  assumes "0 \<le> cap" and "rv_run ops (NewSyncReverseLru cap t) = Some l"
    and "en \<in> set (lru_entries (rv_lru l))" and "le_Expired now en"
  shows "\<exists>l'. rv_ReverseLoadRefreshExpire now (le_data en) l = Some (Some (le_key en), True, l') \<and>
    entry_of (le_key en) (lru_entries (rv_lru l')) = None"
proof -
  have i: "rv_inv l" using rv_run_ok [OF rv_inv_new [OF assms(1), of t], of ops] assms(2) by auto
  have m: "rv_reverseMap l (le_data en) = Some (le_key en)" using i assms(3) by (auto simp: rv_inv_def inverse_of_def)
  have e: "entry_of (le_key en) (lru_entries (rv_lru l)) = Some en"
    using entry_of_Some [OF lru_invD(2) [OF rv_invD(1) [OF i]], of "le_key en" en] assms(3) by simp
  let ?s = "spec_load now (lr_timeout (rv_lru l)) (le_key en) True False (lru_state (rv_lru l))"
  have s: "?s = ((None, True, False), spec_remove en (lru_state (rv_lru l)))"
    using e assms(4) by (simp add: spec_load_def lru_state_def)
  from rv_load_ok [OF i, of now "le_key en" True False, unfolded s]
  obtain c where c: "lru_load now (le_key en) True False (rv_lru l) =
      Some ((None, True, False), c, [OnRemove (le_key en) (le_data en)])"
    "lru_entries c = drop_key (le_key en) (lru_entries (rv_lru l))"
    by (auto simp: spec_remove_def refines_def lru_state_def)
  then have "entry_of (le_key en) (lru_entries c) = None" by (auto simp: entry_of_None set_drop_key)
  then show ?thesis
    using c(1) m by (simp add: rv_ReverseLoadRefreshExpire_def rv_LoadRefreshExpire_def lru_LoadRefreshExpire_def)
qed

theorem reverse_refresh_expired_reports_ok_witness:
  "\<exists>l (en :: (string, nat) lruEntry) l'. rv_run [RvAdd 1 ''a.com'' (9 :: nat) []] (NewSyncReverseLru 4 10) = Some l \<and>
    rv_ReverseLoadRefreshExpire 100 (le_data en) l = Some (Some (le_key en), True, l') \<and>
    entry_of (le_key en) (lru_entries (rv_lru l')) = None"
proof -
  let ?en = "new_entry 1 10 ''a.com'' (9 :: nat) []"
  obtain l al where l: "rv_Add 1 ''a.com'' (9 :: nat) [] (NewSyncReverseLru 4 10) = Some l"
    "lru_entries (rv_lru l) = ?en # al"
    using rv_Add_ok [OF rv_inv_new [of 4 10], of 1 "''a.com''" "9 :: nat" "[]"] by (auto simp: NewSyncReverseLru_def)
  then have r: "rv_run [RvAdd 1 ''a.com'' (9 :: nat) []] (NewSyncReverseLru 4 10) = Some l" by simp
  have "le_Expired 100 ?en" by (simp add: le_Expired_def new_entry_def)
  from reverse_refresh_expired_reports_ok [OF _ r, of ?en 100, OF _ _ this] l(2) obtain l' where
    "rv_ReverseLoadRefreshExpire 100 (le_data ?en) l = Some (Some (le_key ?en), True, l')"
    "entry_of (le_key ?en) (lru_entries (rv_lru l')) = None" by auto
  with r show ?thesis by blast
qed

end
