(* ===== verification/Netip.thy ===== *)
theory Netip
  imports Prelude
begin

text \<open>
  The part of Go's \<^verbatim>\<open>net\<close> and \<^verbatim>\<open>net/netip\<close> packages the sources use: addresses, byte slices and
  prefixes. Addresses carry no zone: no modelled component stores a zoned address. \<open>NoAddr 0\<close> is
  the zero \<^verbatim>\<open>netip.Addr{}\<close>; \<^verbatim>\<open>Next\<close> of an invalid address counts up but stays invalid, as in Go.
\<close>

section \<open>Addresses\<close>

type_synonym u128 = "128 word"

datatype addr = NoAddr u128 | Addr4 u32 | Addr6 u128

fun Is4 :: "addr \<Rightarrow> bool" where
  "Is4 (Addr4 _) = True"
| "Is4 _ = False"

fun Is6 :: "addr \<Rightarrow> bool" where
  "Is6 (Addr6 _) = True"
| "Is6 _ = False"

fun addr_IsValid :: "addr \<Rightarrow> bool" where
  "addr_IsValid (NoAddr _) = False"
| "addr_IsValid _ = True"

fun BitLen :: "addr \<Rightarrow> nat" where
  "BitLen (NoAddr _) = 0"
| "BitLen (Addr4 _) = 32"
| "BitLen (Addr6 _) = 128"

text \<open>Big-endian bytes of a word.\<close>

definition bytes_be :: "nat \<Rightarrow> 'a::len word \<Rightarrow> bytes" where
  "bytes_be n w = map (\<lambda>i. ucast (drop_bit (8 * (n - 1 - i)) w)) [0..<n]"

definition word_be :: "bytes \<Rightarrow> 'a::len word" where
  "word_be bs = foldl (\<lambda>w b. push_bit 8 w OR ucast b) 0 bs"

fun AsSlice :: "addr \<Rightarrow> bytes" where
  "AsSlice (NoAddr _) = []"
| "AsSlice (Addr4 w) = bytes_be 4 w"
| "AsSlice (Addr6 w) = bytes_be 16 w"

definition AddrFromSlice :: "bytes \<Rightarrow> addr option" where
  "AddrFromSlice bs =
     (if length bs = 4 then Some (Addr4 (word_be bs))
      else if length bs = 16 then Some (Addr6 (word_be bs)) else None)"

text \<open>The prefix of the IPv4-mapped IPv6 addresses, \<^verbatim>\<open>::ffff:0:0/96\<close>.\<close>

fun Is4In6 :: "addr \<Rightarrow> bool" where
  "Is4In6 (Addr6 w) \<longleftrightarrow> drop_bit 32 w = 0xffff"
| "Is4In6 _ \<longleftrightarrow> False"

fun Unmap :: "addr \<Rightarrow> addr" where
  "Unmap (Addr6 w) = (if drop_bit 32 w = 0xffff then Addr4 (ucast w) else Addr6 w)"
| "Unmap a = a"

fun Next :: "addr \<Rightarrow> addr" where
  "Next (NoAddr w) = NoAddr (w + 1)"
| "Next (Addr4 w) = (if w + 1 = 0 then NoAddr 0 else Addr4 (w + 1))"
| "Next (Addr6 w) = (if w + 1 = 0 then NoAddr 0 else Addr6 (w + 1))"

fun Prev :: "addr \<Rightarrow> addr" where
  "Prev (NoAddr w) = (if w = 0 then NoAddr 0 else NoAddr (w - 1))"
| "Prev (Addr4 w) = (if w = 0 then NoAddr 0 else Addr4 (w - 1))"
| "Prev (Addr6 w) = (if w = 0 then NoAddr 0 else Addr6 (w - 1))"

section \<open>Prefixes\<close>

text \<open>A prefix is an address and a bit count; \<^verbatim>\<open>Bits\<close> of an invalid prefix is -1.\<close>

record netip_prefix =
  pAddr :: addr
  pBits :: int

definition prefix_IsValid :: "netip_prefix \<Rightarrow> bool" where
  "prefix_IsValid p \<longleftrightarrow> addr_IsValid (pAddr p) \<and> 0 \<le> pBits p \<and> pBits p \<le> int (BitLen (pAddr p))"

fun same_top_bits :: "nat \<Rightarrow> addr \<Rightarrow> addr \<Rightarrow> bool" where
  "same_top_bits n (Addr4 v) (Addr4 w) \<longleftrightarrow> drop_bit (32 - n) v = drop_bit (32 - n) w"
| "same_top_bits n (Addr6 v) (Addr6 w) \<longleftrightarrow> drop_bit (128 - n) v = drop_bit (128 - n) w"
| "same_top_bits n _ _ \<longleftrightarrow> False"

definition prefix_Contains :: "netip_prefix \<Rightarrow> addr \<Rightarrow> bool" where
  "prefix_Contains p a \<longleftrightarrow> prefix_IsValid p \<and> same_top_bits (nat (pBits p)) (pAddr p) a"

fun mask_addr :: "nat \<Rightarrow> addr \<Rightarrow> addr" where
  "mask_addr n (Addr4 w) = Addr4 (push_bit (32 - n) (drop_bit (32 - n) w))"
| "mask_addr n (Addr6 w) = Addr6 (push_bit (128 - n) (drop_bit (128 - n) w))"
| "mask_addr n (NoAddr w) = NoAddr w"

definition prefix_Masked :: "netip_prefix \<Rightarrow> netip_prefix" where
  "prefix_Masked p =
     (if prefix_IsValid p then \<lparr>pAddr = mask_addr (nat (pBits p)) (pAddr p), pBits = pBits p\<rparr>
      else \<lparr>pAddr = NoAddr 0, pBits = -1\<rparr>)"

section \<open>Byte slices as addresses\<close>

text \<open>\<^verbatim>\<open>net.IP.To4\<close> and \<^verbatim>\<open>net.IP.To16\<close>; \<open>None\<close> is the nil slice.\<close>

definition v4InV6Prefix :: bytes where
  "v4InV6Prefix = replicate 10 0 @ [255, 255]"

definition To4 :: "bytes \<Rightarrow> bytes option" where
  "To4 ip =
     (if length ip = 4 then Some ip
      else if length ip = 16 \<and> take 12 ip = v4InV6Prefix then Some (drop 12 ip) else None)"

definition To16 :: "bytes \<Rightarrow> bytes option" where
  "To16 ip =
     (if length ip = 4 then Some (v4InV6Prefix @ ip)
      else if length ip = 16 then Some ip else None)"

section \<open>Bits of addresses\<close>

lemma length_bytes_be [simp]: "length (bytes_be n w) = n"
  by (simp add: bytes_be_def)

lemma length_AsSlice [simp]: "length (AsSlice a) = BitLen a div 8"
  by (cases a) auto

text \<open>The bits of an address slice are the bits of the word from the top.\<close>

definition addr_bits :: "addr \<Rightarrow> bool list" where
  "addr_bits a = ip_bits (AsSlice a)"

lemma length_addr_bits [simp]: "length (addr_bits a) = BitLen a"
  by (cases a) (simp_all add: addr_bits_def)

lemma ip_bits_nth:
  "i < 8 * length bs \<Longrightarrow> ip_bits bs ! i = bit (bs ! (i div 8)) (7 - i mod 8)"
proof (induction bs arbitrary: i)
  case Nil
  then show ?case by simp
next
  case (Cons b bs)
  show ?case
  proof (cases "i < 8")
    case True
    then have "i \<in> {0, 1, 2, 3, 4, 5, 6, 7}" by auto
    then show ?thesis by (auto simp: byte_bits_code nth_append)
  next
    case False
    then have "i div 8 = Suc ((i - 8) div 8)" "i mod 8 = (i - 8) mod 8"
      by (simp_all add: le_div_geq le_mod_geq)
    moreover have "ip_bits bs ! (i - 8) = bit (bs ! ((i - 8) div 8)) (7 - (i - 8) mod 8)"
      using Cons.prems False by (intro Cons.IH) auto
    ultimately show ?thesis using False by (simp add: nth_append)
  qed
qed

lemma bits_bytes_be:
  fixes w :: "'a::len word"
  assumes "LENGTH('a) = 8 * n"
  shows "ip_bits (bytes_be n w) = map (\<lambda>i. bit w (8 * n - 1 - i)) [0..<8 * n]"
proof (rule nth_equalityI)
  show "length (ip_bits (bytes_be n w)) = length (map (\<lambda>i. bit w (8 * n - 1 - i)) [0..<8 * n])"
    by simp
  fix i
  assume "i < length (ip_bits (bytes_be n w))"
  then have i: "i < 8 * n" by simp
  then have q: "i div 8 < n" by auto
  have "8 * (n - 1 - i div 8) + (7 - i mod 8) = 8 * n - 1 - i"
    using i q by (simp add: algebra_simps)
  moreover have "7 - i mod 8 < 8" by (rule le_less_trans [OF diff_le_self]) simp
  ultimately show "ip_bits (bytes_be n w) ! i = map (\<lambda>i. bit w (8 * n - 1 - i)) [0..<8 * n] ! i"
    using i q by (simp add: ip_bits_nth bytes_be_def bit_simps)
qed

lemma addr_bits_simps [simp]:
  "addr_bits (Addr4 w) = map (\<lambda>i. bit w (31 - i)) [0..<32]"
  "addr_bits (Addr6 u) = map (\<lambda>i. bit u (127 - i)) [0..<128]"
  "addr_bits (NoAddr u) = []"
  using bits_bytes_be [where n = 4 and w = w] bits_bytes_be [where n = 16 and w = u]
  by (simp_all add: addr_bits_def)


lemma take_bits_eq_iff:
  fixes v w :: "'a::len word"
  assumes L: "LENGTH('a) = N" and n: "n \<le> N"
  shows "take n (map (\<lambda>i. bit v (N - 1 - i)) [0..<N]) = take n (map (\<lambda>i. bit w (N - 1 - i)) [0..<N])
    \<longleftrightarrow> drop_bit (N - n) v = drop_bit (N - n) w"
    (is "?l = ?r \<longleftrightarrow> _")
proof
  assume *: "?l = ?r"
  show "drop_bit (N - n) v = drop_bit (N - n) w"
  proof (rule bit_word_eqI)
    fix k
    assume k: "k < LENGTH('a)"
    show "bit (drop_bit (N - n) v) k = bit (drop_bit (N - n) w) k"
    proof (cases "k < n")
      case True
      then have "?l ! (n - 1 - k) = ?r ! (n - 1 - k)" using * by simp
      moreover have "N - 1 - (n - 1 - k) = N - n + k" using True n by simp
      ultimately show ?thesis using True n by (simp add: bit_simps)
    next
      case False
      then have "\<not> bit v (N - n + k)" "\<not> bit w (N - n + k)"
        using L n bit_imp_le_length [of v] bit_imp_le_length [of w] by fastforce+
      then show ?thesis by (simp add: bit_simps)
    qed
  qed
next
  assume *: "drop_bit (N - n) v = drop_bit (N - n) w"
  show "?l = ?r"
  proof (rule nth_equalityI)
    fix i
    assume "i < length ?l"
    then have i: "i < n" using n by simp
    have "bit (drop_bit (N - n) v) (n - 1 - i) = bit (drop_bit (N - n) w) (n - 1 - i)"
      using * by simp
    moreover have "N - n + (n - 1 - i) = N - 1 - i" using i n by simp
    ultimately show "?l ! i = ?r ! i" using i n by (simp add: bit_simps)
  qed simp
qed

lemma same_top_bits_iff:
  assumes "addr_IsValid a" "n \<le> BitLen a"
  shows "same_top_bits n a b \<longleftrightarrow> BitLen a = BitLen b \<and> take n (addr_bits a) = take n (addr_bits b)"
proof (cases a; cases b)
  fix v w
  assume "a = Addr4 v" "b = Addr4 w"
  then show ?thesis using assms take_bits_eq_iff [where N = 32 and n = n and v = v and w = w] by simp
next
  fix v w
  assume "a = Addr6 v" "b = Addr6 w"
  then show ?thesis using assms take_bits_eq_iff [where N = 128 and n = n and v = v and w = w] by simp
qed (use assms in auto)

text \<open>Containment is agreement on the leading bits.\<close>

lemma prefix_Contains_bits:
  assumes "prefix_IsValid p"
  shows "prefix_Contains p a \<longleftrightarrow>
    BitLen (pAddr p) = BitLen a \<and> prefix (take (nat (pBits p)) (addr_bits (pAddr p))) (addr_bits a)"
proof -
  have n: "nat (pBits p) \<le> BitLen (pAddr p)" and v: "addr_IsValid (pAddr p)"
    using assms by (auto simp: prefix_IsValid_def)
  show ?thesis
    unfolding prefix_Contains_def same_top_bits_iff [OF v n]
    using assms n by (auto simp: take_is_prefix) (auto simp: prefix_def)
qed

lemma addr_bits_inject:
  assumes "addr_IsValid a" "addr_IsValid b"
  shows "addr_bits a = addr_bits b \<longleftrightarrow> a = b"
proof
  assume *: "addr_bits a = addr_bits b"
  then have "BitLen a = BitLen b" by (metis length_addr_bits)
  then have "same_top_bits (BitLen a) a b" using * assms by (simp add: same_top_bits_iff)
  then show "a = b" using assms by (cases a; cases b) auto
qed simp

lemma AsSlice_inject:
  assumes "addr_IsValid a" "addr_IsValid b"
  shows "AsSlice a = AsSlice b \<longleftrightarrow> a = b"
  using addr_bits_inject [OF assms] by (auto simp: addr_bits_def)

lemma To4_AsSlice4 [simp]: "To4 (AsSlice (Addr4 w)) = Some (AsSlice (Addr4 w))"
  by (simp add: To4_def)

lemma take_bytes_be:
  "k \<le> n \<Longrightarrow> take k (bytes_be n w) = map (\<lambda>i. ucast (drop_bit (8 * (n - 1 - i)) w)) [0..<k]"
  by (simp add: bytes_be_def take_map)

lemma drop_bytes_be:
  fixes w :: u128
  shows "drop 12 (bytes_be 16 w) = bytes_be 4 (ucast w :: u32)"
proof (rule nth_equalityI)
  fix i
  assume "i < length (drop 12 (bytes_be 16 w))"
  then have "i < 4" by simp
  then have "i \<in> {0, 1, 2, 3}" by auto
  then show "drop 12 (bytes_be 16 w) ! i = bytes_be 4 (ucast w :: u32) ! i"
    by (auto simp: bytes_be_def intro!: bit_word_eqI simp: bit_simps)
qed simp


lemma ip_bits_take: "ip_bits (take k bs) = take (8 * k) (ip_bits bs)"
proof (induction bs arbitrary: k)
  case (Cons b bs)
  then show ?case by (cases k) simp_all
qed simp

lemma take12_mapped_iff:
  fixes w :: u128
  shows "take 12 (bytes_be 16 w) = v4InV6Prefix \<longleftrightarrow> drop_bit 32 w = 0xffff"
proof -
  let ?m = "0xffff00000000 :: u128"
  have m: "v4InV6Prefix = take 12 (bytes_be 16 ?m)" "drop_bit 32 ?m = 0xffff"
    by code_simp+
  have "take 12 (bytes_be 16 w) = take 12 (bytes_be 16 ?m)
    \<longleftrightarrow> take 96 (addr_bits (Addr6 w)) = take 96 (addr_bits (Addr6 ?m))"
    using ip_bits_inject [of "take 12 (bytes_be 16 w)" "take 12 (bytes_be 16 ?m)"]
    by (simp add: addr_bits_def ip_bits_take del: addr_bits_simps)
  also have "\<dots> \<longleftrightarrow> drop_bit 32 w = drop_bit 32 ?m"
    using take_bits_eq_iff [where N = 128 and n = 96 and v = w and w = ?m]
    unfolding addr_bits_simps by simp
  finally show ?thesis unfolding m .
qed

text \<open>\<^verbatim>\<open>To4\<close> of an address slice succeeds exactly when the unmapped address is an IPv4 one.\<close>

lemma To4_AsSlice:
  "To4 (AsSlice a) = (if Is4 (Unmap a) then Some (AsSlice (Unmap a)) else None)"
  by (cases a) (auto simp: To4_def take12_mapped_iff drop_bytes_be)

lemma To16_AsSlice6 [simp]: "To16 (AsSlice (Addr6 w)) = Some (AsSlice (Addr6 w))"
  by (simp add: To16_def)

lemma Unmap_not_4 [simp]: "\<not> Is4 (Unmap a) \<Longrightarrow> Unmap a = a"
  by (cases a) (auto split: if_splits)

lemma addr_IsValid_Unmap [simp]: "addr_IsValid (Unmap a) = addr_IsValid a"
  by (cases a) auto

end
