(* ===== verification/Netip_Parse.thy ===== *)
theory Netip_Parse
  imports Netip
begin

text \<open>
  The textual forms of addresses and prefixes, as \<^verbatim>\<open>netip.ParseAddr\<close>, \<^verbatim>\<open>netip.ParsePrefix\<close> and
  \<^verbatim>\<open>net.ParseIP\<close> of Go read them. Errors are \<open>None\<close>. \<open>ParseAddr\<close> returns the zone beside the address,
  since \<^typ>\<open>addr\<close> carries none.
\<close>

definition byte_of :: "char \<Rightarrow> nat" where
  "byte_of c = of_char c"

definition is_digit :: "char \<Rightarrow> bool" where
  "is_digit c \<longleftrightarrow> 48 \<le> byte_of c \<and> byte_of c \<le> 57"

definition digit_val :: "char \<Rightarrow> nat" where
  "digit_val c = byte_of c - 48"

section \<open>IPv4\<close>

text \<open>
  The scanner of the four decimal fields: \<open>prev\<close> is the character before, \<open>v\<close> the current value,
  \<open>digLen\<close> its number of digits and \<open>fs\<close> the fields already read.
\<close>

fun parse_v4 :: "char option \<Rightarrow> nat \<Rightarrow> nat \<Rightarrow> bytes \<Rightarrow> string \<Rightarrow> bytes option" where
  "parse_v4 prev v digLen fs [] =
     (if length fs < 3 then None else Some (fs @ [of_nat v]))"
| "parse_v4 prev v digLen fs (c # cs) =
     (if is_digit c then
        if digLen = 1 \<and> v = 0 then None
        else let v' = v * 10 + digit_val c in
          if v' > 255 then None else parse_v4 (Some c) v' (digLen + 1) fs cs
      else if c = CHR ''.'' then
        if prev = None \<or> cs = [] \<or> prev = Some (CHR ''.'') then None
        else if length fs = 3 then None
        else parse_v4 (Some c) 0 0 (fs @ [of_nat v]) cs
      else None)"

definition parseIPv4Fields :: "string \<Rightarrow> bytes option" where
  "parseIPv4Fields s = parse_v4 None 0 0 [] s"

section \<open>IPv6\<close>

definition hex_val :: "char \<Rightarrow> nat option" where
  "hex_val c =
     (let n = byte_of c in
      if 48 \<le> n \<and> n \<le> 57 then Some (n - 48)
      else if 97 \<le> n \<and> n \<le> 102 then Some (n - 87)
      else if 65 \<le> n \<and> n \<le> 70 then Some (n - 55) else None)"

text \<open>One hexadecimal group: the value, the number of digits and the rest of the text.\<close>

fun hex_group :: "nat \<Rightarrow> nat \<Rightarrow> string \<Rightarrow> (nat \<times> nat \<times> string) option" where
  "hex_group off acc [] = Some (acc, off, [])"
| "hex_group off acc (c # cs) =
     (case hex_val c of
        None \<Rightarrow> Some (acc, off, c # cs)
      | Some d \<Rightarrow>
          if off > 3 \<or> acc * 16 + d > 65535 then None else hex_group (off + 1) (acc * 16 + d) cs)"

text \<open>
  The loop over the groups; it returns the bytes read, the position of the ellipsis and the unread
  rest. Every turn appends two bytes, so eight turns reach the bound 16 of the loop.
\<close>

fun hex_groups :: "nat \<Rightarrow> bytes \<Rightarrow> nat option \<Rightarrow> string \<Rightarrow> (bytes \<times> nat option \<times> string) option" where
  "hex_groups 0 ip ellipsis s = Some (ip, ellipsis, s)"
| "hex_groups (Suc k) ip ellipsis s =
     (case hex_group 0 0 s of
        None \<Rightarrow> None
      | Some (acc, off, rest) \<Rightarrow>
          if off = 0 then None
          else if rest \<noteq> [] \<and> hd rest = CHR ''.'' then
            if ellipsis = None \<and> length ip \<noteq> 12 then None
            else if length ip + 4 > 16 then None
            else case parseIPv4Fields s of
                None \<Rightarrow> None
              | Some f \<Rightarrow> Some (ip @ f, ellipsis, [])
          else let ip' = ip @ [of_nat (acc div 256), of_nat acc] in
            case rest of
              [] \<Rightarrow> Some (ip', ellipsis, [])
            | c # cs \<Rightarrow>
                if c \<noteq> CHR '':'' \<or> cs = [] then None
                else if hd cs = CHR '':'' then
                  if ellipsis \<noteq> None then None
                  else if tl cs = [] then Some (ip', Some (length ip'), [])
                  else hex_groups k ip' (Some (length ip')) (tl cs)
                else hex_groups k ip' ellipsis cs)"

definition expand_ellipsis :: "bytes \<Rightarrow> nat option \<Rightarrow> bytes option" where
  "expand_ellipsis ip ellipsis =
     (if length ip < 16 then
        case ellipsis of
          None \<Rightarrow> None
        | Some e \<Rightarrow> Some (take e ip @ replicate (16 - length ip) 0 @ drop e ip)
      else if ellipsis \<noteq> None then None else Some ip)"

definition parseIPv6 :: "string \<Rightarrow> (addr \<times> string) option" where
  "parseIPv6 inp =
     (let s0 = takeWhile (\<lambda>c. c \<noteq> CHR ''%'') inp;
          z = drop (length s0) inp
      in if z = ''%'' then None
      else let zone = tl z;
               lead = (take 2 s0 = ''::'');
               s = (if lead then drop 2 s0 else s0)
      in if lead \<and> s = [] then Some (Addr6 0, zone)
      else case hex_groups 8 [] (if lead then Some 0 else None) s of
          None \<Rightarrow> None
        | Some (ip, ellipsis, rest) \<Rightarrow>
            if rest \<noteq> [] then None
            else case expand_ellipsis ip ellipsis of
                None \<Rightarrow> None
              | Some b \<Rightarrow> Some (Addr6 (word_be b), zone))"

section \<open>Addresses and prefixes\<close>

fun first_sep :: "string \<Rightarrow> char option" where
  "first_sep [] = None"
| "first_sep (c # cs) = (if c = CHR ''.'' \<or> c = CHR '':'' \<or> c = CHR ''%'' then Some c else first_sep cs)"

definition ParseAddr :: "string \<Rightarrow> (addr \<times> string) option" where
  "ParseAddr s =
     (case first_sep s of
        Some c \<Rightarrow>
          if c = CHR ''.'' then
            (case parseIPv4Fields s of None \<Rightarrow> None | Some b \<Rightarrow> Some (Addr4 (word_be b), []))
          else if c = CHR '':'' then parseIPv6 s else None
      | None \<Rightarrow> None)"

fun atoi_digits :: "nat \<Rightarrow> string \<Rightarrow> nat option" where
  "atoi_digits acc [] = Some acc"
| "atoi_digits acc (c # cs) = (if is_digit c then atoi_digits (acc * 10 + digit_val c) cs else None)"

definition ParsePrefix :: "string \<Rightarrow> netip_prefix option" where
  "ParsePrefix s =
     (if CHR ''/'' \<notin> set s then None
      else
        let bitsStr = rev (takeWhile (\<lambda>c. c \<noteq> CHR ''/'') (rev s));
            ipStr = take (length s - length bitsStr - 1) s
        in case ParseAddr ipStr of
            None \<Rightarrow> None
          | Some (ip, zone) \<Rightarrow>
              if zone \<noteq> [] then None
              else if bitsStr = [] \<or>
                length bitsStr > 1 \<and> (byte_of (hd bitsStr) < 49 \<or> byte_of (hd bitsStr) > 57) then None
              else case atoi_digits 0 bitsStr of
                  None \<Rightarrow> None
                | Some n \<Rightarrow> if n > BitLen ip then None else Some \<lparr>pAddr = ip, pBits = int n\<rparr>)"

text \<open>\<^verbatim>\<open>net.ParseIP\<close> gives the sixteen-byte form, an IPv4 address mapped.\<close>

definition ParseIP :: "string \<Rightarrow> bytes option" where
  "ParseIP s =
     (case ParseAddr s of
        None \<Rightarrow> None
      | Some (ip, zone) \<Rightarrow> if zone \<noteq> [] then None else To16 (AsSlice ip))"

section \<open>What the parsers return\<close>

lemma parseIPv6_valid: "parseIPv6 s = Some (a, z) \<Longrightarrow> Is6 a"
  by (auto simp: parseIPv6_def Let_def split: if_splits option.splits prod.splits)

lemma ParseAddr_valid: "ParseAddr s = Some (a, z) \<Longrightarrow> addr_IsValid a"
  by (cases a) (auto simp: ParseAddr_def dest: parseIPv6_valid split: if_splits option.splits)

lemma ParsePrefix_valid: "ParsePrefix s = Some p \<Longrightarrow> prefix_IsValid p"
  by (auto simp: ParsePrefix_def Let_def prefix_IsValid_def dest: ParseAddr_valid
      split: if_splits option.splits prod.splits)

end
