(* ===== verification/Cidr_Trie.thy ===== *)
theory Cidr_Trie
  imports Netip_Parse
begin

text \<open>
  The in-memory CIDR matcher of the v2 trie (\<^verbatim>\<open>pkg/net/trie/v2/cidr/trie.go\<close> and \<^verbatim>\<open>cidr.go\<close>): a binary
  trie whose nodes carry the marks of the prefix they stand for, and the pair of an IPv4 and an IPv6
  trie. The locale \<open>cidr_matcher\<close> is the contract of the Go interface \<^verbatim>\<open>cidrMatcher\<close> of
  \<^verbatim>\<open>pkg/net/trie/v2/trie.go\<close>; it is interpreted here on the in-memory matcher.
\<close>

section \<open>The binary trie\<close>

text \<open>A nil child pointer is \<open>None\<close>.\<close>

datatype 'a ctrie = CTrie (ct_left: "'a ctrie option") (ct_right: "'a ctrie option") (ct_marks: "'a list")

definition NewTrie :: "'a ctrie" where
  "NewTrie = CTrie None None []"

text \<open>The child a bit selects, and the child the insertion loop creates when it is missing.\<close>

definition ct_child :: "bool \<Rightarrow> 'a ctrie \<Rightarrow> 'a ctrie option" where
  "ct_child b t = (if b then ct_right t else ct_left t)"

definition ct_set_child :: "bool \<Rightarrow> 'a ctrie \<Rightarrow> 'a ctrie \<Rightarrow> 'a ctrie" where
  "ct_set_child b t c =
     (if b then CTrie (ct_left t) (Some c) (ct_marks t) else CTrie (Some c) (ct_right t) (ct_marks t))"

definition ct_set_marks :: "'a ctrie \<Rightarrow> 'a list \<Rightarrow> 'a ctrie" where
  "ct_set_marks t ms = CTrie (ct_left t) (ct_right t) ms"

text \<open>
  The loops walk over the bits of the address while \<open>bitCount < maskSize\<close>; the walk down the pointer
  \<^verbatim>\<open>r\<close> is the recursion, and the node reached at the end is updated in place.
\<close>

fun ct_insert_loop :: "bool list \<Rightarrow> int \<Rightarrow> int \<Rightarrow> 'a \<Rightarrow> 'a ctrie \<Rightarrow> 'a ctrie" where
  "ct_insert_loop [] bitCount maskSize mark r = ct_set_marks r (append_unique (ct_marks r) mark)"
| "ct_insert_loop (b # bs) bitCount maskSize mark r =
     (if bitCount < maskSize then
        ct_set_child b r
          (ct_insert_loop bs (bitCount + 1) maskSize mark
             (case ct_child b r of None \<Rightarrow> NewTrie | Some c \<Rightarrow> c))
      else ct_set_marks r (append_unique (ct_marks r) mark))"

definition ctrie_Insert :: "'a ctrie \<Rightarrow> bytes \<Rightarrow> int \<Rightarrow> 'a \<Rightarrow> 'a ctrie" where
  "ctrie_Insert t ip maskSize mark = ct_insert_loop (ip_bits ip) 0 maskSize mark t"

fun ct_search_loop :: "bool list \<Rightarrow> 'a ctrie option \<Rightarrow> 'a list \<Rightarrow> 'a list" where
  "ct_search_loop [] r matched = (case r of None \<Rightarrow> matched | Some t \<Rightarrow> matched @ ct_marks t)"
| "ct_search_loop (b # bs) r matched =
     (case r of
        None \<Rightarrow> matched
      | Some t \<Rightarrow> ct_search_loop bs (ct_child b t) (matched @ ct_marks t))"

definition ctrie_Search :: "'a ctrie \<Rightarrow> bytes \<Rightarrow> 'a list" where
  "ctrie_Search t ip = ct_search_loop (ip_bits ip) (Some t) []"

text \<open>The removal loop, with the update of the marks of the node it reaches as a parameter.\<close>

fun ct_remove_loop :: "('a list \<Rightarrow> 'a list) \<Rightarrow> bool list \<Rightarrow> int \<Rightarrow> int \<Rightarrow> 'a ctrie option \<Rightarrow> 'a ctrie option" where
  "ct_remove_loop f bs bitCount maskSize None = None"
| "ct_remove_loop f [] bitCount maskSize (Some r) = Some (ct_set_marks r (f (ct_marks r)))"
| "ct_remove_loop f (b # bs) bitCount maskSize (Some r) =
     (if bitCount < maskSize then
        case ct_remove_loop f bs (bitCount + 1) maskSize (ct_child b r) of
          None \<Rightarrow> Some r
        | Some c \<Rightarrow> Some (ct_set_child b r c)
      else Some (ct_set_marks r (f (ct_marks r))))"

definition ctrie_Remove :: "'a ctrie \<Rightarrow> bytes \<Rightarrow> int \<Rightarrow> 'a \<Rightarrow> 'a ctrie" where
  "ctrie_Remove t ip maskSize mark = the (ct_remove_loop (remove1 mark) (ip_bits ip) 0 maskSize (Some t))"

section \<open>The matcher\<close>

record 'a cidr =
  v4CidrTrie :: "'a ctrie"
  v6CidrTrie :: "'a ctrie"

definition NewCidr :: "'a cidr" where
  "NewCidr = \<lparr>v4CidrTrie = NewTrie, v6CidrTrie = NewTrie\<rparr>"

definition cidr_InsertIP :: "addr \<Rightarrow> int \<Rightarrow> 'a \<Rightarrow> 'a cidr \<Rightarrow> 'a cidr" where
  "cidr_InsertIP ip maskSize mark c =
     (if Is4 ip then c\<lparr>v4CidrTrie := ctrie_Insert (v4CidrTrie c) (AsSlice ip) maskSize mark\<rparr>
      else c\<lparr>v6CidrTrie := ctrie_Insert (v6CidrTrie c) (AsSlice ip) maskSize mark\<rparr>)"

definition cidr_InsertCIDR :: "netip_prefix \<Rightarrow> 'a \<Rightarrow> 'a cidr \<Rightarrow> 'a cidr" where
  "cidr_InsertCIDR ipNet mark c =
     (if Is4 (pAddr ipNet)
      then c\<lparr>v4CidrTrie := ctrie_Insert (v4CidrTrie c) (AsSlice (pAddr ipNet)) (pBits ipNet) mark\<rparr>
      else c\<lparr>v6CidrTrie := ctrie_Insert (v6CidrTrie c) (AsSlice (pAddr ipNet)) (pBits ipNet) mark\<rparr>)"

definition cidr_Insert :: "string \<Rightarrow> 'a \<Rightarrow> 'a cidr \<Rightarrow> 'a cidr option" where
  "cidr_Insert s mark c =
     (case ParsePrefix s of None \<Rightarrow> None | Some ipNet \<Rightarrow> Some (cidr_InsertCIDR ipNet mark c))"

definition cidr_remove :: "'a ctrie \<Rightarrow> bytes \<Rightarrow> int \<Rightarrow> 'a ctrie" where
  "cidr_remove trie ip maskSize = the (ct_remove_loop (\<lambda>_. []) (ip_bits ip) 0 maskSize (Some trie))"

definition cidr_RemoveIP :: "addr \<Rightarrow> int \<Rightarrow> 'a cidr \<Rightarrow> 'a cidr" where
  "cidr_RemoveIP ip maskSize c =
     (if Is4 ip then c\<lparr>v4CidrTrie := cidr_remove (v4CidrTrie c) (AsSlice ip) maskSize\<rparr>
      else c\<lparr>v6CidrTrie := cidr_remove (v6CidrTrie c) (AsSlice ip) maskSize\<rparr>)"

definition cidr_RemoveCIDR :: "netip_prefix \<Rightarrow> 'a cidr \<Rightarrow> 'a cidr" where
  "cidr_RemoveCIDR ipNet c =
     (let ip = pAddr ipNet in
      if Is4 ip then c\<lparr>v4CidrTrie := cidr_remove (v4CidrTrie c) (AsSlice ip) (pBits ipNet)\<rparr>
      else c\<lparr>v6CidrTrie := cidr_remove (v6CidrTrie c) (AsSlice ip) (pBits ipNet)\<rparr>)"

text \<open>\<^verbatim>\<open>To16\<close> of a slice of any other length is nil, whose loop makes no turn.\<close>

definition cidr_SearchIP :: "'a cidr \<Rightarrow> bytes \<Rightarrow> 'a list" where
  "cidr_SearchIP c ip =
     (case To4 ip of
        Some x \<Rightarrow> ctrie_Search (v4CidrTrie c) x
      | None \<Rightarrow> ctrie_Search (v6CidrTrie c) (case To16 ip of None \<Rightarrow> [] | Some x \<Rightarrow> x))"

definition cidr_Search :: "'a cidr \<Rightarrow> string \<Rightarrow> 'a list" where
  "cidr_Search c s = (case ParseIP s of None \<Rightarrow> [] | Some ip \<Rightarrow> cidr_SearchIP c ip)"

definition cidr_Clear :: "'a cidr \<Rightarrow> 'a cidr" where
  "cidr_Clear c = c\<lparr>v4CidrTrie := NewTrie, v6CidrTrie := NewTrie\<rparr>"

section \<open>Marks by path\<close>

text \<open>The marks stored under a bit path.\<close>

fun ct_at :: "'a ctrie \<Rightarrow> bool list \<Rightarrow> 'a list" where
  "ct_at t [] = ct_marks t"
| "ct_at t (b # bs) = (case ct_child b t of None \<Rightarrow> [] | Some c \<Rightarrow> ct_at c bs)"

lemma ct_simps [simp]:
  "ct_marks (ct_set_child b t c) = ct_marks t"
  "ct_child b' (ct_set_child b t c) = (if b' = b then Some c else ct_child b' t)"
  "ct_marks (ct_set_marks t ms) = ms"
  "ct_child b (ct_set_marks t ms) = ct_child b t"
  "ct_marks NewTrie = []"
  "ct_child b NewTrie = None"
  by (auto simp: ct_set_child_def ct_child_def ct_set_marks_def NewTrie_def)

lemma ct_at_NewTrie [simp]: "ct_at NewTrie q = []"
  by (cases q) simp_all

lemma ct_at_set_marks [simp]: "ct_at (ct_set_marks t ms) q = (if q = [] then ms else ct_at t q)"
  by (cases q) simp_all

lemma ct_at_insert_loop:
  "ct_at (ct_insert_loop bs n m mark t) q =
     (if q = take (nat (m - n)) bs then append_unique (ct_at t q) mark else ct_at t q)"
proof (induction bs n m mark t arbitrary: q rule: ct_insert_loop.induct)
  case (2 b bs n m mark t)
  show ?case
  proof (cases "n < m")
    case True
    then have "nat (m - n) = Suc (nat (m - (n + 1)))" by simp
    then show ?thesis using True 2 by (cases q) (auto split: option.splits)
  qed auto
qed simp

lemma ct_search_loop_None [simp]: "ct_search_loop bs None acc = acc"
  by (cases bs) simp_all

lemma ct_search_loop_eq:
  "ct_search_loop bs (Some t) acc = acc @ concat (map (ct_at t) (prefixes bs))"
proof (induction bs arbitrary: t acc)
  case (Cons b bs)
  then show ?case by (cases "ct_child b t") (simp_all add: comp_def)
qed simp

lemma ct_remove_loop_Some [simp]: "ct_remove_loop f bs n m (Some t) \<noteq> None"
  by (cases bs) (auto split: option.splits)

lemma ct_at_remove_loop:
  assumes "f [] = []"
  shows "ct_at (the (ct_remove_loop f bs n m (Some t))) q =
     (if q = take (nat (m - n)) bs then f (ct_at t q) else ct_at t q)"
proof (induction bs arbitrary: n t q)
  case (Cons b bs)
  show ?case
  proof (cases "n < m")
    case True
    then have *: "nat (m - n) = Suc (nat (m - (n + 1)))" by simp
    show ?thesis
    proof (cases "ct_child b t")
      case None
      then show ?thesis using True assms by (cases q) (auto simp: *)
    next
      case (Some c)
      obtain c' where c': "ct_remove_loop f bs (n + 1) m (Some c) = Some c'"
        using ct_remove_loop_Some by blast
      then have "ct_at c' q' = (if q' = take (nat (m - (n + 1))) bs then f (ct_at c q') else ct_at c q')" for q'
        using Cons [of "n + 1" c q'] by simp
      then show ?thesis using True Some c' by (cases q) (auto simp: *)
    qed
  qed simp
qed simp

text \<open>Families and paths of addresses; the marks of a matcher by family (IPv4 or not) and path.\<close>

definition ip_family :: "bytes \<Rightarrow> bool" where
  "ip_family ip \<longleftrightarrow> To4 ip \<noteq> None"

definition ip_path :: "bytes \<Rightarrow> bool list" where
  "ip_path ip =
     (case To4 ip of Some x \<Rightarrow> ip_bits x
      | None \<Rightarrow> (case To16 ip of Some x \<Rightarrow> ip_bits x | None \<Rightarrow> []))"

definition mask_path :: "addr \<Rightarrow> int \<Rightarrow> bool list" where
  "mask_path a n = take (nat n) (addr_bits a)"

definition cidr_at :: "'a cidr \<Rightarrow> bool \<Rightarrow> bool list \<Rightarrow> 'a list" where
  "cidr_at c v4 = ct_at (if v4 then v4CidrTrie c else v6CidrTrie c)"

lemma cidr_at_simps [go_simps]:
  "cidr_at NewCidr v4 q = []"
  "cidr_at (cidr_Clear c) v4 q = []"
  "cidr_at (cidr_InsertIP a n m c) v4 q =
     (if v4 = Is4 a \<and> q = mask_path a n then append_unique (cidr_at c v4 q) m else cidr_at c v4 q)"
  "cidr_at (cidr_RemoveIP a n c) v4 q = (if v4 = Is4 a \<and> q = mask_path a n then [] else cidr_at c v4 q)"
  by (auto simp: cidr_at_def NewCidr_def cidr_Clear_def cidr_InsertIP_def cidr_RemoveIP_def mask_path_def
      ctrie_Insert_def cidr_remove_def ct_at_insert_loop ct_at_remove_loop addr_bits_def)

lemma cidr_CIDR_IP [go_simps]:
  "cidr_InsertCIDR p m c = cidr_InsertIP (pAddr p) (pBits p) m c"
  "cidr_RemoveCIDR p c = cidr_RemoveIP (pAddr p) (pBits p) c"
  by (simp_all add: cidr_InsertCIDR_def cidr_InsertIP_def cidr_RemoveCIDR_def cidr_RemoveIP_def)

lemma cidr_SearchIP_eq [go_simps]:
  "cidr_SearchIP c ip = concat (map (cidr_at c (ip_family ip)) (prefixes (ip_path ip)))"
  by (auto simp: cidr_SearchIP_def ip_family_def ip_path_def ctrie_Search_def ct_search_loop_eq
      cidr_at_def split: option.splits)


section \<open>The contract of a CIDR matcher\<close>

text \<open>A history of calls and the set of live (prefix, mark) pairs it leaves: a removal takes out every
  pair of the same network, whatever the host bits of the prefix given.\<close>

datatype 'a cidr_op = InsertOp netip_prefix 'a | RemoveOp netip_prefix | ClearOp

fun cidr_op_valid :: "'a cidr_op \<Rightarrow> bool" where
  "cidr_op_valid (InsertOp p m) \<longleftrightarrow> prefix_IsValid p"
| "cidr_op_valid (RemoveOp p) \<longleftrightarrow> prefix_IsValid p"
| "cidr_op_valid ClearOp \<longleftrightarrow> True"

fun live_step :: "(netip_prefix \<times> 'a) set \<Rightarrow> 'a cidr_op \<Rightarrow> (netip_prefix \<times> 'a) set" where
  "live_step S (InsertOp p m) = insert (p, m) S"
| "live_step S (RemoveOp p) = {(p', m) \<in> S. prefix_Masked p' \<noteq> prefix_Masked p}"
| "live_step S ClearOp = {}"

definition live_prefixes :: "'a cidr_op list \<Rightarrow> (netip_prefix \<times> 'a) set" where
  "live_prefixes ops = foldl live_step {} ops"

text \<open>Two valid prefixes have the same masked form when they agree in family and path.\<close>

lemma mask_addr_eq_iff:
  assumes "addr_IsValid a" "addr_IsValid b"
  shows "mask_addr n a = mask_addr n b \<longleftrightarrow> same_top_bits n a b"
proof -
  have *: "push_bit k (drop_bit k v) = push_bit k (drop_bit k w) \<longleftrightarrow> drop_bit k v = drop_bit k w"
    for k and v w :: "'w::len word"
  proof -
    have "drop_bit k (push_bit k (drop_bit k v)) = drop_bit k v" for v :: "'w word"
      by (rule bit_word_eqI) (auto simp: bit_simps dest: bit_imp_le_length)
    then show ?thesis by metis
  qed
  show ?thesis using assms by (cases a; cases b) (simp_all add: *)
qed

lemma length_mask_path [simp]: "prefix_IsValid p \<Longrightarrow> length (mask_path (pAddr p) (pBits p)) = nat (pBits p)"
  by (auto simp: mask_path_def prefix_IsValid_def min_def)

lemma BitLen_eq_Is4: "addr_IsValid a \<Longrightarrow> addr_IsValid b \<Longrightarrow> BitLen a = BitLen b \<longleftrightarrow> Is4 a = Is4 b"
  by (cases a; cases b) simp_all

lemma prefix_Masked_eq_iff:
  assumes "prefix_IsValid p" "prefix_IsValid p'"
  shows "prefix_Masked p = prefix_Masked p' \<longleftrightarrow>
    Is4 (pAddr p) = Is4 (pAddr p') \<and> mask_path (pAddr p) (pBits p) = mask_path (pAddr p') (pBits p')"
    (is "_ \<longleftrightarrow> ?r")
proof -
  have v: "addr_IsValid (pAddr p)" "addr_IsValid (pAddr p')" "0 \<le> pBits p" "0 \<le> pBits p'"
    "nat (pBits p) \<le> BitLen (pAddr p)"
    using assms by (auto simp: prefix_IsValid_def)
  have bits: "?r \<Longrightarrow> pBits p = pBits p'"
    using length_mask_path [OF assms(1)] length_mask_path [OF assms(2)] v by (metis nat_eq_iff)
  have "prefix_Masked p = prefix_Masked p' \<longleftrightarrow>
      pBits p = pBits p' \<and> same_top_bits (nat (pBits p)) (pAddr p) (pAddr p')"
    using assms v mask_addr_eq_iff by (auto simp: prefix_Masked_def)
  also have "\<dots> \<longleftrightarrow> pBits p = pBits p' \<and> ?r"
    using v by (auto simp: same_top_bits_iff BitLen_eq_Is4 mask_path_def)
  finally show ?thesis using bits by blast
qed

locale cidr_matcher =
  fixes InsertCIDR :: "netip_prefix \<Rightarrow> 'a \<Rightarrow> 'c \<Rightarrow> 'c"
    and InsertIP :: "addr \<Rightarrow> int \<Rightarrow> 'a \<Rightarrow> 'c \<Rightarrow> 'c"
    and RemoveCIDR :: "netip_prefix \<Rightarrow> 'c \<Rightarrow> 'c"
    and RemoveIP :: "addr \<Rightarrow> int \<Rightarrow> 'c \<Rightarrow> 'c"
    and SearchIP :: "'c \<Rightarrow> bytes \<Rightarrow> 'a list"
    and Clear :: "'c \<Rightarrow> 'c"
    and stored :: "'c \<Rightarrow> bool \<Rightarrow> bool list \<Rightarrow> 'a set"
    and invar :: "'c \<Rightarrow> bool"
  assumes invar_ops:
      "invar c \<Longrightarrow> invar (InsertIP a n m c)"
      "invar c \<Longrightarrow> invar (RemoveIP a n c)"
      "invar c \<Longrightarrow> invar (Clear c)"
    and CIDR_IP:
      "InsertCIDR p m c = InsertIP (pAddr p) (pBits p) m c"
      "RemoveCIDR p c = RemoveIP (pAddr p) (pBits p) c"
    and stored_InsertIP: "invar c \<Longrightarrow>
      stored (InsertIP a n m c) f q = stored c f q \<union> (if f = Is4 a \<and> q = mask_path a n then {m} else {})"
    and stored_RemoveIP: "invar c \<Longrightarrow>
      stored (RemoveIP a n c) f q = (if f = Is4 a \<and> q = mask_path a n then {} else stored c f q)"
    and stored_Clear: "invar c \<Longrightarrow> stored (Clear c) f q = {}"
    and set_SearchIP: "invar c \<Longrightarrow>
      set (SearchIP c ip) = (\<Union>q \<in> set (prefixes (ip_path ip)). stored c (ip_family ip) q)"
begin

definition run_op :: "'c \<Rightarrow> 'a cidr_op \<Rightarrow> 'c" where
  "run_op c o1 = (case o1 of InsertOp p m \<Rightarrow> InsertCIDR p m c | RemoveOp p \<Rightarrow> RemoveCIDR p c | ClearOp \<Rightarrow> Clear c)"

definition holds_set :: "'c \<Rightarrow> (netip_prefix \<times> 'a) set \<Rightarrow> bool" where
  "holds_set c S \<longleftrightarrow> invar c \<and> (\<forall>(p, m) \<in> S. prefix_IsValid p) \<and>
     (\<forall>f q. stored c f q = {m. \<exists>p. (p, m) \<in> S \<and> Is4 (pAddr p) = f \<and> mask_path (pAddr p) (pBits p) = q})"

lemma holds_set_step:
  assumes h: "holds_set c S" and v: "cidr_op_valid o1"
  shows "holds_set (run_op c o1) (live_step S o1)"
proof (cases o1)
  case (InsertOp p m)
  then show ?thesis using h v
    by (auto simp: holds_set_def run_op_def CIDR_IP invar_ops stored_InsertIP)
next
  case (RemoveOp p)
  then have p: "prefix_IsValid p" using v by simp
  have "(p', m) \<in> S \<Longrightarrow> prefix_Masked p' = prefix_Masked p \<longleftrightarrow>
      Is4 (pAddr p') = Is4 (pAddr p) \<and> mask_path (pAddr p') (pBits p') = mask_path (pAddr p) (pBits p)" for p' m
    using h p by (intro prefix_Masked_eq_iff) (auto simp: holds_set_def)
  then show ?thesis using h RemoveOp
    by (auto simp: holds_set_def run_op_def CIDR_IP invar_ops stored_RemoveIP)
next
  case ClearOp
  then show ?thesis using h by (auto simp: holds_set_def run_op_def invar_ops stored_Clear)
qed

lemma holds_set_run:
  "holds_set c S \<Longrightarrow> \<forall>o1 \<in> set ops. cidr_op_valid o1 \<Longrightarrow> holds_set (foldl run_op c ops) (foldl live_step S ops)"
  by (induction ops arbitrary: c S) (auto simp: holds_set_step)

lemma search_holds_set:
  assumes h: "holds_set c S" and a: "addr_IsValid a"
  shows "set (SearchIP c (AsSlice a)) = {m. \<exists>p. (p, m) \<in> S \<and> prefix_Contains p (Unmap a)}"
proof -
  have fam: "ip_family (AsSlice a) = Is4 (Unmap a)"
    by (simp add: ip_family_def To4_AsSlice del: Unmap_not_4)
  have path: "ip_path (AsSlice a) = addr_bits (Unmap a)"
    using a by (cases a) (auto simp: ip_path_def To4_AsSlice addr_bits_def simp del: addr_bits_simps AsSlice.simps)
  have contains: "(p, m) \<in> S \<Longrightarrow> prefix_Contains p (Unmap a) \<longleftrightarrow>
      Is4 (pAddr p) = Is4 (Unmap a) \<and> prefix (mask_path (pAddr p) (pBits p)) (addr_bits (Unmap a))" for p m
    using h a by (auto simp: holds_set_def prefix_Contains_bits mask_path_def prefix_IsValid_def
        BitLen_eq_Is4 [of "pAddr p" "Unmap a"])
  have inv: "invar c"
    and st: "stored c f q = {m. \<exists>p. (p, m) \<in> S \<and> Is4 (pAddr p) = f \<and> mask_path (pAddr p) (pBits p) = q}" for f q
    using h by (simp_all add: holds_set_def)
  show ?thesis
    unfolding set_SearchIP [OF inv] st fam path
    by (rule set_eqI, simp only: UN_iff mem_Collect_eq in_set_prefixes Bex_def) (use contains in blast)
qed

lemma search_after_history:
  assumes "invar c" "\<And>f q. stored c f q = {}" "\<forall>o1 \<in> set ops. cidr_op_valid o1" "addr_IsValid a"
  shows "set (SearchIP (foldl run_op c ops) (AsSlice a)) =
    {m. \<exists>p. (p, m) \<in> live_prefixes ops \<and> prefix_Contains p (Unmap a)}"
proof -
  have "holds_set c {}" using assms by (simp add: holds_set_def)
  then show ?thesis
    unfolding live_prefixes_def using assms by (intro search_holds_set holds_set_run)
qed

end

interpretation mem: cidr_matcher cidr_InsertCIDR cidr_InsertIP cidr_RemoveCIDR cidr_RemoveIP cidr_SearchIP
  cidr_Clear "\<lambda>c f q. set (cidr_at c f q)" "\<lambda>_. True"
  by unfold_locales (auto simp: go_simps set_append_unique)


section \<open>Histories of the in-memory matcher\<close>

fun cidr_step :: "'a cidr \<Rightarrow> 'a cidr_op \<Rightarrow> 'a cidr" where
  "cidr_step c (InsertOp p m) = cidr_InsertCIDR p m c"
| "cidr_step c (RemoveOp p) = cidr_RemoveCIDR p c"
| "cidr_step c ClearOp = cidr_Clear c"

lemma mem_run_op: "mem.run_op = cidr_step"
  by (auto simp: fun_eq_iff mem.run_op_def split: cidr_op.splits)

text \<open>C11: After any sequence of InsertCIDR, RemoveCIDR and Clear calls with valid prefixes on a new
  matcher, SearchIP of an address returns exactly the marks of the live prefixes that contain the
  address, an IPv4-mapped IPv6 address being looked up as the IPv4 address.\<close>

theorem cidr_search_history:
  assumes "\<forall>o1 \<in> set ops. cidr_op_valid o1" and "addr_IsValid a"
  shows "set (cidr_SearchIP (foldl cidr_step NewCidr ops) (AsSlice a)) =
    {m. \<exists>p. (p, m) \<in> live_prefixes ops \<and> prefix_Contains p (Unmap a)}"
  using mem.search_after_history [of NewCidr ops a] assms by (simp add: go_simps mem_run_op)

theorem cidr_search_history_witness:
  "set (cidr_SearchIP (foldl cidr_step NewCidr
       [InsertOp \<lparr>pAddr = Addr4 0x0a000000, pBits = 8\<rparr> ''lan'', InsertOp \<lparr>pAddr = Addr4 0x0a010000, pBits = 16\<rparr> ''dc'',
        RemoveOp \<lparr>pAddr = Addr4 0x0a00ffff, pBits = 8\<rparr>]) (AsSlice (Addr4 0x0a010203))) =
   {m. \<exists>p. (p, m) \<in> live_prefixes
       [InsertOp \<lparr>pAddr = Addr4 0x0a000000, pBits = 8\<rparr> ''lan'', InsertOp \<lparr>pAddr = Addr4 0x0a010000, pBits = 16\<rparr> ''dc'',
        RemoveOp \<lparr>pAddr = Addr4 0x0a00ffff, pBits = 8\<rparr>] \<and> prefix_Contains p (Unmap (Addr4 0x0a010203))}"
  by (rule cidr_search_history) (simp_all add: prefix_IsValid_def)

text \<open>SearchIP returns the marks in the order of the prefix lengths, the shortest first, and within
  one prefix in insertion order.\<close>

theorem cidr_search_order:
  "cidr_SearchIP c ip = concat (map (\<lambda>n. cidr_at c (ip_family ip) (take n (ip_path ip))) [0..<length (ip_path ip) + 1])"
proof -
  have "prefixes xs = map (\<lambda>n. take n xs) [0..<length xs + 1]" for xs :: "bool list"
    by (induction xs) (simp_all add: map_upt_Suc del: upt_Suc)
  then show ?thesis by (simp add: go_simps comp_def del: upt_Suc)
qed

end
