(* ===== verification/Fqdn_Reader.thy ===== *)
theory Fqdn_Reader
  imports Prelude
begin

text \<open>
  The label reader of the domain tries (\<^verbatim>\<open>pkg/net/trie/v2/domain/reader.go\<close>): a cursor that yields the
  labels of a name from the last to the first, an empty label read as the byte 0x03. The operations
  are on the cursor fields as in the code; \<open>rd_array_split\<close> relates them to splitting the name.
\<close>

section \<open>The cursor\<close>

record fqdnReader =
  rdomain :: string
  aft :: int
  pre :: int
  separate :: char

text \<open>\<^verbatim>\<open>strings.LastIndexByte\<close>: the position of the last occurrence, or -1.\<close>

definition LastIndexByte :: "string \<Rightarrow> char \<Rightarrow> int" where
  "LastIndexByte s c = int (length s) - int (length (takeWhile (\<lambda>x. x \<noteq> c) (rev s))) - 1"

definition newReader :: "string \<Rightarrow> char \<Rightarrow> fqdnReader" where
  "newReader d c = \<lparr>rdomain = d, aft = int (length d), pre = LastIndexByte d c + 1, separate = c\<rparr>"

definition newFqdnReader :: "string \<Rightarrow> fqdnReader" where
  "newFqdnReader d = newReader d (CHR ''.'')"

definition rd_hasNext :: "fqdnReader \<Rightarrow> bool" where
  "rd_hasNext r \<longleftrightarrow> aft r \<ge> 0"

definition rd_next :: "fqdnReader \<Rightarrow> bool \<times> fqdnReader" where
  "rd_next r =
     (let r1 = r\<lparr>aft := pre r - 1\<rparr> in
      if aft r1 < 0 then (False, r1)
      else (True, r1\<lparr>pre := LastIndexByte (take (nat (aft r1)) (rdomain r1)) (separate r1) + 1\<rparr>))"

definition valueEmpty :: string where
  "valueEmpty = [CHR 0x03]"

definition rd_str :: "fqdnReader \<Rightarrow> string" where
  "rd_str r =
     (if pre r = aft r then valueEmpty else take (nat (aft r - pre r)) (drop (nat (pre r)) (rdomain r)))"

definition rd_reset :: "fqdnReader \<Rightarrow> fqdnReader" where
  "rd_reset r = r\<lparr>aft := int (length (rdomain r)), pre := LastIndexByte (rdomain r) (separate r) + 1\<rparr>"

section \<open>Every loop over the cursor ends\<close>

definition rd_left :: "fqdnReader \<Rightarrow> nat" where
  "rd_left r = (if aft r < 0 then 0 else if pre r \<le> aft r then nat (aft r + 1) else nat (pre r) + nat (aft r) + 2)"

lemma LastIndexByte_bounds: "-1 \<le> LastIndexByte s c" "LastIndexByte s c < int (length s)"
  using length_takeWhile_le [of "\<lambda>x. x \<noteq> c" "rev s"] by (auto simp: LastIndexByte_def)

lemma rd_next_decreases [simp, termination_simp]:
  assumes "rd_hasNext r"
  shows "rd_left (snd (rd_next r)) < rd_left r"
proof -
  let ?d = "take (nat (pre r - 1)) (rdomain r)"
  have "LastIndexByte ?d (separate r) + 1 \<le> int (length ?d)"
    using LastIndexByte_bounds(2) [of ?d "separate r"] by simp
  then show ?thesis
    using assms by (auto simp: rd_left_def rd_next_def rd_hasNext_def Let_def)
qed

function rd_array_loop :: "fqdnReader \<Rightarrow> string list \<Rightarrow> string list" where
  "rd_array_loop r b = (if rd_hasNext r then rd_array_loop (snd (rd_next r)) (b @ [rd_str r]) else b)"
  by auto
termination by (relation "measure (\<lambda>(r, _). rd_left r)") auto

declare rd_array_loop.simps [simp del]

definition rd_array :: "fqdnReader \<Rightarrow> string list \<Rightarrow> string list \<times> fqdnReader" where
  "rd_array r b = (rd_array_loop r b, rd_reset r)"

section \<open>The labels of a name\<close>

text \<open>The labels the cursor has left, and the labels of a name by splitting it.\<close>

function rd_labels :: "fqdnReader \<Rightarrow> string list" where
  "rd_labels r = (if rd_hasNext r then rd_str r # rd_labels (snd (rd_next r)) else [])"
  by auto
termination by (relation "measure rd_left") auto

declare rd_labels.simps [simp del]

lemma rd_array_loop_eq: "rd_array_loop r b = b @ rd_labels r"
  by (induction r b rule: rd_array_loop.induct) (subst rd_array_loop.simps, subst rd_labels.simps, simp)

fun split_on :: "char \<Rightarrow> string \<Rightarrow> string list" where
  "split_on c [] = [[]]"
| "split_on c (x # xs) =
     (if x = c then [] # split_on c xs
      else case split_on c xs of [] \<Rightarrow> [[x]] | y # ys \<Rightarrow> (x # y) # ys)"

definition label_of :: "string \<Rightarrow> string" where
  "label_of l = (if l = [] then valueEmpty else l)"

definition labels :: "char \<Rightarrow> string \<Rightarrow> string list" where
  "labels c d = map label_of (rev (split_on c d))"

lemma split_on_not_Nil [simp]: "split_on c s \<noteq> []"
  by (induction s) (auto split: list.splits)

lemma split_on_no_sep: "c \<notin> set s \<Longrightarrow> split_on c s = [s]"
  by (induction s) auto

lemma split_on_append: "c \<notin> set v \<Longrightarrow> split_on c (u @ c # v) = split_on c u @ [v]"
  by (induction u) (auto simp: split_on_no_sep split: list.splits)

lemma LastIndexByte_no_sep: "c \<notin> set s \<Longrightarrow> LastIndexByte s c = -1"
proof -
  assume "c \<notin> set s"
  then have "takeWhile (\<lambda>x. x \<noteq> c) (rev s) = rev s" by (auto simp: takeWhile_eq_all_conv)
  then show ?thesis by (simp only: LastIndexByte_def length_rev)
qed

lemma LastIndexByte_append: "c \<notin> set v \<Longrightarrow> LastIndexByte (u @ c # v) c = int (length u)"
proof -
  assume "c \<notin> set v"
  then have "takeWhile (\<lambda>x. x \<noteq> c) (rev (u @ c # v)) = rev v"
    by (simp add: takeWhile_append takeWhile_eq_all_conv)
  then show ?thesis by (simp add: LastIndexByte_def)
qed

lemma labels_unfold:
  "c \<notin> set s \<Longrightarrow> labels c s = [label_of s]"
  "c \<notin> set v \<Longrightarrow> labels c (u @ c # v) = label_of v # labels c u"
  by (simp_all add: labels_def split_on_no_sep split_on_append)

text \<open>A cursor at position \<open>n\<close> reads the labels of the first \<open>n\<close> characters.\<close>

definition rd_at :: "string \<Rightarrow> char \<Rightarrow> nat \<Rightarrow> fqdnReader" where
  "rd_at d c n = \<lparr>rdomain = d, aft = int n, pre = LastIndexByte (take n d) c + 1, separate = c\<rparr>"

lemma rd_labels_at: "n \<le> length d \<Longrightarrow> rd_labels (rd_at d c n) = labels c (take n d)"
proof (induction n rule: less_induct)
  case (less n)
  show ?case
  proof (cases "c \<in> set (take n d)")
    case False
    then have p: "pre (rd_at d c n) = 0" by (simp add: rd_at_def LastIndexByte_no_sep)
    then have "rd_str (rd_at d c n) = label_of (take n d)"
      using less.prems by (auto simp: rd_str_def label_of_def rd_at_def)
    moreover have "\<not> rd_hasNext (snd (rd_next (rd_at d c n)))"
      using p by (simp add: rd_next_def rd_hasNext_def)
    ultimately show ?thesis
      using False by (subst rd_labels.simps, subst rd_labels.simps) (simp add: labels_unfold rd_hasNext_def rd_at_def)
  next
    case True
    then obtain u v where uv: "take n d = u @ c # v" "c \<notin> set v" by (metis split_list_last)
    have len: "length u + length v + 1 = n" using uv(1) less.prems by (metis length_take length_append
        length_Cons add.assoc add_Suc_right min_absorb2 Suc_eq_plus1)
    have p: "pre (rd_at d c n) = int (length u) + 1" by (simp add: rd_at_def uv LastIndexByte_append)
    have "take (length u) d = take (length u) (take n d)" using len by simp
    then have u: "take (length u) d = u" by (simp add: uv)
    have "drop (length u + 1) (take n d) = v" by (simp add: uv)
    then have v: "take (n - (length u + 1)) (drop (length u + 1) d) = v" by (simp only: drop_take)
    have "rd_str (rd_at d c n) = label_of v"
      using p v len by (auto simp: rd_str_def label_of_def rd_at_def nat_add_distrib nat_diff_distrib)
    moreover have "snd (rd_next (rd_at d c n)) = rd_at d c (length u)"
      using p by (simp add: rd_next_def rd_at_def)
    moreover have "rd_hasNext (rd_at d c n)" by (simp add: rd_hasNext_def rd_at_def)
    ultimately show ?thesis
      using less.IH [of "length u"] less.prems len uv u
      by (subst rd_labels.simps) (simp add: labels_unfold)
  qed
qed

lemma rd_labels_newReader [simp]: "rd_labels (newReader d c) = labels c d"
  using rd_labels_at [of "length d" d c] by (simp add: rd_at_def newReader_def)

text \<open>The array of a fresh reader is the list of labels between separators, the last label first, an
  empty label read as 0x03; the reader is left as new, so it can be read again.\<close>

theorem rd_array_split:
  "rd_array (newReader d c) b = (b @ map label_of (rev (split_on c d)), newReader d c)"
proof -
  have "rd_reset (newReader d c) = newReader d c" by (simp add: rd_reset_def newReader_def)
  then show ?thesis by (simp add: rd_array_def rd_array_loop_eq labels_def)
qed

end
