(* ===== verification/Domain_Trie.thy ===== *)
theory Domain_Trie
  imports Fqdn_Reader
begin

text \<open>
  The in-memory domain trie of v2 (\<^verbatim>\<open>pkg/net/trie/v2/domain/memory.go\<close> and the type \<^verbatim>\<open>Fqdn\<close> of \<^verbatim>\<open>fqdn.go\<close>):
  nodes keyed by labels from the top-level label down, with the label \<^verbatim>\<open>*\<close> as the wildcard. The locale
  \<open>domain_matcher\<close> is the contract of the Go interface \<^verbatim>\<open>domain.Trie\<close>.
\<close>

section \<open>Nodes\<close>

text \<open>The map \<^verbatim>\<open>Child\<close> is an association list; a nil map and an empty one behave alike.\<close>

datatype 'a dtrie = DTrie (dt_Child: "(string \<times> 'a dtrie) list") (dt_Value: "'a list")

definition dt_empty :: "'a dtrie" where
  "dt_empty = DTrie [] []"

text \<open>\<^verbatim>\<open>child(s, false)\<close>, and the node \<^verbatim>\<open>child(s, true)\<close> returns.\<close>

definition dt_child :: "string \<Rightarrow> 'a dtrie \<Rightarrow> 'a dtrie option" where
  "dt_child s d = map_of (dt_Child d) s"

definition dt_child_insert :: "string \<Rightarrow> 'a dtrie \<Rightarrow> 'a dtrie" where
  "dt_child_insert s d = (case dt_child s d of None \<Rightarrow> dt_empty | Some c \<Rightarrow> c)"

definition dt_put :: "string \<Rightarrow> 'a dtrie \<Rightarrow> 'a dtrie \<Rightarrow> 'a dtrie" where
  "dt_put s c d = DTrie (AList.update s c (dt_Child d)) (dt_Value d)"

definition dt_delete :: "string \<Rightarrow> 'a dtrie \<Rightarrow> 'a dtrie" where
  "dt_delete s d = DTrie (AList.delete s (dt_Child d)) (dt_Value d)"

section \<open>Insert, search and remove\<close>

function dt_insert :: "'a dtrie \<Rightarrow> fqdnReader \<Rightarrow> 'a \<Rightarrow> 'a dtrie" where
  "dt_insert node z mark =
     (if rd_hasNext z then dt_put (rd_str z) (dt_insert (dt_child_insert (rd_str z) node) (snd (rd_next z)) mark) node
      else DTrie (dt_Child node) (append_unique (dt_Value node) mark))"
  by auto
termination by (relation "measure (\<lambda>(_, z, _). rd_left z)") auto

declare dt_insert.simps [simp del]

definition star :: string where
  "star = ''*''"

definition dt_star_values :: "'a dtrie \<Rightarrow> 'a list" where
  "dt_star_values root = (case dt_child star root of None \<Rightarrow> [] | Some r \<Rightarrow> dt_Value r)"

text \<open>The loop at the label \<^verbatim>\<open>_second\<close>: \<open>root\<close> is the node of the label the cursor stands on.\<close>

lemma rd_next_pre:
  assumes "fst (rd_next z)"
  shows "nat (pre (snd (rd_next z))) < nat (pre z)"
proof -
  let ?d = "take (nat (pre z - 1)) (rdomain z)"
  have "LastIndexByte ?d (separate z) + 1 \<le> int (length ?d)"
    using LastIndexByte_bounds(2) [of ?d "separate z"] by simp
  then show ?thesis using assms by (auto simp: rd_next_def Let_def split: if_splits)
qed

function dt_second :: "'a dtrie \<Rightarrow> fqdnReader \<Rightarrow> 'a list \<Rightarrow> 'a list" where
  "dt_second root z res =
     (if fst (rd_next z) then
        let z' = snd (rd_next z); res' = res @ dt_star_values root in
        case dt_child (rd_str z') root of
          None \<Rightarrow> res'
        | Some r \<Rightarrow> dt_second r z' res'
      else res @ dt_Value root @ dt_star_values root)"
  by auto
termination by (relation "measure (\<lambda>(_, z, _). nat (pre z))") (auto dest: rd_next_pre)

declare dt_second.simps [simp del]

text \<open>The loop of the wildcard search, \<open>root\<close> being the node of the top-level wildcard.\<close>

function dt_wild :: "'a dtrie \<Rightarrow> fqdnReader \<Rightarrow> 'a list" where
  "dt_wild root z =
     (if rd_hasNext z then
        case dt_child (rd_str z) root of
          Some r \<Rightarrow> dt_second r z []
        | None \<Rightarrow> dt_wild root (snd (rd_next z))
      else [])"
  by auto
termination by (relation "measure (\<lambda>(_, z). rd_left z)") auto

declare dt_wild.simps [simp del]

definition dt_search :: "'a dtrie \<Rightarrow> fqdnReader \<Rightarrow> 'a list" where
  "dt_search root z =
     (case dt_child (rd_str z) root of
        Some r \<Rightarrow> dt_second r z []
      | None \<Rightarrow>
          (case dt_child star root of
             None \<Rightarrow> []
           | Some w \<Rightarrow> dt_wild w z))"

text \<open>
  The removal; \<open>None\<close> is the early return at a missing label. The second loop of the code walks the
  visited nodes from the last one up and deletes a node left without values and children from its
  parent; it stops at the first node it keeps, whose ancestors keep that child and so are kept too.
\<close>

function dt_remove :: "'a dtrie \<Rightarrow> fqdnReader \<Rightarrow> 'a \<Rightarrow> 'a dtrie option" where
  "dt_remove node z mark =
     (if rd_hasNext z then
        case dt_child (rd_str z) node of
          None \<Rightarrow> None
        | Some c \<Rightarrow>
            (case dt_remove c (snd (rd_next z)) mark of
               None \<Rightarrow> None
             | Some c' \<Rightarrow>
                 Some (if dt_Child c' = [] \<and> dt_Value c' = [] then dt_delete (rd_str z) node
                       else dt_put (rd_str z) c' node))
      else Some (DTrie (dt_Child node) (remove1 mark (dt_Value node))))"
  by auto
termination by (relation "measure (\<lambda>(_, z, _). rd_left z)") auto

declare dt_remove.simps [simp del]

section \<open>The matcher Fqdn\<close>

record 'a fqdn =
  fRoot :: "'a dtrie"
  fseparate :: char

definition fqdn_NewTrie :: "'a fqdn" where
  "fqdn_NewTrie = \<lparr>fRoot = dt_empty, fseparate = CHR ''.''\<rparr>"

definition fqdn_Insert :: "string \<Rightarrow> 'a \<Rightarrow> 'a fqdn \<Rightarrow> 'a fqdn" where
  "fqdn_Insert d mark t =
     (if length d = 0 then t
      else t\<lparr>fRoot := dt_insert (fRoot t) (newReader d (fseparate t)) mark\<rparr>)"

fun fqdn_Batch :: "(string \<times> 'a) list \<Rightarrow> 'a fqdn \<Rightarrow> 'a fqdn" where
  "fqdn_Batch [] t = t"
| "fqdn_Batch ((k, v) # kvs) t = fqdn_Batch kvs (fqdn_Insert k v t)"

definition fqdn_SearchString :: "'a fqdn \<Rightarrow> string \<Rightarrow> 'a list" where
  "fqdn_SearchString t d = dt_search (fRoot t) (newReader d (fseparate t))"

definition fqdn_Remove :: "string \<Rightarrow> 'a \<Rightarrow> 'a fqdn \<Rightarrow> 'a fqdn" where
  "fqdn_Remove d mark t =
     (if length d = 0 then t
      else case dt_remove (fRoot t) (newReader d (fseparate t)) mark of
          None \<Rightarrow> t
        | Some r \<Rightarrow> t\<lparr>fRoot := r\<rparr>)"

definition fqdn_Clear :: "'a fqdn \<Rightarrow> 'a fqdn" where
  "fqdn_Clear t = t\<lparr>fRoot := dt_empty\<rparr>"

definition fqdn_SetSeparate :: "char \<Rightarrow> 'a fqdn \<Rightarrow> 'a fqdn" where
  "fqdn_SetSeparate b t = t\<lparr>fseparate := b\<rparr>"

section \<open>The cursor loops as recursions over labels\<close>

fun ins :: "'a dtrie \<Rightarrow> string list \<Rightarrow> 'a \<Rightarrow> 'a dtrie" where
  "ins t [] m = DTrie (dt_Child t) (append_unique (dt_Value t) m)"
| "ins t (l # ls) m = dt_put l (ins (dt_child_insert l t) ls m) t"

fun second :: "'a dtrie \<Rightarrow> string list \<Rightarrow> 'a list" where
  "second t [] = dt_Value t @ dt_star_values t"
| "second t (l # ls) = dt_star_values t @ (case dt_child l t of None \<Rightarrow> [] | Some r \<Rightarrow> second r ls)"

fun wild :: "'a dtrie \<Rightarrow> string list \<Rightarrow> 'a list" where
  "wild w [] = []"
| "wild w (l # ls) = (case dt_child l w of Some r \<Rightarrow> second r ls | None \<Rightarrow> wild w ls)"

fun rem :: "'a dtrie \<Rightarrow> string list \<Rightarrow> 'a \<Rightarrow> 'a dtrie option" where
  "rem t [] m = Some (DTrie (dt_Child t) (remove1 m (dt_Value t)))"
| "rem t (l # ls) m =
     (case dt_child l t of
        None \<Rightarrow> None
      | Some c \<Rightarrow>
          (case rem c ls m of
             None \<Rightarrow> None
           | Some c' \<Rightarrow> Some (if dt_Child c' = [] \<and> dt_Value c' = [] then dt_delete l t else dt_put l c' t)))"

lemma rd_labels_Cons: "rd_hasNext z \<Longrightarrow> rd_labels z = rd_str z # rd_labels (snd (rd_next z))"
  by (subst rd_labels.simps) simp

lemma rd_labels_Nil: "\<not> rd_hasNext z \<Longrightarrow> rd_labels z = []"
  by (subst rd_labels.simps) simp

lemma fst_rd_next: "fst (rd_next z) \<longleftrightarrow> rd_hasNext (snd (rd_next z))"
  by (simp add: rd_next_def rd_hasNext_def Let_def)

lemma dt_insert_eq: "dt_insert t z m = ins t (rd_labels z) m"
  by (induction t z m rule: dt_insert.induct)
    (subst dt_insert.simps, auto simp: rd_labels_Cons rd_labels_Nil)

lemma dt_second_eq: "dt_second t z res = res @ second t (rd_labels (snd (rd_next z)))"
  by (induction t z res rule: dt_second.induct)
    (subst dt_second.simps, auto simp: fst_rd_next rd_labels_Cons rd_labels_Nil Let_def split: option.splits)

lemma dt_wild_eq: "dt_wild t z = wild t (rd_labels z)"
  by (induction t z rule: dt_wild.induct)
    (subst dt_wild.simps, auto simp: rd_labels_Cons rd_labels_Nil dt_second_eq split: option.splits)

lemma dt_search_eq:
  "rd_hasNext z \<Longrightarrow> dt_search t z =
     (case dt_child (rd_str z) t of
        Some r \<Rightarrow> second r (rd_labels (snd (rd_next z)))
      | None \<Rightarrow> (case dt_child star t of None \<Rightarrow> [] | Some w \<Rightarrow> wild w (rd_labels z)))"
  by (simp add: dt_search_def dt_second_eq dt_wild_eq split: option.splits)

lemma dt_remove_eq: "dt_remove t z m = rem t (rd_labels z) m"
  by (induction t z m rule: dt_remove.induct)
    (subst dt_remove.simps, auto simp: rd_labels_Cons rd_labels_Nil split: option.splits)


section \<open>Marks by label path\<close>

fun dt_at :: "'a dtrie \<Rightarrow> string list \<Rightarrow> 'a list" where
  "dt_at t [] = dt_Value t"
| "dt_at t (l # ls) = (case dt_child l t of None \<Rightarrow> [] | Some c \<Rightarrow> dt_at c ls)"

lemma dt_simps [simp]:
  "dt_child l' (dt_put l c t) = (if l' = l then Some c else dt_child l' t)"
  "dt_child l' (dt_delete l t) = (if l' = l then None else dt_child l' t)"
  "dt_Value (dt_put l c t) = dt_Value t"
  "dt_Value (dt_delete l t) = dt_Value t"
  "dt_child l (DTrie (dt_Child t) v) = dt_child l t"
  "dt_child l dt_empty = None"
  "dt_Value dt_empty = []"
  by (auto simp: dt_child_def dt_put_def dt_delete_def dt_empty_def update_conv delete_conv)

lemma dt_at_empty [simp]: "dt_at dt_empty q = []"
  by (cases q) simp_all

lemma dt_at_child_insert [simp]: "dt_at (dt_child_insert l t) ls = dt_at t (l # ls)"
  by (simp add: dt_child_insert_def split: option.splits)

lemma dt_at_set_value [simp]: "dt_at (DTrie (dt_Child t) v) q = (if q = [] then v else dt_at t q)"
  by (cases q) simp_all

lemma dt_at_ins:
  "dt_at (ins t ls m) q = (if q = ls then append_unique (dt_at t q) m else dt_at t q)"
proof (induction ls arbitrary: t q)
  case (Cons l ls)
  then show ?case by (cases q) auto
qed simp

lemma dt_at_bare: "dt_Child c = [] \<Longrightarrow> dt_Value c = [] \<Longrightarrow> dt_at c q = []"
  by (cases q) (simp_all add: dt_child_def)

lemma dt_at_rem:
  "rem t ls m = Some t' \<Longrightarrow> dt_at t' q = (if q = ls then remove1 m (dt_at t q) else dt_at t q)"
proof (induction ls arbitrary: t t' q)
  case (Cons l ls)
  then obtain c c' where c: "dt_child l t = Some c" "rem c ls m = Some c'"
    "t' = (if dt_Child c' = [] \<and> dt_Value c' = [] then dt_delete l t else dt_put l c' t)"
    by (auto split: option.splits)
  show ?case
  proof (cases q)
    case (Cons x xs)
    then show ?thesis using c Cons.IH [OF c(2), of xs] dt_at_bare [of c' xs] by auto
  qed (use c in simp)
qed auto

lemma dt_at_rem_None: "rem t ls m = None \<Longrightarrow> dt_at t ls = []"
  by (induction ls arbitrary: t) (auto split: option.splits)

section \<open>Well-formed tries\<close>

text \<open>No mark is stored twice at a node, and every node below the root is used: it has a value or a child.\<close>

fun dt_wf :: "'a dtrie \<Rightarrow> bool" where
  "dt_wf (DTrie ch v) \<longleftrightarrow>
     distinct v \<and> (\<forall>(k, c) \<in> set ch. dt_wf c \<and> (dt_Child c \<noteq> [] \<or> dt_Value c \<noteq> []))"

lemma dt_wf_iff:
  "dt_wf t \<longleftrightarrow> distinct (dt_Value t) \<and>
     (\<forall>(k, c) \<in> set (dt_Child t). dt_wf c \<and> (dt_Child c \<noteq> [] \<or> dt_Value c \<noteq> []))"
  by (cases t) simp

lemma dt_wf_child:
  "dt_wf t \<Longrightarrow> dt_child l t = Some c \<Longrightarrow> dt_wf c \<and> (dt_Child c \<noteq> [] \<or> dt_Value c \<noteq> [])"
  by (auto simp: dt_wf_iff [of t] dt_child_def dest: map_of_SomeD)

lemma set_alist_update: "set (AList.update k v al) \<subseteq> insert (k, v) (set al)"
  by (induction al) auto

lemma set_alist_delete: "set (AList.delete k al) \<subseteq> set al"
  by (auto simp: AList.delete_eq)

lemma alist_update_not_Nil [simp]: "AList.update k v al \<noteq> []"
  by (cases al) auto

lemma dt_wf_put:
  assumes "dt_wf t" "dt_wf c" "dt_Child c \<noteq> [] \<or> dt_Value c \<noteq> []"
  shows "dt_wf (dt_put l c t)"
  using assms set_alist_update [of l c "dt_Child t"] by (auto simp: dt_put_def dt_wf_iff [of t])

lemma dt_wf_delete: "dt_wf t \<Longrightarrow> dt_wf (dt_delete l t)"
  using set_alist_delete [of l "dt_Child t"] by (auto simp: dt_delete_def dt_wf_iff [of t])

lemma dt_wf_empty [simp]: "dt_wf dt_empty"
  by (simp add: dt_empty_def)

lemma append_unique_not_Nil [simp]: "append_unique xs x \<noteq> []"
  by (auto simp: append_unique_def)

lemma ins_used: "dt_Child (ins t ls m) \<noteq> [] \<or> dt_Value (ins t ls m) \<noteq> []"
  by (cases ls) (simp_all add: dt_put_def)

lemma dt_wf_ins: "dt_wf t \<Longrightarrow> dt_wf (ins t ls m)"
proof (induction ls arbitrary: t)
  case Nil
  then show ?case by (simp add: dt_wf_iff [of t] distinct_append_unique)
next
  case (Cons l ls)
  have "dt_wf (dt_child_insert l t)"
    using Cons.prems dt_wf_child [of t l] by (auto simp: dt_child_insert_def split: option.splits)
  then show ?case using Cons ins_used [of "dt_child_insert l t" ls m] by (auto intro!: dt_wf_put)
qed

lemma dt_wf_rem: "dt_wf t \<Longrightarrow> rem t ls m = Some t' \<Longrightarrow> dt_wf t'"
proof (induction ls arbitrary: t t')
  case Nil
  then show ?case by (auto simp: dt_wf_iff [of t])
next
  case (Cons l ls)
  then show ?case
    by (auto split: option.splits if_splits intro!: dt_wf_put dt_wf_delete dest: dt_wf_child)
qed

text \<open>In a well-formed trie a used node has a mark at or below it.\<close>

lemma dt_used_has_mark:
  "dt_wf t \<Longrightarrow> dt_Child t \<noteq> [] \<or> dt_Value t \<noteq> [] \<Longrightarrow> \<exists>q. dt_at t q \<noteq> []"
proof (induction t)
  case (DTrie ch v)
  show ?case
  proof (cases "v = []")
    case True
    then obtain k c cs where ch: "ch = (k, c) # cs" using DTrie.prems by (cases ch) auto
    then have "\<exists>q. dt_at c q \<noteq> []" using DTrie.prems by (intro DTrie.IH [of "(k, c)" c]) auto
    then obtain q where "dt_at c q \<noteq> []" by blast
    then have "dt_at (DTrie ch v) (k # q) \<noteq> []" by (simp add: dt_child_def ch)
    then show ?thesis by blast
  next
    case False
    then have "dt_at (DTrie ch v) [] \<noteq> []" by simp
    then show ?thesis by blast
  qed
qed

lemma dt_child_iff_mark:
  "dt_wf t \<Longrightarrow> dt_child l t \<noteq> None \<longleftrightarrow> (\<exists>q. dt_at t (l # q) \<noteq> [])"
  using dt_wf_child dt_used_has_mark by (force split: option.splits)


section \<open>What a search means\<close>

text \<open>
  The meaning of a search over a set of stored patterns, each a label path from the top-level label
  down. A pattern that ends in the wildcard matches its own parent name and everything below it. The
  top-level wildcard is used only when no pattern starts with the top-level label of the name; it
  then stands for the labels up to the first one some pattern has after the wildcard.
\<close>

definition has_below :: "(string list \<times> 'a) set \<Rightarrow> string list \<Rightarrow> bool" where
  "has_below P p \<longleftrightarrow> (\<exists>q m. (p @ q, m) \<in> P)"

definition collect :: "(string list \<times> 'a) set \<Rightarrow> string list \<Rightarrow> string list \<Rightarrow> 'a set" where
  "collect P p ls = {m. (p @ ls, m) \<in> P \<or> (\<exists>q. prefix q ls \<and> (p @ q @ [star], m) \<in> P)}"

fun wild_match :: "(string list \<times> 'a) set \<Rightarrow> string list \<Rightarrow> 'a set" where
  "wild_match P [] = {}"
| "wild_match P (l # ls) = (if has_below P [star, l] then collect P [star, l] ls else wild_match P ls)"

definition domain_match :: "(string list \<times> 'a) set \<Rightarrow> string list \<Rightarrow> 'a set" where
  "domain_match P ls =
     (if has_below P [hd ls] then collect P [hd ls] (tl ls) else wild_match P ls)"

definition dt_patterns :: "'a dtrie \<Rightarrow> (string list \<times> 'a) set" where
  "dt_patterns t = {(q, m). m \<in> set (dt_at t q)}"

lemma set_star_values: "set (dt_star_values t) = set (dt_at t [star])"
  by (simp add: dt_star_values_def split: option.splits)

lemma set_second:
  "set (second t ls) = set (dt_at t ls) \<union> (\<Union>q \<in> {q. prefix q ls}. set (dt_at t (q @ [star])))"
proof (induction ls arbitrary: t)
  case Nil
  then show ?case by (simp add: set_star_values)
next
  case (Cons l ls)
  have *: "{q. prefix q (l # ls)} = insert [] ((#) l ` {q. prefix q ls})"
    by (auto simp: prefix_Cons)
  show ?case
    unfolding * by (cases "dt_child l t") (auto simp: Cons.IH set_star_values)
qed

text \<open>The marks below a path, for a path that leads to a node.\<close>

lemma dt_at_append: "dt_at t (p # q) = (case dt_child p t of None \<Rightarrow> [] | Some c \<Rightarrow> dt_at c q)"
  by simp

lemma has_below_iff:
  assumes "dt_wf t"
  shows "has_below (dt_patterns t) [l] \<longleftrightarrow> dt_child l t \<noteq> None"
proof -
  have "has_below (dt_patterns t) [l] \<longleftrightarrow> (\<exists>q. dt_at t (l # q) \<noteq> [])"
    by (simp add: has_below_def dt_patterns_def flip: ex_in_conv set_empty del: dt_at.simps)
  then show ?thesis using dt_child_iff_mark [OF assms] by simp
qed

lemma collect_second:
  "dt_child l t = Some r \<Longrightarrow> collect (dt_patterns t) [l] ls = set (second r ls)"
  by (auto simp: collect_def dt_patterns_def set_second)

text \<open>The patterns under the top-level wildcard.\<close>

lemma sub_patterns:
  "dt_child s t = Some w \<Longrightarrow> ((s # q, m) \<in> dt_patterns t) = ((q, m) \<in> dt_patterns w)"
  by (simp add: dt_patterns_def)

lemma sub_has_below: "dt_child s t = Some w \<Longrightarrow> has_below (dt_patterns t) [s, l] = has_below (dt_patterns w) [l]"
  by (simp add: has_below_def sub_patterns)

lemma sub_collect: "dt_child s t = Some w \<Longrightarrow> collect (dt_patterns t) [s, l] ls = collect (dt_patterns w) [l] ls"
  by (simp add: collect_def sub_patterns)

lemma wild_match_wild:
  assumes "dt_child star t = Some w" "dt_wf w"
  shows "wild_match (dt_patterns t) ls = set (wild w ls)"
  using assms
  by (induction ls)
    (auto simp: sub_has_below sub_collect has_below_iff collect_second split: option.splits)

lemma wild_match_none: "dt_child star t = None \<Longrightarrow> wild_match (dt_patterns t) ls = {}"
  by (induction ls) (auto simp: has_below_def dt_patterns_def)

lemma rd_hasNext_newReader [simp]: "rd_hasNext (newReader d c)"
  by (simp add: rd_hasNext_def newReader_def)

lemma dt_search_match:
  assumes "dt_wf t"
  shows "set (dt_search t (newReader d c)) = domain_match (dt_patterns t) (labels c d)"
proof -
  obtain l ls where l: "labels c d = l # ls" "rd_str (newReader d c) = l"
    "rd_labels (snd (rd_next (newReader d c))) = ls"
    using rd_labels_Cons [of "newReader d c"] by simp
  show ?thesis
  proof (cases "dt_child l t")
    case None
    then have s: "set (dt_search t (newReader d c)) =
        (case dt_child star t of None \<Rightarrow> {} | Some w \<Rightarrow> set (wild w (labels c d)))"
      and m: "domain_match (dt_patterns t) (labels c d) = wild_match (dt_patterns t) (labels c d)"
      using assms by (auto simp: dt_search_eq domain_match_def l has_below_iff simp del: wild.simps wild_match.simps
          split: option.splits)
    show ?thesis
      unfolding s m using dt_wf_child [OF assms, of star]
      by (cases "dt_child star t") (simp_all add: wild_match_none wild_match_wild)
  next
    case (Some r)
    then show ?thesis using assms by (simp add: dt_search_eq domain_match_def l has_below_iff collect_second)
  qed
qed

section \<open>The contract of a domain matcher\<close>

datatype 'a domain_op = DInsert string 'a | DRemove string 'a | DClear

fun dlive_step :: "char \<Rightarrow> (string list \<times> 'a) set \<Rightarrow> 'a domain_op \<Rightarrow> (string list \<times> 'a) set" where
  "dlive_step c P (DInsert d m) = (if d = [] then P else insert (labels c d, m) P)"
| "dlive_step c P (DRemove d m) = (if d = [] then P else P - {(labels c d, m)})"
| "dlive_step c P DClear = {}"

locale domain_matcher =
  fixes Insert :: "string \<Rightarrow> 'a \<Rightarrow> 'c \<Rightarrow> 'c"
    and Remove :: "string \<Rightarrow> 'a \<Rightarrow> 'c \<Rightarrow> 'c"
    and SearchString :: "'c \<Rightarrow> string \<Rightarrow> 'a list"
    and Clear :: "'c \<Rightarrow> 'c"
    and separator :: "'c \<Rightarrow> char"
    and patterns :: "'c \<Rightarrow> (string list \<times> 'a) set"
    and invar :: "'c \<Rightarrow> bool"
  assumes dinvar_ops:
      "invar c \<Longrightarrow> invar (Insert d m c)" "invar c \<Longrightarrow> invar (Remove d m c)" "invar c \<Longrightarrow> invar (Clear c)"
    and separator_ops:
      "separator (Insert d m c) = separator c" "separator (Remove d m c) = separator c"
      "separator (Clear c) = separator c"
    and patterns_ops:
      "invar c \<Longrightarrow> patterns (Insert d m c) = dlive_step (separator c) (patterns c) (DInsert d m)"
      "invar c \<Longrightarrow> patterns (Remove d m c) = dlive_step (separator c) (patterns c) (DRemove d m)"
      "invar c \<Longrightarrow> patterns (Clear c) = {}"
    and search_patterns:
      "invar c \<Longrightarrow> set (SearchString c d) = domain_match (patterns c) (labels (separator c) d)"
begin

definition drun_op :: "'c \<Rightarrow> 'a domain_op \<Rightarrow> 'c" where
  "drun_op c o1 = (case o1 of DInsert d m \<Rightarrow> Insert d m c | DRemove d m \<Rightarrow> Remove d m c | DClear \<Rightarrow> Clear c)"

lemma drun_ops:
  assumes "invar c"
  shows "invar (foldl drun_op c ops) \<and> separator (foldl drun_op c ops) = separator c \<and>
    patterns (foldl drun_op c ops) = foldl (dlive_step (separator c)) (patterns c) ops"
  using assms
proof (induction ops arbitrary: c)
  case (Cons o1 ops)
  have "invar (drun_op c o1)" "separator (drun_op c o1) = separator c"
    "patterns (drun_op c o1) = dlive_step (separator c) (patterns c) o1"
    using Cons.prems
    by (cases o1; simp add: drun_op_def dinvar_ops separator_ops patterns_ops del: dlive_step.simps(1,2))+
  then show ?case using Cons.IH [of "drun_op c o1"] by simp
qed simp

lemma search_after_ops:
  "invar c \<Longrightarrow> set (SearchString (foldl drun_op c ops) d) =
     domain_match (foldl (dlive_step (separator c)) (patterns c) ops) (labels (separator c) d)"
  using drun_ops [of c ops] by (simp add: search_patterns)

end

definition fqdn_inv :: "'a fqdn \<Rightarrow> bool" where
  "fqdn_inv t \<longleftrightarrow> dt_wf (fRoot t)"

definition fqdn_patterns :: "'a fqdn \<Rightarrow> (string list \<times> 'a) set" where
  "fqdn_patterns t = dt_patterns (fRoot t)"

lemma dt_wf_distinct_at: "dt_wf t \<Longrightarrow> distinct (dt_at t q)"
proof (induction q arbitrary: t)
  case Nil
  then show ?case using dt_wf_iff [of t] by simp
next
  case (Cons l q)
  then show ?case using dt_wf_child [of t l] by (auto split: option.splits)
qed

lemma fqdn_patterns_Insert:
  "fqdn_patterns (fqdn_Insert d m t) = dlive_step (fseparate t) (fqdn_patterns t) (DInsert d m)"
  by (auto simp: fqdn_patterns_def fqdn_Insert_def dt_patterns_def dt_insert_eq dt_at_ins split: if_splits)

lemma fqdn_patterns_Remove:
  assumes "fqdn_inv t"
  shows "fqdn_patterns (fqdn_Remove d m t) = dlive_step (fseparate t) (fqdn_patterns t) (DRemove d m)"
proof -
  have "distinct (dt_at (fRoot t) q)" for q
    using assms by (simp add: fqdn_inv_def dt_wf_distinct_at)
  then show ?thesis
    by (auto simp: fqdn_patterns_def fqdn_Remove_def dt_patterns_def dt_remove_eq dt_at_rem dt_at_rem_None
        split: option.splits if_splits)
qed

interpretation fq: domain_matcher fqdn_Insert fqdn_Remove fqdn_SearchString fqdn_Clear fseparate fqdn_patterns fqdn_inv
proof unfold_locales
  fix t :: "'a fqdn" and d and m :: 'a
  assume i: "fqdn_inv t"
  show "fqdn_inv (fqdn_Insert d m t)"
    using i by (simp add: fqdn_inv_def fqdn_Insert_def dt_insert_eq dt_wf_ins)
  show "fqdn_inv (fqdn_Remove d m t)"
    using i by (auto simp: fqdn_inv_def fqdn_Remove_def dt_remove_eq split: option.splits intro: dt_wf_rem)
  show "fqdn_patterns (fqdn_Insert d m t) = dlive_step (fseparate t) (fqdn_patterns t) (DInsert d m)"
    by (rule fqdn_patterns_Insert)
  show "fqdn_patterns (fqdn_Remove d m t) = dlive_step (fseparate t) (fqdn_patterns t) (DRemove d m)"
    using i by (rule fqdn_patterns_Remove)
  show "set (fqdn_SearchString t d) = domain_match (fqdn_patterns t) (labels (fseparate t) d)"
    using i by (simp add: fqdn_inv_def fqdn_SearchString_def fqdn_patterns_def dt_search_match)
qed (auto simp: fqdn_inv_def fqdn_Clear_def fqdn_Insert_def fqdn_Remove_def
    fqdn_patterns_def dt_patterns_def split: option.splits)

section \<open>Histories of the in-memory domain trie\<close>

fun fqdn_step :: "'a fqdn \<Rightarrow> 'a domain_op \<Rightarrow> 'a fqdn" where
  "fqdn_step t (DInsert d m) = fqdn_Insert d m t"
| "fqdn_step t (DRemove d m) = fqdn_Remove d m t"
| "fqdn_step t DClear = fqdn_Clear t"

lemma fq_drun_op: "fq.drun_op = fqdn_step"
  by (auto simp: fun_eq_iff fq.drun_op_def split: domain_op.splits)

text \<open>C10: After any sequence of Insert, Remove and Clear calls on a new domain trie, SearchString returns
  exactly the marks of the live patterns that match the name: the exact pattern, the wildcard
  patterns at and above the name, and, when no pattern shares the top-level label, those under the
  leading wildcard.\<close>

theorem fqdn_search_history:
  "set (fqdn_SearchString (foldl fqdn_step fqdn_NewTrie ops) d) =
     domain_match (foldl (dlive_step (CHR ''.'')) {} ops) (labels (CHR ''.'') d)"
  using fq.search_after_ops [of fqdn_NewTrie ops d]
  by (simp add: fq_drun_op fqdn_inv_def fqdn_NewTrie_def fqdn_patterns_def dt_patterns_def)

end
