(* ===== verification/Net_Text.thy ===== *)
theory Net_Text
  imports Netip_Parse
begin

text \<open>
  Texts of the Go standard library the address code uses: decimal numbers (\<^verbatim>\<open>strconv\<close>), host and port
  pairs (\<^verbatim>\<open>net.SplitHostPort\<close>, \<^verbatim>\<open>net.JoinHostPort\<close>), the check of domain names (\<^verbatim>\<open>net.isDomainName\<close>, which the
  sources link as \<^verbatim>\<open>system.IsDomainName\<close>) and the text of an address (\<^verbatim>\<open>netip.Addr.String\<close>).
\<close>

section \<open>Decimal numbers\<close>

definition digit_char :: "nat \<Rightarrow> char" where
  "digit_char n = char_of (48 + n)"

fun Itoa :: "nat \<Rightarrow> string" where
  "Itoa n = (if n < 10 then [digit_char n] else Itoa (n div 10) @ [digit_char (n mod 10)])"

declare Itoa.simps [simp del]

text \<open>\<^verbatim>\<open>strconv.ParseUint(s, 10, 16)\<close>.\<close>

definition ParseUint16 :: "string \<Rightarrow> nat option" where
  "ParseUint16 s =
     (if s = [] then None
      else case atoi_digits 0 s of
          None \<Rightarrow> None
        | Some n \<Rightarrow> if n > 65535 then None else Some n)"

lemma digit_char [simp]:
  assumes "n < 10"
  shows "is_digit (digit_char n)" "digit_val (digit_char n) = n"
  using assms by (auto simp: is_digit_def digit_val_def digit_char_def byte_of_def)

lemma atoi_digits_append:
  "atoi_digits acc (xs @ ys) = (case atoi_digits acc xs of None \<Rightarrow> None | Some n \<Rightarrow> atoi_digits n ys)"
  by (induction xs arbitrary: acc) auto

lemma atoi_Itoa [simp]: "atoi_digits 0 (Itoa n) = Some n"
  by (induction n rule: Itoa.induct) (subst Itoa.simps, auto simp: atoi_digits_append)

lemma Itoa_not_Nil [simp]: "Itoa n \<noteq> []"
  by (subst Itoa.simps) simp

lemma Itoa_digits: "c \<in> set (Itoa n) \<Longrightarrow> is_digit c"
  by (induction n rule: Itoa.induct) (subst (asm) (2) Itoa.simps, auto split: if_splits)

lemma ParseUint16_Itoa: "n \<le> 65535 \<Longrightarrow> ParseUint16 (Itoa n) = Some n"
  by (simp add: ParseUint16_def)

section \<open>Host and port\<close>

definition JoinHostPort :: "string \<Rightarrow> string \<Rightarrow> string" where
  "JoinHostPort host port =
     (if CHR '':'' \<in> set host then ''['' @ host @ '']:'' @ port else host @ '':'' @ port)"

definition index_of :: "char \<Rightarrow> string \<Rightarrow> nat option" where
  "index_of c s = (if c \<in> set s then Some (length (takeWhile (\<lambda>x. x \<noteq> c) s)) else None)"

text \<open>\<open>None\<close> is any of the errors of \<^verbatim>\<open>SplitHostPort\<close>; \<open>i\<close> is the position of the last colon.\<close>

definition SplitHostPort :: "string \<Rightarrow> (string \<times> string) option" where
  "SplitHostPort hp =
     (if CHR '':'' \<notin> set hp then None
      else
        let i = length hp - 1 - length (takeWhile (\<lambda>x. x \<noteq> CHR '':'') (rev hp));
            port = drop (i + 1) hp
        in if hd hp = CHR ''['' then
             case index_of (CHR '']'') hp of
               None \<Rightarrow> None
             | Some e \<Rightarrow>
                 if e + 1 \<noteq> i then None
                 else if CHR ''['' \<in> set (drop 1 hp) \<or> CHR '']'' \<in> set (drop (e + 1) hp) then None
                 else Some (take (e - 1) (drop 1 hp), port)
           else
             if CHR '':'' \<in> set (take i hp) \<or> CHR ''['' \<in> set hp \<or> CHR '']'' \<in> set hp then None
             else Some (take i hp, port))"

lemma last_colon:
  "CHR '':'' \<notin> set v \<Longrightarrow> takeWhile (\<lambda>x. x \<noteq> CHR '':'') (rev (u @ CHR '':'' # v)) = rev v"
  by (simp add: takeWhile_append takeWhile_eq_all_conv)

lemma SplitHostPort_plain:
  assumes "\<forall>c \<in> set h \<union> set p. c \<noteq> CHR '':'' \<and> c \<noteq> CHR ''['' \<and> c \<noteq> CHR '']''"
  shows "SplitHostPort (h @ CHR '':'' # p) = Some (h, p)"
proof -
  have "takeWhile (\<lambda>x. x \<noteq> CHR '':'') (rev (h @ CHR '':'' # p)) = rev p"
    using assms by (intro last_colon) auto
  moreover have "hd (h @ CHR '':'' # p) \<noteq> CHR ''[''" using assms by (cases h) auto
  ultimately show ?thesis using assms by (auto simp: SplitHostPort_def Let_def)
qed

section \<open>Domain names\<close>

text \<open>The state of the scan: the last byte, whether a letter, underscore or hyphen has been seen, and the
  length of the current label; \<open>None\<close> is the return of false.\<close>

definition is_letter :: "char \<Rightarrow> bool" where
  "is_letter c \<longleftrightarrow>
     (let n = byte_of c in 97 \<le> n \<and> n \<le> 122 \<or> 65 \<le> n \<and> n \<le> 90 \<or> c = CHR ''_'')"

definition domain_scan :: "char \<times> bool \<times> nat \<Rightarrow> char \<Rightarrow> (char \<times> bool \<times> nat) option" where
  "domain_scan st c =
     (case st of (lst, nonNumeric, partlen) \<Rightarrow>
        if is_letter c then Some (c, True, partlen + 1)
        else if is_digit c then Some (c, nonNumeric, partlen + 1)
        else if c = CHR ''-'' then if lst = CHR ''.'' then None else Some (c, True, partlen + 1)
        else if c = CHR ''.'' then
          if lst = CHR ''.'' \<or> lst = CHR ''-'' then None
          else if partlen > 63 \<or> partlen = 0 then None else Some (c, nonNumeric, 0)
        else None)"

fun domain_scan_all :: "char \<times> bool \<times> nat \<Rightarrow> string \<Rightarrow> (char \<times> bool \<times> nat) option" where
  "domain_scan_all st [] = Some st"
| "domain_scan_all st (c # cs) = (case domain_scan st c of None \<Rightarrow> None | Some st' \<Rightarrow> domain_scan_all st' cs)"

definition IsDomainName :: "string \<Rightarrow> bool" where
  "IsDomainName s \<longleftrightarrow>
     (if s = ''.'' then True
      else if length s = 0 \<or> length s > 254 \<or> length s = 254 \<and> last s \<noteq> CHR ''.'' then False
      else case domain_scan_all (CHR ''.'', False, 0) s of
          None \<Rightarrow> False
        | Some (lst, nonNumeric, partlen) \<Rightarrow> \<not> (lst = CHR ''-'' \<or> partlen > 63) \<and> nonNumeric)"

lemma domain_scan_chars:
  "domain_scan_all st s = Some st' \<Longrightarrow>
     \<forall>c \<in> set s. is_letter c \<or> is_digit c \<or> c = CHR ''-'' \<or> c = CHR ''.''"
  by (induction s arbitrary: st)
    (auto simp: domain_scan_def split: option.splits prod.splits if_splits)

lemma IsDomainName_chars:
  "IsDomainName s \<Longrightarrow> c \<in> set s \<Longrightarrow> is_letter c \<or> is_digit c \<or> c = CHR ''-'' \<or> c = CHR ''.''"
  using domain_scan_chars [of "(CHR ''.'', False, 0)" s]
  by (fastforce simp: IsDomainName_def split: if_splits option.splits prod.splits)

section \<open>The text of an address\<close>

definition hex_char :: "nat \<Rightarrow> char" where
  "hex_char n = (if n < 10 then char_of (48 + n) else char_of (87 + n))"

fun hex_text :: "nat \<Rightarrow> string" where
  "hex_text n = (if n < 16 then [hex_char n] else hex_text (n div 16) @ [hex_char (n mod 16)])"

declare hex_text.simps [simp del]

definition string4 :: "u32 \<Rightarrow> string" where
  "string4 w = (let b = map unat (bytes_be 4 w) in
     Itoa (b ! 0) @ ''.'' @ Itoa (b ! 1) @ ''.'' @ Itoa (b ! 2) @ ''.'' @ Itoa (b ! 3))"

definition v6u16 :: "u128 \<Rightarrow> nat \<Rightarrow> nat" where
  "v6u16 w i = unat (ucast (drop_bit (16 * (7 - i)) w) :: 16 word)"

text \<open>The first longest run of at least two zero groups, as its start and end.\<close>

definition zero_run :: "u128 \<Rightarrow> nat \<Rightarrow> nat" where
  "zero_run w i = length (takeWhile (\<lambda>j. v6u16 w j = 0) [i..<8])"

definition longest_zero_run :: "u128 \<Rightarrow> (nat \<times> nat) option" where
  "longest_zero_run w =
     foldl (\<lambda>best i. let l = zero_run w i in
         if l \<ge> 2 \<and> l > (case best of None \<Rightarrow> 0 | Some (s, e) \<Rightarrow> e - s) then Some (i, i + l) else best)
       None [0..<8]"

fun groups_text :: "u128 \<Rightarrow> nat list \<Rightarrow> string" where
  "groups_text w [] = []"
| "groups_text w [i] = hex_text (v6u16 w i)"
| "groups_text w (i # is) = hex_text (v6u16 w i) @ '':'' @ groups_text w is"

definition string6 :: "u128 \<Rightarrow> string" where
  "string6 w =
     (case longest_zero_run w of
        None \<Rightarrow> groups_text w [0..<8]
      | Some (s, e) \<Rightarrow> groups_text w [0..<s] @ ''::'' @ groups_text w [e..<8])"

fun addr_String :: "addr \<Rightarrow> string \<Rightarrow> string" where
  "addr_String (NoAddr _) zone = ''invalid IP''"
| "addr_String (Addr4 w) zone = string4 w"
| "addr_String (Addr6 w) zone =
     (if drop_bit 32 w = 0xffff then ''::ffff:'' @ string4 (ucast w) else string6 w)
     @ (if zone = [] then [] else ''%'' @ zone)"

end
