(* ===== verification/Address.thy ===== *)
theory Address
  imports Net_Text
begin

text \<open>
  The addresses of connections (\<^verbatim>\<open>pkg/net/netapi/address.go\<close>): domain names and IP addresses with a port
  and a network, and the functions that build them from texts, byte slices and system addresses.
  \<open>None\<close> is a returned error. The hash \<^verbatim>\<open>Comparable\<close> uses a seed drawn at start-up and is not modelled.
\<close>

section \<open>Addresses\<close>

datatype AddressNetwork = Unknown | TCP | UDP | IPnet

record addr_port =
  ap_Addr :: addr
  ap_Zone :: string
  ap_Port :: u16

datatype address = DomainAddr string u16 AddressNetwork | IPAddr addr_port AddressNetwork

definition ParseAddressNetwork :: "string \<Rightarrow> AddressNetwork" where
  "ParseAddressNetwork network =
     (if network \<in> {''tcp'', ''tcp4'', ''tcp6''} then TCP
      else if network \<in> {''udp'', ''udp4'', ''udp6''} then UDP
      else if network \<in> {''ip'', ''ip4'', ''ip6''} then IPnet else Unknown)"

fun Network :: "AddressNetwork \<Rightarrow> string" where
  "Network TCP = ''tcp''"
| "Network UDP = ''udp''"
| "Network IPnet = ''ip''"
| "Network Unknown = ''unknown''"

fun address_Network :: "address \<Rightarrow> AddressNetwork" where
  "address_Network (DomainAddr _ _ n) = n"
| "address_Network (IPAddr _ n) = n"

definition addr_port_String :: "addr_port \<Rightarrow> string" where
  "addr_port_String a =
     (case ap_Addr a of
        NoAddr _ \<Rightarrow> ''invalid AddrPort''
      | Addr4 w \<Rightarrow> string4 w @ '':'' @ Itoa (unat (ap_Port a))
      | Addr6 w \<Rightarrow> ''['' @ addr_String (Addr6 w) (ap_Zone a) @ '']:'' @ Itoa (unat (ap_Port a)))"

fun address_String :: "address \<Rightarrow> string" where
  "address_String (DomainAddr h p _) = JoinHostPort h (Itoa (unat p))"
| "address_String (IPAddr a _) = addr_port_String a"

fun Hostname :: "address \<Rightarrow> string" where
  "Hostname (DomainAddr h _ _) = h"
| "Hostname (IPAddr a _) = addr_String (ap_Addr a) (ap_Zone a)"

fun Port :: "address \<Rightarrow> u16" where
  "Port (DomainAddr _ p _) = p"
| "Port (IPAddr a _) = ap_Port a"

fun IsFqdn :: "address \<Rightarrow> bool" where
  "IsFqdn (DomainAddr _ _ _) = True"
| "IsFqdn (IPAddr _ _) = False"

definition EmptyAddr :: address where
  "EmptyAddr = DomainAddr [] 0 Unknown"

section \<open>Building addresses\<close>

definition ParseDomainPort :: "string \<Rightarrow> string \<Rightarrow> u16 \<Rightarrow> address option" where
  "ParseDomainPort network ad port =
     (if \<not> IsDomainName ad then None else Some (DomainAddr ad port (ParseAddressNetwork network)))"

definition ParseAddressPort :: "string \<Rightarrow> string \<Rightarrow> u16 \<Rightarrow> address option" where
  "ParseAddressPort network ad port =
     (case ParseAddr ad of
        Some (ip, zone) \<Rightarrow>
          let ip' = Unmap ip in
          Some (IPAddr \<lparr>ap_Addr = ip', ap_Zone = (if Is6 ip' then zone else []), ap_Port = port\<rparr>
            (ParseAddressNetwork network))
      | None \<Rightarrow> ParseDomainPort network ad port)"

definition ParseAddress :: "string \<Rightarrow> string \<Rightarrow> address option" where
  "ParseAddress network ad =
     (case SplitHostPort ad of
        None \<Rightarrow> ParseAddressPort network ad 0
      | Some (hostname, portstr) \<Rightarrow>
          (case ParseUint16 portstr of
             None \<Rightarrow> None
           | Some port \<Rightarrow> ParseAddressPort network hostname (of_nat port)))"

text \<open>A zone is kept only by an IPv6 address: \<^verbatim>\<open>WithZone\<close> of an IPv4 address returns it unchanged.\<close>

definition toAddrPort :: "bytes \<Rightarrow> u16 \<Rightarrow> string \<Rightarrow> addr_port" where
  "toAddrPort ad port zone =
     (let ip = Unmap (case AddrFromSlice ad of None \<Rightarrow> Addr4 0 | Some x \<Rightarrow> x) in
      \<lparr>ap_Addr = ip, ap_Zone = (if Is6 ip then zone else []), ap_Port = port\<rparr>)"

definition ParseIPAddr :: "string \<Rightarrow> bytes \<Rightarrow> u16 \<Rightarrow> address" where
  "ParseIPAddr network ip port = IPAddr (toAddrPort ip port []) (ParseAddressNetwork network)"

definition ParseNetipAddr :: "string \<Rightarrow> addr \<Rightarrow> string \<Rightarrow> u16 \<Rightarrow> address" where
  "ParseNetipAddr network ip zone port =
     IPAddr \<lparr>ap_Addr = ip, ap_Zone = zone, ap_Port = port\<rparr> (ParseAddressNetwork network)"

definition ParseNetipAddrPort :: "string \<Rightarrow> addr_port \<Rightarrow> address" where
  "ParseNetipAddrPort network ip = IPAddr ip (ParseAddressNetwork network)"

text \<open>The dynamic types of a \<^verbatim>\<open>net.Addr\<close>: an address of this package, the four types of \<^verbatim>\<open>net\<close> with their
  fields, and any other type with what its \<^verbatim>\<open>Network\<close> and \<^verbatim>\<open>String\<close> return.\<close>

datatype sys_addr =
    SysAddress address
  | SysTCP bytes int string
  | SysUDP bytes int string
  | SysIP bytes string
  | SysUnix string string
  | SysOther string string

fun ParseSysAddr :: "sys_addr option \<Rightarrow> address option" where
  "ParseSysAddr None = None"
| "ParseSysAddr (Some (SysAddress a)) = Some a"
| "ParseSysAddr (Some (SysTCP ip port zone)) =
     Some (IPAddr (toAddrPort ip (of_int port) zone) (ParseAddressNetwork ''tcp''))"
| "ParseSysAddr (Some (SysUDP ip port zone)) =
     Some (IPAddr (toAddrPort ip (of_int port) zone) (ParseAddressNetwork ''udp''))"
| "ParseSysAddr (Some (SysIP ip zone)) = Some (IPAddr (toAddrPort ip 0 zone) (ParseAddressNetwork ''ip''))"
| "ParseSysAddr (Some (SysUnix name net)) = Some (DomainAddr name 0 (ParseAddressNetwork net))"
| "ParseSysAddr (Some (SysOther net str)) = ParseAddress net str"

section \<open>A domain name is never an address\<close>

lemma parse_v4_chars:
  "parse_v4 prev v dl fs s = Some b \<Longrightarrow> \<forall>c \<in> set s. is_digit c \<or> c = CHR ''.''"
  by (induction prev v dl fs s rule: parse_v4.induct) (auto simp: Let_def split: if_splits)

lemma domain_scan_numeric:
  "\<forall>c \<in> set s. is_digit c \<or> c = CHR ''.'' \<Longrightarrow> domain_scan_all (lst, False, n) s = Some (l', nn, n') \<Longrightarrow> \<not> nn"
proof (induction s arbitrary: lst n)
  case (Cons c s)
  have "\<not> is_letter c"
    using Cons.prems by (auto simp: is_letter_def is_digit_def byte_of_def Let_def)
  then show ?case using Cons by (auto simp: domain_scan_def split: if_splits option.splits)
qed simp

lemma domain_chars:
  assumes "IsDomainName h" "c \<in> set h"
  shows "c \<noteq> CHR '':''" "c \<noteq> CHR ''[''" "c \<noteq> CHR '']''" "c \<noteq> CHR ''%''"
  using IsDomainName_chars [OF assms] by (auto simp: is_letter_def is_digit_def byte_of_def Let_def)

lemma first_sep_dot:
  "\<forall>c \<in> set s. c \<noteq> CHR '':'' \<and> c \<noteq> CHR ''%'' \<Longrightarrow> first_sep s = Some c \<Longrightarrow> c = CHR ''.''"
  by (induction s) (auto split: if_splits)

lemma IsDomainName_not_addr:
  assumes "IsDomainName h"
  shows "ParseAddr h = None"
proof (cases "h = ''.''")
  case True
  have "ParseAddr ''.'' = None" by code_simp
  then show ?thesis using True by simp
next
  case False
  have "parseIPv4Fields h = None"
  proof (rule ccontr)
    assume "parseIPv4Fields h \<noteq> None"
    then have "\<forall>c \<in> set h. is_digit c \<or> c = CHR ''.''"
      by (auto simp: parseIPv4Fields_def dest: parse_v4_chars)
    then show False
      using assms False domain_scan_numeric [of h "CHR ''.''" 0]
      by (fastforce simp: IsDomainName_def split: if_splits option.splits prod.splits)
  qed
  then show ?thesis
    using domain_chars [OF assms] first_sep_dot [of h]
    by (auto simp: ParseAddr_def split: option.splits)
qed

section \<open>The text of an IPv4 address reads back\<close>

lemma digit_char_neq [simp]: "n < 10 \<Longrightarrow> digit_char n \<noteq> CHR ''.''" "n < 10 \<Longrightarrow> digit_char n \<noteq> CHR '':''"
  using digit_char(1) [of n] by (auto simp: is_digit_def byte_of_def)

lemma parse_v4_digits:
  assumes "b < 256"
  shows "\<exists>d k. is_digit d \<and> parse_v4 prev 0 0 fs (Itoa b @ rest) = parse_v4 (Some d) b k fs rest"
proof -
  consider "b < 10" | "10 \<le> b" "b < 100" | "100 \<le> b" by linarith
  then show ?thesis
  proof cases
    case 1
    then show ?thesis by (subst Itoa.simps) (auto intro!: exI [of _ "digit_char b"])
  next
    case 2
    then have *: "Itoa b = [digit_char (b div 10), digit_char (b mod 10)]"
      by (subst Itoa.simps, subst Itoa.simps) simp
    have "0 < b div 10" "b div 10 < 10" using 2 by auto
    then show ?thesis unfolding * using assms
      by (auto simp: Let_def intro!: exI [of _ "digit_char (b mod 10)"])
  next
    case 3
    have d: "b div 10 div 10 = b div 100" by (simp add: div_mult2_eq [symmetric])
    have *: "Itoa b = [digit_char (b div 100), digit_char (b div 10 mod 10), digit_char (b mod 10)]"
      using 3 assms by (subst Itoa.simps, subst Itoa.simps, subst Itoa.simps) (auto simp: d)
    have "0 < b div 100" "b div 100 < 10" using 3 assms by auto
    moreover have "b div 100 * 10 + b div 10 mod 10 = b div 10"
      by (metis d div_mult_mod_eq mult.commute)
    moreover have "b div 10 * 10 + b mod 10 = b" by simp
    ultimately show ?thesis unfolding * using assms
      by (auto simp: Let_def intro!: exI [of _ "digit_char (b mod 10)"])
  qed
qed


lemma upt_4: "[0..<4] = [0, 1, 2, 3::nat]"
  by code_simp

lemma word_be_bytes_be4 [simp]: "word_be (bytes_be 4 w) = (w :: u32)"
proof (rule bit_word_eqI)
  fix n
  assume "n < LENGTH(32)"
  then consider "n < 8" | "8 \<le> n" "n < 16" | "16 \<le> n" "n < 24" | "24 \<le> n" "n < 32" by fastforce
  then show "bit (word_be (bytes_be 4 w) :: u32) n = bit w n"
    by cases (auto simp: word_be_def bytes_be_def upt_4 bit_simps)
qed

lemma parse_v4_field:
  assumes "b < 256" "length fs < 3" "xs \<noteq> []"
  shows "parse_v4 prev 0 0 fs (Itoa b @ CHR ''.'' # xs) = parse_v4 (Some (CHR ''.'')) 0 0 (fs @ [of_nat b]) xs"
proof -
  have "\<not> is_digit (CHR ''.'')" by (simp add: is_digit_def byte_of_def)
  moreover obtain d k where "is_digit d"
    "parse_v4 prev 0 0 fs (Itoa b @ CHR ''.'' # xs) = parse_v4 (Some d) b k fs (CHR ''.'' # xs)"
    using parse_v4_digits [OF assms(1)] by blast
  ultimately show ?thesis using assms by auto
qed

lemma parse_v4_last:
  assumes "b < 256" "length fs = 3"
  shows "parse_v4 prev 0 0 fs (Itoa b) = Some (fs @ [of_nat b])"
  using parse_v4_digits [OF assms(1), of prev fs "[]"] assms(2) by auto

lemma parse_v4_string4: "parseIPv4Fields (string4 w) = Some (bytes_be 4 w)"
proof -
  have u: "unat (b :: u8) < 256" for b using unsigned_less [of b] by simp
  show ?thesis
    by (simp add: string4_def Let_def bytes_be_def upt_4 parseIPv4Fields_def parse_v4_field parse_v4_last u
        del: parse_v4.simps)
qed

lemma first_sep_digits: "\<forall>c \<in> set u. is_digit c \<Longrightarrow> first_sep (u @ CHR ''.'' # v) = Some (CHR ''.'')"
  by (induction u) (auto simp: is_digit_def byte_of_def)

lemma ParseAddr_string4 [simp]: "ParseAddr (string4 w) = Some (Addr4 w, [])"
proof -
  have "first_sep (string4 w) = Some (CHR ''.'')"
    by (simp add: string4_def Let_def first_sep_digits Itoa_digits)
  then show ?thesis by (simp add: ParseAddr_def parse_v4_string4)
qed

lemma string4_chars: "c \<in> set (string4 w) \<Longrightarrow> is_digit c \<or> c = CHR ''.''"
  by (auto simp: string4_def Let_def dest: Itoa_digits)

lemma digit_plain:
  "is_digit c \<Longrightarrow> c \<noteq> CHR '':'' \<and> c \<noteq> CHR ''['' \<and> c \<noteq> CHR '']''"
  by (auto simp: is_digit_def byte_of_def)

lemma split_text:
  assumes "\<forall>c \<in> set h. c \<noteq> CHR '':'' \<and> c \<noteq> CHR ''['' \<and> c \<noteq> CHR '']''"
  shows "ParseAddress net (h @ CHR '':'' # Itoa (unat (p :: u16))) = ParseAddressPort net h p"
proof -
  have "SplitHostPort (h @ CHR '':'' # Itoa (unat p)) = Some (h, Itoa (unat p))"
  proof (rule SplitHostPort_plain)
    have "\<forall>c \<in> set (Itoa (unat p)). c \<noteq> CHR '':'' \<and> c \<noteq> CHR ''['' \<and> c \<noteq> CHR '']''"
      by (simp add: digit_plain Itoa_digits)
    then show "\<forall>c \<in> set h \<union> set (Itoa (unat p)). c \<noteq> CHR '':'' \<and> c \<noteq> CHR ''['' \<and> c \<noteq> CHR '']''"
      using assms by (simp only: Un_iff ball_Un)
  qed
  moreover have "ParseUint16 (Itoa (unat p)) = Some (unat p)"
    using unsigned_less [of p, where 'a = nat] by (intro ParseUint16_Itoa) simp
  ultimately show ?thesis by (simp add: ParseAddress_def)
qed

lemma ParseAddressNetwork_Network [simp]: "ParseAddressNetwork (Network n) = n"
  by (cases n) (simp_all add: ParseAddressNetwork_def)

text \<open>The addresses with a plain text: valid domain names and IPv4 addresses.\<close>

fun plain_address :: "address \<Rightarrow> bool" where
  "plain_address (DomainAddr h _ _) \<longleftrightarrow> IsDomainName h"
| "plain_address (IPAddr a _) \<longleftrightarrow> Is4 (ap_Addr a) \<and> ap_Zone a = []"



text \<open>No address built from a system address holds an IPv4-mapped IPv6 address: it is stored as the
  IPv4 address, so that equal endpoints have equal addresses.\<close>

theorem ParseSysAddr_unmapped:
  assumes "ParseSysAddr (Some x) = Some (IPAddr ap n)" and "\<And>a. x \<noteq> SysAddress a"
  shows "\<not> Is4In6 (ap_Addr ap)"
proof -
  have u: "\<not> Is4In6 (Unmap x)" for x by (cases x) auto
  then have t: "\<not> Is4In6 (ap_Addr (toAddrPort bs port zone))" for bs port zone
    by (simp add: toAddrPort_def Let_def)
  show ?thesis
    using assms t u
    by (cases x) (auto simp: ParseAddress_def ParseAddressPort_def ParseDomainPort_def Let_def
        split: option.splits if_splits prod.splits)
qed

theorem ParseSysAddr_unmapped_witness: "\<not> Is4In6 (Addr4 0x01020304)"
proof -
  have "ParseSysAddr (Some (SysTCP [0, 0, 0, 0, 0, 0, 0, 0, 0, 0, 255, 255, 1, 2, 3, 4] 80 [])) =
      Some (IPAddr \<lparr>ap_Addr = Addr4 0x01020304, ap_Zone = [], ap_Port = 80\<rparr> TCP)" by code_simp
  from ParseSysAddr_unmapped [OF this] show ?thesis by simp
qed

end
