(* ===== verification/Conn_Context.thy ===== *)
theory Conn_Context
  imports Address
begin

text \<open>
  The per-connection context (\<^verbatim>\<open>pkg/net/netapi/context.go\<close>) and the resolver helpers of
  \<^verbatim>\<open>pkg/net/netapi/dns.go\<close>: resolver options, connection options, the context record with its setters
  and getters, and the lookups they lead to. A resolver is a value of the Go interface \<^verbatim>\<open>Resolver\<close>: its
  name and its lookup function, which the record \<open>resolver\<close> holds. Wire messages (\<^verbatim>\<open>Raw\<close>) are not modelled.
\<close>

section \<open>Resolvers\<close>

datatype ResolverMode = ResolverModeNoSpecified | ResolverModePreferIPv6 | ResolverModePreferIPv4

record LookupIPOption =
  li_Mode :: ResolverMode

record IPs =
  AAAA :: "bytes list"
  A_ips :: "bytes list"

text \<open>The result pair of Go: a possibly nil pointer and a possibly nil error.\<close>

type_synonym go_error = string
type_synonym ips_result = "IPs option \<times> go_error option"

record resolver =
  res_Name :: string
  res_LookupIP :: "string \<Rightarrow> (LookupIPOption \<Rightarrow> LookupIPOption) list \<Rightarrow> ips_result"

definition ips_WhoNotEmpty :: "IPs \<Rightarrow> bytes list" where
  "ips_WhoNotEmpty i = (if length (AAAA i) \<noteq> 0 then AAAA i else A_ips i)"

text \<open>Indexing an empty slice panics: \<open>None\<close>.\<close>

definition slice_at :: "'a list \<Rightarrow> nat \<Rightarrow> 'a option" where
  "slice_at xs i = (if i < length xs then Some (xs ! i) else None)"

definition ips_PreferAAAA :: "IPs \<Rightarrow> bytes option" where
  "ips_PreferAAAA i = (if length (AAAA i) \<noteq> 0 then slice_at (AAAA i) 0 else slice_at (A_ips i) 0)"

definition ips_PreferA :: "IPs \<Rightarrow> bytes option" where
  "ips_PreferA i = (if length (A_ips i) \<noteq> 0 then slice_at (A_ips i) 0 else slice_at (AAAA i) 0)"

text \<open>The random numbers drawn are the arguments \<open>r2\<close> (of \<^verbatim>\<open>IntN(2)\<close>) and \<open>rn\<close> (of \<^verbatim>\<open>IntN(len)\<close>, as a
  function of the length); the outer option is the panic, the inner one the nil result.\<close>

definition ips_Rand :: "nat \<Rightarrow> (nat \<Rightarrow> nat) \<Rightarrow> IPs \<Rightarrow> bytes option option" where
  "ips_Rand r2 rn i =
     (if length (A_ips i) \<noteq> 0 \<and> length (AAAA i) \<noteq> 0 then
        if r2 = 0 then map_option Some (slice_at (A_ips i) (rn (length (A_ips i))))
        else map_option Some (slice_at (AAAA i) (rn (length (AAAA i))))
      else if length (A_ips i) \<noteq> 0 then map_option Some (slice_at (A_ips i) (rn (length (A_ips i))))
      else if length (AAAA i) \<noteq> 0 then map_option Some (slice_at (AAAA i) (rn (length (AAAA i))))
      else Some None)"

definition ips_Len :: "IPs \<Rightarrow> nat" where
  "ips_Len i = length (A_ips i) + length (AAAA i)"

definition ips_Iter :: "IPs \<Rightarrow> bytes list" where
  "ips_Iter i = A_ips i @ AAAA i"

section \<open>Resolver options\<close>

record ResolverOptions =
  ro_resolver :: "resolver option"
  ro_mode :: ResolverMode
  ro_isResolver :: bool
  ro_udpSkipResolveTarget :: bool
  ro_useFakeIP :: bool
  ro_fakeIPSkipCheckUpstream :: bool

definition new_ResolverOptions :: ResolverOptions where
  "new_ResolverOptions = \<lparr>ro_resolver = None, ro_mode = ResolverModeNoSpecified, ro_isResolver = False,
     ro_udpSkipResolveTarget = False, ro_useFakeIP = False, ro_fakeIPSkipCheckUpstream = False\<rparr>"

definition ro_SetResolver :: "resolver option \<Rightarrow> ResolverOptions \<Rightarrow> ResolverOptions" where
  "ro_SetResolver resolver r =
     (if ro_isResolver r \<and> ro_resolver r \<noteq> None then r else r\<lparr>ro_resolver := resolver\<rparr>)"

definition ro_SetIsResolver :: "ResolverOptions \<Rightarrow> ResolverOptions" where
  "ro_SetIsResolver r = r\<lparr>ro_isResolver := True\<rparr>"

definition ro_SetMode :: "ResolverMode \<Rightarrow> ResolverOptions \<Rightarrow> ResolverOptions" where
  "ro_SetMode mode r = r\<lparr>ro_mode := mode\<rparr>"

definition ro_SetUdpSkipResolveTarget :: "bool \<Rightarrow> ResolverOptions \<Rightarrow> ResolverOptions" where
  "ro_SetUdpSkipResolveTarget skip r = r\<lparr>ro_udpSkipResolveTarget := skip\<rparr>"

definition ro_SetUseFakeIP :: "bool \<Rightarrow> ResolverOptions \<Rightarrow> ResolverOptions" where
  "ro_SetUseFakeIP force r = r\<lparr>ro_useFakeIP := force\<rparr>"

definition ro_SetFakeIPSkipCheckUpstream :: "bool \<Rightarrow> ResolverOptions \<Rightarrow> ResolverOptions" where
  "ro_SetFakeIPSkipCheckUpstream skip r = r\<lparr>ro_fakeIPSkipCheckUpstream := skip\<rparr>"

definition ro_Opts :: "ResolverOptions \<Rightarrow> bool \<Rightarrow> (LookupIPOption \<Rightarrow> LookupIPOption) list" where
  "ro_Opts r reverse =
     (case ro_mode r of
        ResolverModeNoSpecified \<Rightarrow> []
      | _ \<Rightarrow>
          [\<lambda>li. if ro_mode r = ResolverModePreferIPv4 \<or> reverse then li\<lparr>li_Mode := ResolverModePreferIPv4\<rparr>
                else li\<lparr>li_Mode := ResolverModePreferIPv6\<rparr>])"

section \<open>Connection options\<close>

text \<open>The interface \<^verbatim>\<open>MaxMindDB\<close>: the geographic code of an address or an error (\<open>None\<close>). Its second method,
  \<^verbatim>\<open>LookupAddr\<close>, is built on the first.\<close>

record MaxMindDB =
  mm_Lookup :: "addr \<Rightarrow> string option"

record ConnOptions =
  co_bindAddress :: "string option"
  co_bindInterface :: "string option"
  co_resolver :: "ResolverOptions option"
  co_maxminddbGeoip :: "MaxMindDB option"
  co_routeCache :: "ips_result option"
  co_lists :: "string list"
  co_routeMode :: string
  co_skipRoute :: bool
  co_isUdp :: bool

definition new_ConnOptions :: ConnOptions where
  "new_ConnOptions = \<lparr>co_bindAddress = None, co_bindInterface = None, co_resolver = None,
     co_maxminddbGeoip = None, co_routeCache = None,
     co_lists = [], co_routeMode = [], co_skipRoute = False, co_isUdp = False\<rparr>"

definition deref_string :: "string option \<Rightarrow> string" where
  "deref_string p = (case p of Some s \<Rightarrow> s | None \<Rightarrow> [])"

definition co_SetBindAddress :: "string \<Rightarrow> ConnOptions \<Rightarrow> ConnOptions" where
  "co_SetBindAddress str s = (if str = [] then s else s\<lparr>co_bindAddress := Some str\<rparr>)"

definition co_BindAddress :: "ConnOptions \<Rightarrow> string" where
  "co_BindAddress s = deref_string (co_bindAddress s)"

definition co_SetBindInterface :: "string \<Rightarrow> ConnOptions \<Rightarrow> ConnOptions" where
  "co_SetBindInterface str s = (if str = [] then s else s\<lparr>co_bindInterface := Some str\<rparr>)"

definition co_BindInterface :: "ConnOptions \<Rightarrow> string" where
  "co_BindInterface s = deref_string (co_bindInterface s)"

text \<open>The accessor allocates the options on first use: it returns them and the updated record.\<close>

definition co_Resolver :: "ConnOptions \<Rightarrow> ResolverOptions \<times> ConnOptions" where
  "co_Resolver s =
     (case co_resolver s of
        Some r \<Rightarrow> (r, s)
      | None \<Rightarrow> (new_ResolverOptions, s\<lparr>co_resolver := Some new_ResolverOptions\<rparr>))"

text \<open>A chain of setters on the pointer the accessor returned.\<close>

definition co_update_Resolver :: "(ResolverOptions \<Rightarrow> ResolverOptions) \<Rightarrow> ConnOptions \<Rightarrow> ConnOptions" where
  "co_update_Resolver f s = (case co_Resolver s of (r, s') \<Rightarrow> s'\<lparr>co_resolver := Some (f r)\<rparr>)"

definition co_SetResolver :: "ResolverOptions \<Rightarrow> ConnOptions \<Rightarrow> ConnOptions" where
  "co_SetResolver r s = s\<lparr>co_resolver := Some r\<rparr>"

definition co_SetRouteMode :: "string \<Rightarrow> ConnOptions \<Rightarrow> ConnOptions" where
  "co_SetRouteMode mode s =
     (if co_routeMode s \<noteq> [] \<and> co_routeMode s \<noteq> ''bypass'' then s else s\<lparr>co_routeMode := mode\<rparr>)"

definition co_RouteMode :: "ConnOptions \<Rightarrow> string" where
  "co_RouteMode s = (if co_routeMode s = [] then ''bypass'' else co_routeMode s)"

definition co_SetSkipRoute :: "bool \<Rightarrow> ConnOptions \<Rightarrow> ConnOptions" where
  "co_SetSkipRoute skip s = s\<lparr>co_skipRoute := skip\<rparr>"

definition co_SetIsUdp :: "bool \<Rightarrow> ConnOptions \<Rightarrow> ConnOptions" where
  "co_SetIsUdp isUdp s = s\<lparr>co_isUdp := isUdp\<rparr>"

definition co_setRouteCache :: "ips_result \<Rightarrow> ConnOptions \<Rightarrow> ConnOptions" where
  "co_setRouteCache res s = s\<lparr>co_routeCache := Some res\<rparr>"

definition co_RouteIPs :: "address \<Rightarrow> ConnOptions \<Rightarrow> ips_result \<times> ConnOptions" where
  "co_RouteIPs ad s =
     (case co_routeCache s of
        Some rc \<Rightarrow> (rc, s)
      | None \<Rightarrow>
          (case co_Resolver s of (ro, s1) \<Rightarrow>
             (case ro_resolver ro of
                None \<Rightarrow> ((None, Some ''not found resolver''), s1)
              | Some r \<Rightarrow>
                  (case res_LookupIP r (Hostname ad) [] of (ips, err) \<Rightarrow>
                     let s2 = co_setRouteCache (ips, err) s1 in
                     if err \<noteq> None then ((None, Some ''not found ips''), s2) else ((ips, None), s2)))))"

definition co_SetMaxminddb :: "MaxMindDB option \<Rightarrow> ConnOptions \<Rightarrow> ConnOptions" where
  "co_SetMaxminddb db s = s\<lparr>co_maxminddbGeoip := db\<rparr>"

definition co_HasList :: "ConnOptions \<Rightarrow> string \<Rightarrow> bool" where
  "co_HasList s list = (list \<in> set (co_lists s))"

fun co_AddLists :: "string list \<Rightarrow> ConnOptions \<Rightarrow> ConnOptions" where
  "co_AddLists [] s = s"
| "co_AddLists (l # ls) s =
     (if l = [] then co_AddLists ls s
      else if co_HasList s l then co_AddLists ls s
      else co_AddLists ls (s\<lparr>co_lists := co_lists s @ [l]\<rparr>))"


section \<open>The context of a connection\<close>

record Sniff =
  sn_protocol :: "string option"
  sn_process :: "string option"
  sn_tlsServerName :: "string option"
  sn_httpHost :: "string option"
  sn_processPid :: nat
  sn_processUid :: nat

definition new_Sniff :: Sniff where
  "new_Sniff = \<lparr>sn_protocol = None, sn_process = None, sn_tlsServerName = None, sn_httpHost = None,
     sn_processPid = 0, sn_processUid = 0\<rparr>"

record AddrInfo =
  ai_domainString :: "string option"
  ai_ipString :: "string option"
  ai_geo :: "string option"
  ai_tag :: "string option"
  ai_component :: "string option"
  ai_udpMigrateID :: u64

definition new_AddrInfo :: AddrInfo where
  "new_AddrInfo = \<lparr>ai_domainString = None, ai_ipString = None, ai_geo = None, ai_tag = None,
     ai_component = None, ai_udpMigrateID = 0\<rparr>"

record MatchResult =
  mr_ListName :: string
  mr_Matched :: bool

record MatchHistoryEntry =
  mh_RuleName :: string
  mh_History :: "MatchResult list"

record Context =
  cx_Source :: "sys_addr option"
  cx_Destination :: "sys_addr option"
  cx_inbound :: "sys_addr option"
  cx_inboundName :: "string option"
  cx_interfaceName :: "string option"
  cx_fakeIP :: "sys_addr option"
  cx_hosts :: "sys_addr option"
  cx_addrInfo :: "AddrInfo option"
  cx_sniff :: "Sniff option"
  cx_ruleChain :: "MatchHistoryEntry list"
  cx_connOptions :: "ConnOptions option"
  cx_Hash :: string
  cx_NodeName :: string

definition WithContext :: Context where
  "WithContext = \<lparr>cx_Source = None, cx_Destination = None, cx_inbound = None, cx_inboundName = None,
     cx_interfaceName = None, cx_fakeIP = None, cx_hosts = None, cx_addrInfo = None, cx_sniff = None,
     cx_ruleChain = [], cx_connOptions = None, cx_Hash = [], cx_NodeName = []\<rparr>"

definition cx_NewMatch :: "string \<Rightarrow> Context \<Rightarrow> Context" where
  "cx_NewMatch ruleName c = c\<lparr>cx_ruleChain := cx_ruleChain c @ [\<lparr>mh_RuleName = ruleName, mh_History = []\<rparr>]\<rparr>"

definition cx_AddMatchHistory :: "string \<Rightarrow> bool \<Rightarrow> Context \<Rightarrow> Context" where
  "cx_AddMatchHistory listName matched c =
     (if length (cx_ruleChain c) = 0 then c
      else
        let l = last (cx_ruleChain c) in
        c\<lparr>cx_ruleChain := butlast (cx_ruleChain c)
            @ [l\<lparr>mh_History := mh_History l @ [\<lparr>mr_ListName = listName, mr_Matched = matched\<rparr>]\<rparr>]\<rparr>)"

definition cx_ConnOptions :: "Context \<Rightarrow> ConnOptions \<times> Context" where
  "cx_ConnOptions s =
     (case cx_connOptions s of
        Some o1 \<Rightarrow> (o1, s)
      | None \<Rightarrow> (new_ConnOptions, s\<lparr>cx_connOptions := Some new_ConnOptions\<rparr>))"

definition cx_update_ConnOptions :: "(ConnOptions \<Rightarrow> ConnOptions) \<Rightarrow> Context \<Rightarrow> Context" where
  "cx_update_ConnOptions f s = (case cx_ConnOptions s of (o1, s') \<Rightarrow> s'\<lparr>cx_connOptions := Some (f o1)\<rparr>)"

definition cx_setAddrInfo :: "(AddrInfo \<Rightarrow> AddrInfo) \<Rightarrow> Context \<Rightarrow> Context" where
  "cx_setAddrInfo f c = c\<lparr>cx_addrInfo := Some (f (case cx_addrInfo c of None \<Rightarrow> new_AddrInfo | Some a \<Rightarrow> a))\<rparr>"

definition addr_info_string :: "(AddrInfo \<Rightarrow> string option) \<Rightarrow> Context \<Rightarrow> string" where
  "addr_info_string get c =
     (case cx_addrInfo c of None \<Rightarrow> [] | Some a \<Rightarrow> deref_string (get a))"

definition cx_SetDomainString :: "string \<Rightarrow> Context \<Rightarrow> Context" where
  "cx_SetDomainString str s = (if str = [] then s else cx_setAddrInfo (\<lambda>a. a\<lparr>ai_domainString := Some str\<rparr>) s)"

definition cx_GetDomainString :: "Context \<Rightarrow> string" where
  "cx_GetDomainString s = addr_info_string ai_domainString s"

definition cx_SetIPString :: "string \<Rightarrow> Context \<Rightarrow> Context" where
  "cx_SetIPString str s = (if str = [] then s else cx_setAddrInfo (\<lambda>a. a\<lparr>ai_ipString := Some str\<rparr>) s)"

definition cx_GetIPString :: "Context \<Rightarrow> string" where
  "cx_GetIPString s = addr_info_string ai_ipString s"

definition cx_SetTag :: "string \<Rightarrow> Context \<Rightarrow> Context" where
  "cx_SetTag str s = (if str = [] then s else cx_setAddrInfo (\<lambda>a. a\<lparr>ai_tag := Some str\<rparr>) s)"

definition cx_GetTag :: "Context \<Rightarrow> string" where
  "cx_GetTag s = addr_info_string ai_tag s"

definition cx_SetComponent :: "string \<Rightarrow> Context \<Rightarrow> Context" where
  "cx_SetComponent str s = (if str = [] then s else cx_setAddrInfo (\<lambda>a. a\<lparr>ai_component := Some str\<rparr>) s)"

definition cx_GetComponent :: "Context \<Rightarrow> string" where
  "cx_GetComponent s = addr_info_string ai_component s"

definition cx_SetGeo :: "string \<Rightarrow> Context \<Rightarrow> Context" where
  "cx_SetGeo str s = (if str = [] then s else cx_setAddrInfo (\<lambda>a. a\<lparr>ai_geo := Some str\<rparr>) s)"

definition cx_GetGeo :: "Context \<Rightarrow> string" where
  "cx_GetGeo s = addr_info_string ai_geo s"

definition cx_SetUDPMigrateID :: "u64 \<Rightarrow> Context \<Rightarrow> Context" where
  "cx_SetUDPMigrateID i s = (if i = 0 then s else cx_setAddrInfo (\<lambda>a. a\<lparr>ai_udpMigrateID := i\<rparr>) s)"

definition cx_GetUDPMigrateID :: "Context \<Rightarrow> u64" where
  "cx_GetUDPMigrateID s = (case cx_addrInfo s of None \<Rightarrow> 0 | Some a \<Rightarrow> ai_udpMigrateID a)"

definition cx_SetInbound :: "sys_addr option \<Rightarrow> Context \<Rightarrow> Context" where
  "cx_SetInbound ad c = (if ad = None then c else c\<lparr>cx_inbound := ad\<rparr>)"

definition cx_SetInboundName :: "string \<Rightarrow> Context \<Rightarrow> Context" where
  "cx_SetInboundName name c = (if name = [] then c else c\<lparr>cx_inboundName := Some name\<rparr>)"

definition cx_GetInboundName :: "Context \<Rightarrow> string" where
  "cx_GetInboundName c = deref_string (cx_inboundName c)"

definition cx_SetInterface :: "string \<Rightarrow> Context \<Rightarrow> Context" where
  "cx_SetInterface name c = (if name = [] then c else c\<lparr>cx_interfaceName := Some name\<rparr>)"

definition cx_GetInterface :: "Context \<Rightarrow> string" where
  "cx_GetInterface c = deref_string (cx_interfaceName c)"

definition cx_SetFakeIP :: "sys_addr option \<Rightarrow> Context \<Rightarrow> Context" where
  "cx_SetFakeIP ad c = (if ad = None then c else c\<lparr>cx_fakeIP := ad\<rparr>)"

definition cx_SetHosts :: "sys_addr option \<Rightarrow> Context \<Rightarrow> Context" where
  "cx_SetHosts ad c = (if ad = None then c else c\<lparr>cx_hosts := ad\<rparr>)"

definition cx_setSniff :: "(Sniff \<Rightarrow> Sniff) \<Rightarrow> Context \<Rightarrow> Context" where
  "cx_setSniff f c = c\<lparr>cx_sniff := Some (f (case cx_sniff c of None \<Rightarrow> new_Sniff | Some s \<Rightarrow> s))\<rparr>"

definition sniff_string :: "(Sniff \<Rightarrow> string option) \<Rightarrow> Context \<Rightarrow> string" where
  "sniff_string get c = (case cx_sniff c of None \<Rightarrow> [] | Some s \<Rightarrow> deref_string (get s))"

definition cx_SetProtocol :: "string \<Rightarrow> Context \<Rightarrow> Context" where
  "cx_SetProtocol p c = (if p = [] then c else cx_setSniff (\<lambda>s. s\<lparr>sn_protocol := Some p\<rparr>) c)"

definition cx_GetProtocol :: "Context \<Rightarrow> string" where
  "cx_GetProtocol c = sniff_string sn_protocol c"

definition cx_SetTLSServerName :: "string \<Rightarrow> Context \<Rightarrow> Context" where
  "cx_SetTLSServerName p c = (if p = [] then c else cx_setSniff (\<lambda>s. s\<lparr>sn_tlsServerName := Some p\<rparr>) c)"

definition cx_GetTLSServerName :: "Context \<Rightarrow> string" where
  "cx_GetTLSServerName c = sniff_string sn_tlsServerName c"

definition cx_SetHTTPHost :: "string \<Rightarrow> Context \<Rightarrow> Context" where
  "cx_SetHTTPHost p c = (if p = [] then c else cx_setSniff (\<lambda>s. s\<lparr>sn_httpHost := Some p\<rparr>) c)"

definition cx_GetHTTPHost :: "Context \<Rightarrow> string" where
  "cx_GetHTTPHost c = sniff_string sn_httpHost c"

definition cx_SetProcess :: "string \<Rightarrow> nat \<Rightarrow> nat \<Rightarrow> Context \<Rightarrow> Context" where
  "cx_SetProcess p pid uid c =
     (if p = [] \<and> pid = 0 \<and> uid = 0 then c
      else cx_setSniff (\<lambda>s. s\<lparr>sn_process := Some p, sn_processPid := pid, sn_processUid := uid\<rparr>) c)"

definition cx_GetProcess :: "Context \<Rightarrow> string \<times> nat \<times> nat" where
  "cx_GetProcess c =
     (case cx_sniff c of
        None \<Rightarrow> ([], 0, 0)
      | Some s \<Rightarrow>
          (case sn_process s of None \<Rightarrow> ([], 0, 0) | Some p \<Rightarrow> (p, sn_processPid s, sn_processUid s)))"

definition cx_GetProcessName :: "Context \<Rightarrow> string" where
  "cx_GetProcessName c = sniff_string sn_process c"

definition cx_SniffHost :: "Context \<Rightarrow> string" where
  "cx_SniffHost c = (if cx_GetTLSServerName c \<noteq> [] then cx_GetTLSServerName c else cx_GetHTTPHost c)"

section \<open>Lookups for a context\<close>

text \<open>The bootstrap resolver before and after \<^verbatim>\<open>SetBootstrap\<close>.\<close>

definition bootstrap_LookupIP :: "resolver option \<Rightarrow> string \<Rightarrow> (LookupIPOption \<Rightarrow> LookupIPOption) list \<Rightarrow> ips_result" where
  "bootstrap_LookupIP b d opts =
     (case b of
        None \<Rightarrow> (None, Some ''bootstrap resolver is not initialized'')
      | Some r \<Rightarrow> res_LookupIP r d opts)"

definition ResolverIP :: "resolver option \<Rightarrow> Context \<Rightarrow> string \<Rightarrow> ips_result" where
  "ResolverIP bootstrap ctx ad =
     (let netctx = fst (co_Resolver (fst (cx_ConnOptions ctx)));
          lookup = (case ro_resolver netctx of Some r \<Rightarrow> res_LookupIP r | None \<Rightarrow> bootstrap_LookupIP bootstrap);
          second = (case lookup ad (ro_Opts netctx True) of
              (ips, None) \<Rightarrow> (ips, None)
            | (ips, Some e) \<Rightarrow> (None, Some (''resolve address('' @ ad @ '') failed: '' @ e)))
      in if ro_mode netctx \<noteq> ResolverModeNoSpecified then
           (case lookup ad (ro_Opts netctx False) of
              (ips, None) \<Rightarrow> (ips, None)
            | (ips, Some e) \<Rightarrow> second)
         else second)"

section \<open>Properties\<close>

lemma co_SetRouteMode_sticky:
  "co_routeMode s \<noteq> [] \<Longrightarrow> co_routeMode s \<noteq> ''bypass'' \<Longrightarrow> foldl (\<lambda>s m. co_SetRouteMode m s) s ms = s"
  by (induction ms) (simp_all add: co_SetRouteMode_def)

text \<open>The first route mode other than the default wins: later settings of the mode have no effect, and
  settings of an empty or bypass mode never hide a later one.\<close>

theorem route_mode_first_wins:
  "co_RouteMode (foldl (\<lambda>s m. co_SetRouteMode m s) new_ConnOptions ms) =
     (case find (\<lambda>m. m \<noteq> [] \<and> m \<noteq> ''bypass'') ms of None \<Rightarrow> ''bypass'' | Some m \<Rightarrow> m)"
proof -
  have "co_routeMode s = [] \<or> co_routeMode s = ''bypass'' \<Longrightarrow>
      co_RouteMode (foldl (\<lambda>s m. co_SetRouteMode m s) s ms) =
        (case find (\<lambda>m. m \<noteq> [] \<and> m \<noteq> ''bypass'') ms of None \<Rightarrow> ''bypass'' | Some m \<Rightarrow> m)" for s
  proof (induction ms arbitrary: s)
    case Nil
    then show ?case by (auto simp: co_RouteMode_def)
  next
    case (Cons m ms)
    have m: "co_SetRouteMode m s = s\<lparr>co_routeMode := m\<rparr>" using Cons.prems by (auto simp: co_SetRouteMode_def)
    show ?case
    proof (cases "m = [] \<or> m = ''bypass''")
      case True
      then show ?thesis using Cons.IH [of "s\<lparr>co_routeMode := m\<rparr>"] by (auto simp: m)
    next
      case False
      then show ?thesis by (simp add: m co_SetRouteMode_sticky co_RouteMode_def)
    qed
  qed
  then show ?thesis by (simp add: new_ConnOptions_def)
qed

text \<open>A route lookup is made once per connection: after a first call, every later call, for whatever
  address and after any change of the resolver, leaves the options unchanged and gives the stored
  result; a successful first result is returned again.\<close>

theorem RouteIPs_cached:
  assumes "ro_resolver (fst (co_Resolver s)) \<noteq> None"
  shows "let s' = co_update_Resolver f (snd (co_RouteIPs ad s)) in
    snd (co_RouteIPs ad' s') = s' \<and>
    (snd (fst (co_RouteIPs ad s)) = None \<longrightarrow> fst (co_RouteIPs ad' s') = fst (co_RouteIPs ad s))"
proof -
  let ?s = "snd (co_RouteIPs ad s)"
  have "\<exists>rc. co_routeCache ?s = Some rc \<and> (snd (fst (co_RouteIPs ad s)) = None \<longrightarrow> rc = fst (co_RouteIPs ad s))"
    using assms
    by (auto simp: co_RouteIPs_def co_setRouteCache_def Let_def split: option.splits prod.splits)
  moreover have "co_routeCache (co_update_Resolver f ?s) = co_routeCache ?s"
    by (simp add: co_update_Resolver_def co_Resolver_def split: option.splits prod.splits)
  ultimately show ?thesis by (auto simp: co_RouteIPs_def Let_def)
qed

theorem RouteIPs_cached_witness:
  "\<exists>s s' ips. fst (co_RouteIPs EmptyAddr s) = (Some ips, None) \<and>
     s' = co_update_Resolver (\<lambda>r. r\<lparr>ro_resolver := None\<rparr>) (snd (co_RouteIPs EmptyAddr s)) \<and>
     co_RouteIPs EmptyAddr s' = ((Some ips, None), s')"
proof -
  let ?ips = "\<lparr>AAAA = [], A_ips = [[1, 2, 3, 4]]\<rparr>"
  let ?r = "\<lparr>res_Name = ''r'', res_LookupIP = \<lambda>_ _. (Some ?ips, None)\<rparr>"
  let ?s = "co_SetResolver (ro_SetResolver (Some ?r) new_ResolverOptions) new_ConnOptions"
  have r: "ro_resolver (fst (co_Resolver ?s)) \<noteq> None"
    by (simp add: co_Resolver_def co_SetResolver_def ro_SetResolver_def new_ResolverOptions_def)
  have f: "fst (co_RouteIPs EmptyAddr ?s) = (Some ?ips, None)"
    by (simp add: co_RouteIPs_def co_Resolver_def co_SetResolver_def ro_SetResolver_def new_ResolverOptions_def
        new_ConnOptions_def Let_def)
  let ?s' = "co_update_Resolver (\<lambda>r. r\<lparr>ro_resolver := None\<rparr>) (snd (co_RouteIPs EmptyAddr ?s))"
  have "snd (co_RouteIPs EmptyAddr ?s') = ?s' \<and> fst (co_RouteIPs EmptyAddr ?s') = (Some ?ips, None)"
    using RouteIPs_cached [OF r, of "\<lambda>r. r\<lparr>ro_resolver := None\<rparr>" EmptyAddr EmptyAddr] f
    by (simp add: Let_def)
  then have "co_RouteIPs EmptyAddr ?s' = ((Some ?ips, None), ?s')" by (metis prod.collapse)
  with f show ?thesis by blast
qed

text \<open>When the preferred family is IPv4 the fallback lookup of ResolverIP asks for IPv4 again: if the
  IPv4 lookup fails, ResolverIP fails, whatever the other family would give.\<close>

theorem ResolverIP_prefer_IPv4_no_fallback:
  assumes "cx_connOptions ctx = Some co" "co_resolver co = Some ro" "ro_resolver ro = Some r"
    and "ro_mode ro = ResolverModePreferIPv4"
    and "snd (res_LookupIP r host [\<lambda>li. li\<lparr>li_Mode := ResolverModePreferIPv4\<rparr>]) \<noteq> None"
  shows "snd (ResolverIP b ctx host) \<noteq> None"
  using assms
  by (auto simp: ResolverIP_def Let_def co_Resolver_def cx_ConnOptions_def ro_Opts_def
      split: option.splits prod.splits)

text \<open>A resolver with IPv6 addresses only: preferring IPv4 fails, although the other family has an address.\<close>

theorem ResolverIP_prefer_IPv4_no_fallback_witness:
  "let r = \<lparr>res_Name = ''six'', res_LookupIP = \<lambda>_ opts.
         if li_Mode (foldl (\<lambda>x f. f x) \<lparr>li_Mode = ResolverModeNoSpecified\<rparr> opts) = ResolverModePreferIPv4
         then (None, Some ''no A record'') else (Some \<lparr>AAAA = [replicate 16 1], A_ips = []\<rparr>, None)\<rparr>;
       ro = ro_SetMode ResolverModePreferIPv4 (ro_SetResolver (Some r) new_ResolverOptions);
       ctx = cx_update_ConnOptions (co_SetResolver ro) WithContext
   in snd (ResolverIP None ctx ''a.com'') \<noteq> None"
proof -
  let ?r = "\<lparr>res_Name = ''six'', res_LookupIP = \<lambda>_ opts.
         if li_Mode (foldl (\<lambda>x f. f x) \<lparr>li_Mode = ResolverModeNoSpecified\<rparr> opts) = ResolverModePreferIPv4
         then (None, Some ''no A record'') else (Some \<lparr>AAAA = [replicate 16 1], A_ips = []\<rparr>, None)\<rparr> :: resolver"
  let ?ro = "ro_SetMode ResolverModePreferIPv4 (ro_SetResolver (Some ?r) new_ResolverOptions)"
  show ?thesis
    unfolding Let_def
    by (rule ResolverIP_prefer_IPv4_no_fallback [where co = "co_SetResolver ?ro new_ConnOptions" and ro = ?ro and r = ?r])
      (simp_all add: cx_update_ConnOptions_def cx_ConnOptions_def WithContext_def co_SetResolver_def ro_SetMode_def
        ro_SetResolver_def new_ResolverOptions_def)
qed

text \<open>The lists attached to a connection: no empty name and no duplicate is ever added.\<close>

lemma co_AddLists_eq: "co_lists (co_AddLists ls s) = append_uniques (co_lists s) (filter (\<lambda>l. l \<noteq> []) ls)"
  by (induction ls s rule: co_AddLists.induct) (auto simp: co_HasList_def append_unique_def append_uniques_simps)

text \<open>A history entry goes to the rule started last: the entries recorded between two NewMatch calls
  are exactly the history of the first of the two rules, in order.\<close>

theorem match_history_trace:
  "cx_ruleChain (foldl (\<lambda>c (l, m). cx_AddMatchHistory l m c) (cx_NewMatch rule c) hs) =
     cx_ruleChain c @ [\<lparr>mh_RuleName = rule, mh_History = map (\<lambda>(l, m). \<lparr>mr_ListName = l, mr_Matched = m\<rparr>) hs\<rparr>]"
proof (induction hs rule: rev_induct)
  case Nil
  then show ?case by (simp add: cx_NewMatch_def)
next
  case (snoc x xs)
  then show ?case by (cases x) (simp add: cx_AddMatchHistory_def Let_def)
qed

end
