(* ===== verification/Trie_V2.thy ===== *)
theory Trie_V2
  imports Cidr_Trie Domain_Trie Conn_Context
begin

text \<open>
  The matcher that combines CIDR prefixes and domain patterns (\<^verbatim>\<open>pkg/net/trie/v2/trie.go\<close>). The two parts
  are values of Go interfaces: a dictionary of operations for \<^verbatim>\<open>cidrMatcher\<close> and one for \<^verbatim>\<open>domain.Trie\<close>,
  each with its own state. The locale \<open>trie_parts\<close> joins the contracts of the two; it is interpreted on
  the in-memory parts.
\<close>

section \<open>The interfaces and the trie\<close>

record ('c, 'a) cidrMatcher =
  cm_InsertCIDR :: "netip_prefix \<Rightarrow> 'a \<Rightarrow> 'c \<Rightarrow> 'c"
  cm_InsertIP :: "addr \<Rightarrow> int \<Rightarrow> 'a \<Rightarrow> 'c \<Rightarrow> 'c"
  cm_SearchIP :: "'c \<Rightarrow> bytes \<Rightarrow> 'a list"
  cm_RemoveCIDR :: "netip_prefix \<Rightarrow> 'c \<Rightarrow> 'c"
  cm_RemoveIP :: "addr \<Rightarrow> int \<Rightarrow> 'c \<Rightarrow> 'c"
  cm_Clear :: "'c \<Rightarrow> 'c"

record ('d, 'a) domainTrie =
  dm_Insert :: "string \<Rightarrow> 'a \<Rightarrow> 'd \<Rightarrow> 'd"
  dm_Batch :: "(string \<times> 'a) list \<Rightarrow> 'd \<Rightarrow> 'd"
  dm_SearchString :: "'d \<Rightarrow> string \<Rightarrow> 'a list"
  dm_Remove :: "string \<Rightarrow> 'a \<Rightarrow> 'd \<Rightarrow> 'd"
  dm_Clear :: "'d \<Rightarrow> 'd"

record ('c, 'd, 'a) trie =
  cidr_ops :: "('c, 'a) cidrMatcher"
  domain_ops :: "('d, 'a) domainTrie"
  cidr_st :: 'c
  domain_st :: 'd

text \<open>The mask of a single address.\<close>

definition host_mask :: "addr \<Rightarrow> int" where
  "host_mask ip = (if Is4 ip then 32 else 128)"

definition trie_Insert :: "string \<Rightarrow> 'a \<Rightarrow> ('c, 'd, 'a) trie \<Rightarrow> ('c, 'd, 'a) trie" where
  "trie_Insert str mark x =
     (if str = [] then x
      else case ParsePrefix str of
          Some ipNet \<Rightarrow> x\<lparr>cidr_st := cm_InsertCIDR (cidr_ops x) ipNet mark (cidr_st x)\<rparr>
        | None \<Rightarrow>
            (case ParseAddr str of
               Some (ip, _) \<Rightarrow> x\<lparr>cidr_st := cm_InsertIP (cidr_ops x) ip (host_mask ip) mark (cidr_st x)\<rparr>
             | None \<Rightarrow> x\<lparr>domain_st := dm_Insert (domain_ops x) str mark (domain_st x)\<rparr>))"

text \<open>
  \<^verbatim>\<open>Batch\<close> hands the domain part an iterator: the prefixes and addresses met on the way go to the CIDR
  part, every other text is yielded. The result is the CIDR part after the walk and the texts yielded.
\<close>

fun batch_walk :: "('c, 'a) cidrMatcher \<Rightarrow> (string \<times> 'a) list \<Rightarrow> 'c \<Rightarrow> 'c \<times> (string \<times> 'a) list" where
  "batch_walk cm [] c = (c, [])"
| "batch_walk cm ((str, mark) # kvs) c =
     (if str = [] then batch_walk cm kvs c
      else case ParsePrefix str of
          Some ipNet \<Rightarrow> batch_walk cm kvs (cm_InsertCIDR cm ipNet mark c)
        | None \<Rightarrow>
            (case ParseAddr str of
               Some (ip, _) \<Rightarrow> batch_walk cm kvs (cm_InsertIP cm ip (host_mask ip) mark c)
             | None \<Rightarrow> (case batch_walk cm kvs c of (c', ys) \<Rightarrow> (c', (str, mark) # ys))))"

definition trie_Batch :: "(string \<times> 'a) list \<Rightarrow> ('c, 'd, 'a) trie \<Rightarrow> ('c, 'd, 'a) trie" where
  "trie_Batch kvs x =
     (case batch_walk (cidr_ops x) kvs (cidr_st x) of
        (c, ys) \<Rightarrow> x\<lparr>cidr_st := c, domain_st := dm_Batch (domain_ops x) ys (domain_st x)\<rparr>)"

definition trie_SearchFqdn :: "('c, 'd, 'a) trie \<Rightarrow> address \<Rightarrow> 'a list" where
  "trie_SearchFqdn x ad =
     (case ad of
        IPAddr ap _ \<Rightarrow> cm_SearchIP (cidr_ops x) (cidr_st x) (AsSlice (ap_Addr ap))
      | DomainAddr h _ _ \<Rightarrow> dm_SearchString (domain_ops x) (domain_st x) h)"

fun first_marks :: "(bytes \<Rightarrow> 'a list) \<Rightarrow> bytes list \<Rightarrow> 'a list" where
  "first_marks search [] = []"
| "first_marks search (ip # ips) = (let mark = search ip in if length mark > 0 then mark else first_marks search ips)"

text \<open>The search; \<open>None\<close> is the nil dereference when a resolver returns neither addresses nor an error.\<close>

definition trie_Search :: "('c, 'd, 'a) trie \<Rightarrow> Context \<Rightarrow> address \<Rightarrow> ('a list \<times> Context) option" where
  "trie_Search x ctx ad =
     (let mark = trie_SearchFqdn x ad in
      if length mark > 0 \<or> \<not> IsFqdn ad then Some (mark, ctx)
      else
        case cx_ConnOptions ctx of (co, ctx1) \<Rightarrow>
          (case co_RouteIPs ad co of
             ((ips, err), co') \<Rightarrow>
               let ctx2 = ctx1\<lparr>cx_connOptions := Some co'\<rparr> in
               if err \<noteq> None then Some ([], ctx2)
               else case ips of
                   None \<Rightarrow> None
                 | Some i \<Rightarrow> Some (first_marks (cm_SearchIP (cidr_ops x) (cidr_st x)) (ips_Iter i), ctx2)))"

definition trie_Remove :: "string \<Rightarrow> 'a \<Rightarrow> ('c, 'd, 'a) trie \<Rightarrow> ('c, 'd, 'a) trie" where
  "trie_Remove str mark x =
     (if str = [] then x
      else case ParsePrefix str of
          Some ipNet \<Rightarrow> x\<lparr>cidr_st := cm_RemoveCIDR (cidr_ops x) ipNet (cidr_st x)\<rparr>
        | None \<Rightarrow>
            (case ParseAddr str of
               Some (ip, _) \<Rightarrow> x\<lparr>cidr_st := cm_RemoveIP (cidr_ops x) ip (host_mask ip) (cidr_st x)\<rparr>
             | None \<Rightarrow> x\<lparr>domain_st := dm_Remove (domain_ops x) str mark (domain_st x)\<rparr>))"

definition trie_Clear :: "('c, 'd, 'a) trie \<Rightarrow> ('c, 'd, 'a) trie" where
  "trie_Clear x = x\<lparr>cidr_st := cm_Clear (cidr_ops x) (cidr_st x), domain_st := dm_Clear (domain_ops x) (domain_st x)\<rparr>"

text \<open>\<^verbatim>\<open>NewTrie\<close> without disk options.\<close>

definition mem_cidrMatcher :: "('a cidr, 'a) cidrMatcher" where
  "mem_cidrMatcher = \<lparr>cm_InsertCIDR = cidr_InsertCIDR, cm_InsertIP = cidr_InsertIP, cm_SearchIP = cidr_SearchIP,
     cm_RemoveCIDR = cidr_RemoveCIDR, cm_RemoveIP = cidr_RemoveIP, cm_Clear = cidr_Clear\<rparr>"

definition mem_domainTrie :: "('a fqdn, 'a) domainTrie" where
  "mem_domainTrie = \<lparr>dm_Insert = fqdn_Insert, dm_Batch = fqdn_Batch, dm_SearchString = fqdn_SearchString,
     dm_Remove = fqdn_Remove, dm_Clear = fqdn_Clear\<rparr>"

definition trie_NewTrie :: "('a cidr, 'a fqdn, 'a) trie" where
  "trie_NewTrie = \<lparr>cidr_ops = mem_cidrMatcher, domain_ops = mem_domainTrie, cidr_st = NewCidr, domain_st = fqdn_NewTrie\<rparr>"

section \<open>Where a text goes\<close>

text \<open>The classification of a text, and the operation on one of the two parts a call stands for.\<close>

datatype entry = NoEntry | NetEntry netip_prefix | NameEntry string

definition classify :: "string \<Rightarrow> entry" where
  "classify str =
     (if str = [] then NoEntry
      else case ParsePrefix str of
          Some p \<Rightarrow> NetEntry p
        | None \<Rightarrow>
            (case ParseAddr str of
               Some (ip, _) \<Rightarrow> NetEntry \<lparr>pAddr = ip, pBits = host_mask ip\<rparr>
             | None \<Rightarrow> NameEntry str))"

lemma classify_cases:
  "classify str = NetEntry p \<Longrightarrow> prefix_IsValid p"
  "classify str = NameEntry d \<Longrightarrow> d = str \<and> str \<noteq> []"
proof -
  have "addr_IsValid a \<Longrightarrow> prefix_IsValid \<lparr>pAddr = a, pBits = host_mask a\<rparr>" for a
    by (cases a) (simp_all add: prefix_IsValid_def host_mask_def)
  then show "classify str = NetEntry p \<Longrightarrow> prefix_IsValid p"
    by (auto simp: classify_def dest: ParsePrefix_valid ParseAddr_valid split: if_splits option.splits)
qed (auto simp: classify_def split: if_splits option.splits)

datatype 'a trie_op = TInsert string 'a | TRemove string 'a | TClear

fun trie_step :: "('c, 'd, 'a) trie \<Rightarrow> 'a trie_op \<Rightarrow> ('c, 'd, 'a) trie" where
  "trie_step x (TInsert s m) = trie_Insert s m x"
| "trie_step x (TRemove s m) = trie_Remove s m x"
| "trie_step x TClear = trie_Clear x"

fun to_cidr_op :: "'a trie_op \<Rightarrow> 'a cidr_op list" where
  "to_cidr_op (TInsert s m) = (case classify s of NetEntry p \<Rightarrow> [InsertOp p m] | _ \<Rightarrow> [])"
| "to_cidr_op (TRemove s m) = (case classify s of NetEntry p \<Rightarrow> [RemoveOp p] | _ \<Rightarrow> [])"
| "to_cidr_op TClear = [ClearOp]"

fun to_domain_op :: "'a trie_op \<Rightarrow> 'a domain_op list" where
  "to_domain_op (TInsert s m) = (case classify s of NameEntry d \<Rightarrow> [DInsert d m] | _ \<Rightarrow> [])"
| "to_domain_op (TRemove s m) = (case classify s of NameEntry d \<Rightarrow> [DRemove d m] | _ \<Rightarrow> [])"
| "to_domain_op TClear = [DClear]"

lemma to_cidr_op_valid: "o1 \<in> set (to_cidr_op t) \<Longrightarrow> cidr_op_valid o1"
  by (cases t) (auto dest: classify_cases(1) [OF sym] split: entry.splits)

text \<open>What a trie matches after a history of calls.\<close>

definition trie_match :: "'a trie_op list \<Rightarrow> address \<Rightarrow> 'a set" where
  "trie_match h ad =
     (case ad of
        IPAddr ap _ \<Rightarrow>
          {m. \<exists>p. (p, m) \<in> live_prefixes (concat (map to_cidr_op h)) \<and> prefix_Contains p (Unmap (ap_Addr ap))}
      | DomainAddr d _ _ \<Rightarrow>
          domain_match (foldl (dlive_step (CHR ''.'')) {} (concat (map to_domain_op h))) (labels (CHR ''.'') d))"

section \<open>The contract of a trie\<close>

locale trie_parts =
  cm: cidr_matcher InsertCIDR InsertIP RemoveCIDR RemoveIP SearchIP cClear stored cinv +
  dm: domain_matcher dInsert dRemove dSearch dClear separator patterns dinv
  for InsertCIDR :: "netip_prefix \<Rightarrow> 'a \<Rightarrow> 'c \<Rightarrow> 'c" and InsertIP RemoveCIDR RemoveIP SearchIP cClear stored cinv
    and dInsert :: "string \<Rightarrow> 'a \<Rightarrow> 'd \<Rightarrow> 'd" and dRemove dSearch dClear separator patterns dinv +
  fixes dBatch :: "(string \<times> 'a) list \<Rightarrow> 'd \<Rightarrow> 'd"
  assumes dBatch_foldl: "dBatch kvs d = foldl (\<lambda>d (k, v). dInsert k v d) d kvs"
begin

definition ops_of :: "('c, 'd, 'a) trie \<Rightarrow> bool" where
  "ops_of x \<longleftrightarrow>
     cidr_ops x = \<lparr>cm_InsertCIDR = InsertCIDR, cm_InsertIP = InsertIP, cm_SearchIP = SearchIP,
       cm_RemoveCIDR = RemoveCIDR, cm_RemoveIP = RemoveIP, cm_Clear = cClear\<rparr> \<and>
     domain_ops x = \<lparr>dm_Insert = dInsert, dm_Batch = dBatch, dm_SearchString = dSearch, dm_Remove = dRemove, dm_Clear = dClear\<rparr>"

lemma step_parts:
  assumes "ops_of x"
  shows "trie_step x t = x\<lparr>cidr_st := foldl cm.run_op (cidr_st x) (to_cidr_op t),
    domain_st := foldl dm.drun_op (domain_st x) (to_domain_op t)\<rparr>"
  using assms
  by (cases t) (auto simp: ops_of_def trie_Insert_def trie_Remove_def trie_Clear_def classify_def cm.run_op_def
      dm.drun_op_def cm.CIDR_IP split: option.splits)

lemma run_parts:
  "ops_of x \<Longrightarrow> foldl trie_step x h = x\<lparr>cidr_st := foldl cm.run_op (cidr_st x) (concat (map to_cidr_op h)),
    domain_st := foldl dm.drun_op (domain_st x) (concat (map to_domain_op h))\<rparr>"
proof (induction h arbitrary: x)
  case (Cons t h)
  have "ops_of (trie_step x t)" using Cons.prems step_parts [OF Cons.prems] by (simp add: ops_of_def)
  then show ?case using Cons.IH [of "trie_step x t"] step_parts [OF Cons.prems] by simp
qed simp

lemma search_parts:
  assumes "ops_of x" "cinv (cidr_st x)" "\<And>f q. stored (cidr_st x) f q = {}"
    "dinv (domain_st x)" "patterns (domain_st x) = {}" "separator (domain_st x) = CHR ''.''"
    "\<And>ap n. ad = IPAddr ap n \<Longrightarrow> addr_IsValid (ap_Addr ap)"
  shows "set (trie_SearchFqdn (foldl trie_step x h) ad) = trie_match h ad"
proof -
  have v: "\<forall>o1 \<in> set (concat (map to_cidr_op h)). cidr_op_valid o1"
    using to_cidr_op_valid by auto
  show ?thesis
    using assms cm.search_after_history [OF assms(2,3) v] dm.search_after_ops [OF assms(4)]
    by (cases ad) (simp_all add: run_parts trie_SearchFqdn_def trie_match_def ops_of_def)
qed

lemma batch_walk_parts:
  assumes "cidr_ops x = cm" "ops_of x"
  shows "foldl (\<lambda>x (k, v). trie_Insert k v x) x kvs =
    (case batch_walk cm kvs (cidr_st x) of (c, ys) \<Rightarrow>
       x\<lparr>cidr_st := c, domain_st := foldl (\<lambda>d (k, v). dInsert k v d) (domain_st x) ys\<rparr>)"
  using assms
proof (induction kvs arbitrary: x)
  case (Cons kv kvs)
  obtain k v where kv: "kv = (k, v)" by (cases kv)
  have o1: "ops_of (trie_Insert k v x)" "cidr_ops (trie_Insert k v x) = cm"
    using Cons.prems by (auto simp: ops_of_def trie_Insert_def split: option.splits)
  show ?case
    using Cons.IH [OF o1(2,1)] Cons.prems kv
    by (auto simp: trie_Insert_def ops_of_def split: option.splits prod.splits)
qed simp

lemma batch_parts: "ops_of x \<Longrightarrow> trie_Batch kvs x = foldl (\<lambda>x (k, v). trie_Insert k v x) x kvs"
  using batch_walk_parts [OF refl, of x kvs]
  by (simp add: trie_Batch_def ops_of_def dBatch_foldl split: prod.splits)

end

lemma fqdn_Batch_foldl: "fqdn_Batch kvs t = foldl (\<lambda>d (k, v). fqdn_Insert k v d) t kvs"
  by (induction kvs t rule: fqdn_Batch.induct) auto

interpretation mt: trie_parts cidr_InsertCIDR cidr_InsertIP cidr_RemoveCIDR cidr_RemoveIP cidr_SearchIP
  cidr_Clear "\<lambda>c f q. set (cidr_at c f q)" "\<lambda>_. True"
  fqdn_Insert fqdn_Remove fqdn_SearchString fqdn_Clear fseparate fqdn_patterns fqdn_inv fqdn_Batch
  by unfold_locales (rule fqdn_Batch_foldl)


lemma ops_of_NewTrie: "mt.ops_of trie_NewTrie"
  by (simp add: mt.ops_of_def trie_NewTrie_def mem_cidrMatcher_def mem_domainTrie_def)

lemma ops_of_run: "mt.ops_of (foldl trie_step trie_NewTrie h)"
  unfolding mt.run_parts [OF ops_of_NewTrie] using ops_of_NewTrie by (simp add: mt.ops_of_def)

section \<open>The in-memory trie\<close>

definition address_IsValid :: "address \<Rightarrow> bool" where
  "address_IsValid ad \<longleftrightarrow> (case ad of IPAddr ap _ \<Rightarrow> addr_IsValid (ap_Addr ap) | DomainAddr _ _ _ \<Rightarrow> True)"

lemma trie_run_search:
  assumes "address_IsValid ad"
  shows "set (trie_SearchFqdn (foldl trie_step trie_NewTrie h) ad) = trie_match h ad"
  using assms ops_of_NewTrie
  by (intro mt.search_parts) (auto simp: address_IsValid_def trie_NewTrie_def go_simps fqdn_inv_def
      fqdn_NewTrie_def fqdn_patterns_def dt_patterns_def)



text \<open>A batch of entries has the effect of inserting them one by one in order, although the CIDR
  entries are stored while the domain part drives the iteration.\<close>

theorem trie_batch_is_inserts:
  "trie_Batch kvs (foldl trie_step trie_NewTrie h) =
     foldl (\<lambda>x (k, v). trie_Insert k v x) (foldl trie_step trie_NewTrie h) kvs"
  by (rule mt.batch_parts [OF ops_of_run])

text \<open>The marks of an address as the search over resolved addresses sees them.\<close>

definition ip_match :: "'a trie_op list \<Rightarrow> addr \<Rightarrow> 'a set" where
  "ip_match h a = trie_match h (IPAddr \<lparr>ap_Addr = a, ap_Zone = [], ap_Port = 0\<rparr> Unknown)"

lemma first_marks_find:
  "\<forall>a \<in> set as. set (search (AsSlice a)) = f a \<Longrightarrow>
     set (first_marks search (map AsSlice as)) = (case find (\<lambda>a. f a \<noteq> {}) as of None \<Rightarrow> {} | Some a \<Rightarrow> f a)"
  by (induction as) (auto simp: Let_def)

lemma run_SearchIP:
  assumes "addr_IsValid a"
  shows "set (cm_SearchIP (cidr_ops (foldl trie_step trie_NewTrie h)) (cidr_st (foldl trie_step trie_NewTrie h)) (AsSlice a))
    = ip_match h a"
  using trie_run_search [of "IPAddr \<lparr>ap_Addr = a, ap_Zone = [], ap_Port = 0\<rparr> Unknown" h] assms
  by (simp add: ip_match_def address_IsValid_def trie_SearchFqdn_def)

text \<open>Search of a name with no matching pattern resolves the name once and returns the marks of the
  first resolved address, in the order A before AAAA, that some live prefix contains; every other
  address returns its own marks without a lookup.\<close>

theorem trie_Search_resolved:
  assumes "address_IsValid ad"
    and "co_RouteIPs ad (fst (cx_ConnOptions ctx)) = ((Some i, None), co')"
    and "ips_Iter i = map AsSlice as" and "\<forall>a \<in> set as. addr_IsValid a"
  shows "\<exists>ms ctx'. trie_Search (foldl trie_step trie_NewTrie h) ctx ad = Some (ms, ctx') \<and>
    set ms = (if trie_match h ad \<noteq> {} \<or> \<not> IsFqdn ad then trie_match h ad
              else case find (\<lambda>a. ip_match h a \<noteq> {}) as of None \<Rightarrow> {} | Some a \<Rightarrow> ip_match h a)"
proof -
  let ?x = "foldl trie_step trie_NewTrie h"
  note m = trie_run_search [OF assms(1), of h]
  have f: "set (first_marks (cm_SearchIP (cidr_ops ?x) (cidr_st ?x)) (ips_Iter i)) =
      (case find (\<lambda>a. ip_match h a \<noteq> {}) as of None \<Rightarrow> {} | Some a \<Rightarrow> ip_match h a)"
    unfolding assms(3) using assms(4) by (intro first_marks_find) (simp add: run_SearchIP)
  show ?thesis
  proof (cases "trie_SearchFqdn ?x ad = [] \<and> IsFqdn ad")
    case True
    then have "trie_match h ad = {}" using m by simp
    then show ?thesis
      using True assms(2) f by (cases "cx_ConnOptions ctx") (simp add: trie_Search_def)
  next
    case False
    then have "trie_match h ad \<noteq> {} \<or> \<not> IsFqdn ad" using m by auto
    then show ?thesis using False m by (auto simp: trie_Search_def)
  qed
qed

theorem trie_Search_resolved_witness:
  "\<exists>ctx ms ctx'. trie_Search (foldl trie_step trie_NewTrie [TInsert ''10.0.0.0/8'' ''lan'']) ctx
       (DomainAddr ''a.com'' 80 TCP) = Some (ms, ctx') \<and>
     set ms = (if trie_match [TInsert ''10.0.0.0/8'' ''lan''] (DomainAddr ''a.com'' 80 TCP) \<noteq> {} \<or>
                  \<not> IsFqdn (DomainAddr ''a.com'' 80 TCP)
               then trie_match [TInsert ''10.0.0.0/8'' ''lan''] (DomainAddr ''a.com'' 80 TCP)
               else case find (\<lambda>a. ip_match [TInsert ''10.0.0.0/8'' ''lan''] a \<noteq> {}) [Addr4 0x0a000001] of
                 None \<Rightarrow> {} | Some a \<Rightarrow> ip_match [TInsert ''10.0.0.0/8'' ''lan''] a)"
proof -
  let ?i = "\<lparr>AAAA = [], A_ips = [AsSlice (Addr4 0x0a000001)]\<rparr>"
  let ?co = "new_ConnOptions\<lparr>co_routeCache := Some (Some ?i, None)\<rparr>"
  let ?ctx = "WithContext\<lparr>cx_connOptions := Some ?co\<rparr>"
  have "co_RouteIPs (DomainAddr ''a.com'' 80 TCP) (fst (cx_ConnOptions ?ctx)) = ((Some ?i, None), ?co)"
    by (simp add: co_RouteIPs_def cx_ConnOptions_def)
  then show ?thesis
    by (intro exI [of _ ?ctx] trie_Search_resolved [where i = ?i]) (simp_all add: address_IsValid_def ips_Iter_def)
qed

text \<open>Removing a CIDR entry for one mark removes the marks of every other owner of that network: Remove
  passes no mark to the CIDR part.\<close>

theorem trie_remove_cidr_drops_all_marks:
  assumes "classify s = NetEntry p" and "prefix_Contains p (Unmap (ap_Addr ap))" and "addr_IsValid (ap_Addr ap)"
    and "\<forall>(p', m') \<in> live_prefixes (concat (map to_cidr_op h)).
      prefix_Contains p' (Unmap (ap_Addr ap)) \<longrightarrow> prefix_Masked p' = prefix_Masked p"
  shows "trie_SearchFqdn (trie_Remove s m (foldl trie_step trie_NewTrie h)) (IPAddr ap n) = []"
proof -
  have "trie_match (h @ [TRemove s m]) (IPAddr ap n) = {}"
    using assms by (auto simp: trie_match_def live_prefixes_def)
  then show ?thesis
    using trie_run_search [of "IPAddr ap n" "h @ [TRemove s m]"] assms(3) by (simp add: address_IsValid_def)
qed

theorem trie_remove_cidr_drops_all_marks_witness:
  "trie_SearchFqdn (trie_Remove ''10.0.0.0/8'' ''a'' (foldl trie_step trie_NewTrie
       [TInsert ''10.0.0.0/8'' ''a'', TInsert ''10.0.0.0/8'' ''b'']))
     (IPAddr \<lparr>ap_Addr = Addr4 0x0a000001, ap_Zone = [], ap_Port = 80\<rparr> TCP) = []"
proof (rule trie_remove_cidr_drops_all_marks, unfold addr_port.simps)
  have p: "ParsePrefix ''10.0.0.0/8'' = Some \<lparr>pAddr = Addr4 0x0a000000, pBits = 8\<rparr>" by code_simp
  then show c: "classify ''10.0.0.0/8'' = NetEntry \<lparr>pAddr = Addr4 0x0a000000, pBits = 8\<rparr>"
    by (simp add: classify_def)
  show "prefix_Contains \<lparr>pAddr = Addr4 0x0a000000, pBits = 8\<rparr> (Unmap (Addr4 0x0a000001))" by code_simp
  show "addr_IsValid (Addr4 0x0a000001)" by simp
  show "\<forall>(p', m') \<in> live_prefixes (concat (map to_cidr_op [TInsert ''10.0.0.0/8'' ''a'', TInsert ''10.0.0.0/8'' ''b''])).
      prefix_Contains p' (Unmap (Addr4 0x0a000001)) \<longrightarrow> prefix_Masked p' = prefix_Masked \<lparr>pAddr = Addr4 0x0a000000, pBits = 8\<rparr>"
    by (simp add: c live_prefixes_def)
qed

end
