(* ===== verification/Go_Strings.thy ===== *)
theory Go_Strings
  imports Net_Text Fqdn_Reader
begin

text \<open>
  The functions of the Go package \<^verbatim>\<open>strings\<close> that the route lists, the rules and the hosts files use, on
  strings as sequences of bytes: \<^verbatim>\<open>TrimSpace\<close>, \<^verbatim>\<open>Fields\<close>, \<^verbatim>\<open>Split\<close>, \<^verbatim>\<open>HasPrefix\<close>, \<^verbatim>\<open>TrimSuffix\<close> and
  \<^verbatim>\<open>IndexByte\<close>. White space is that of \<^verbatim>\<open>unicode.IsSpace\<close>, in its UTF-8 encodings.
\<close>

definition spaces :: "string list" where
  "spaces =
     [[CHR 0x09], [CHR 0x0A], [CHR 0x0B], [CHR 0x0C], [CHR 0x0D], [CHR 0x20],
      [CHR 0xC2, CHR 0x85], [CHR 0xC2, CHR 0xA0], [CHR 0xE1, CHR 0x9A, CHR 0x80]]
     @ map (\<lambda>n. [CHR 0xE2, CHR 0x80, char_of n]) [0x80 ..< 0x8B :: nat]
     @ [[CHR 0xE2, CHR 0x80, CHR 0xA8], [CHR 0xE2, CHR 0x80, CHR 0xA9], [CHR 0xE2, CHR 0x80, CHR 0xAF],
        [CHR 0xE2, CHR 0x81, CHR 0x9F], [CHR 0xE3, CHR 0x80, CHR 0x80]]"

text \<open>The length of the white space character a string starts with, zero if it starts with none.\<close>

definition is_prefix :: "string \<Rightarrow> string \<Rightarrow> bool" where
  "is_prefix p s \<longleftrightarrow> take (length p) s = p"

definition space_len :: "string list \<Rightarrow> string \<Rightarrow> nat" where
  "space_len sps s = (case find (\<lambda>p. is_prefix p s) sps of None \<Rightarrow> 0 | Some p \<Rightarrow> length p)"

function trim_left :: "string list \<Rightarrow> string \<Rightarrow> string" where
  "trim_left sps s = (if s = [] \<or> space_len sps s = 0 then s else trim_left sps (drop (space_len sps s) s))"
  by pat_completeness auto
termination by (relation "measure (\<lambda>(_, s). length s)") auto

declare trim_left.simps [simp del]

definition TrimSpace :: "string \<Rightarrow> string" where
  "TrimSpace s = rev (trim_left (map rev spaces) (rev (trim_left spaces s)))"

text \<open>\<^verbatim>\<open>Fields\<close>: the maximal runs without white space.\<close>

function word_len :: "string \<Rightarrow> nat" where
  "word_len s = (if s = [] \<or> space_len spaces s \<noteq> 0 then 0 else Suc (word_len (tl s)))"
  by pat_completeness auto
termination by (relation "measure length") auto

declare word_len.simps [simp del]

lemma trim_left_length: "length (trim_left sps s) \<le> length s"
  by (induction sps s rule: trim_left.induct) (subst trim_left.simps, auto)

lemma trim_left_fix: "space_len sps (trim_left sps s) = 0 \<or> trim_left sps s = []"
  by (induction sps s rule: trim_left.induct) (subst (1 2) trim_left.simps, auto)

lemma word_len_pos: "space_len spaces s = 0 \<Longrightarrow> s \<noteq> [] \<Longrightarrow> 0 < word_len s"
  by (subst word_len.simps) simp

function Fields :: "string \<Rightarrow> string list" where
  "Fields s =
     (let s1 = trim_left spaces s in
      if s1 = [] then [] else take (word_len s1) s1 # Fields (drop (word_len s1) s1))"
  by pat_completeness auto
termination
proof (relation "measure length")
  fix s s1 assume "s1 = trim_left spaces s" "s1 \<noteq> []"
  then have "length s1 \<le> length s" "0 < word_len s1" "0 < length s1"
    using trim_left_length [of spaces s] trim_left_fix [of spaces s] word_len_pos [of s1] by auto
  then have "length s1 - word_len s1 < length s" by arith
  then show "(drop (word_len s1) s1, s) \<in> measure length" by simp
qed simp

declare Fields.simps [simp del]

definition Split :: "string \<Rightarrow> char \<Rightarrow> string list" where
  "Split s c = split_on c s"

definition HasPrefix :: "string \<Rightarrow> string \<Rightarrow> bool" where
  "HasPrefix s p \<longleftrightarrow> is_prefix p s"

definition HasSuffix :: "string \<Rightarrow> string \<Rightarrow> bool" where
  "HasSuffix s p \<longleftrightarrow> is_prefix (rev p) (rev s)"

definition TrimSuffix :: "string \<Rightarrow> string \<Rightarrow> string" where
  "TrimSuffix s p = (if HasSuffix s p then take (length s - length p) s else s)"

text \<open>Cutting a string at the first occurrence of a byte.\<close>

definition cut_at :: "char \<Rightarrow> string \<Rightarrow> string" where
  "cut_at c s = takeWhile (\<lambda>x. x \<noteq> c) s"

section \<open>Properties\<close>

lemma trim_left_suffix: "\<exists>p. s = p @ trim_left sps s"
proof (induction sps s rule: trim_left.induct)
  case (1 sps s)
  show ?case
  proof (cases "s = [] \<or> space_len sps s = 0")
    case True
    then show ?thesis by (subst trim_left.simps) simp
  next
    case False
    then obtain p where "drop (space_len sps s) s = p @ trim_left sps (drop (space_len sps s) s)" using 1 by auto
    then have "s = (take (space_len sps s) s @ p) @ trim_left sps s"
      using False by (subst trim_left.simps) (metis append.assoc append_take_drop_id)
    then show ?thesis by blast
  qed
qed

lemma TrimSpace_sub: "\<exists>p q. s = p @ TrimSpace s @ q"
proof -
  obtain p where p: "s = p @ trim_left spaces s" using trim_left_suffix by blast
  obtain q where q: "rev (trim_left spaces s) = q @ trim_left (map rev spaces) (rev (trim_left spaces s))"
    using trim_left_suffix by blast
  have "trim_left spaces s = TrimSpace s @ rev q"
    using arg_cong [OF q, of rev] by (simp add: TrimSpace_def)
  with p have "s = p @ TrimSpace s @ rev q" by simp
  then show ?thesis by blast
qed

lemma TrimSpace_set: "set (TrimSpace s) \<subseteq> set s"
  using TrimSpace_sub [of s] by (metis Un_iff set_append subsetI)

end
