(* ===== verification/Route_Mode.thy ===== *)
theory Route_Mode
  imports Trie_V2 Go_Strings
begin

text \<open>
  The data of the router: route modes and strategies (\<^verbatim>\<open>pkg/route/runtime_types.go\<close>), the stored rules and
  lists (\<^verbatim>\<open>pkg/contract/route/types.go\<close>) and the route settings with their numeric encoding
  (\<^verbatim>\<open>pkg/route/rule.go\<close>, \<^verbatim>\<open>pkg/store/route_settings.go\<close>). The string types of the code stay strings.
\<close>

section \<open>Rules as stored\<close>

record ListRef =
  lr_List :: string

record SourceRef =
  sr_Name :: string
  sr_Names :: "string list"

record NetworkExpr =
  nx_Network :: string

record PortExpr =
  px_Ports :: string

record GeoIPExpr =
  gx_Countries :: string

datatype RuleExpr = RuleExpr (rx_Type: string) (rx_All: "RuleExpr list") (rx_Any: "RuleExpr list")
  (rx_Not: "RuleExpr option") (rx_Host: "ListRef option") (rx_Process: "ListRef option")
  (rx_Inbound: "SourceRef option") (rx_Network: "NetworkExpr option") (rx_Port: "PortExpr option")
  (rx_GeoIP: "GeoIPExpr option")

record RouteRule =
  rr_Name :: string
  rr_Mode :: string
  rr_Tag :: string
  rr_ResolveStrategy :: string
  rr_UdpProxyFqdnStrategy :: string
  rr_Resolver :: string
  rr_Rules :: "RuleExpr list"
  rr_Disabled :: bool

record LocalSource =
  lo_Lists :: "string list"

record RemoteSource =
  re_URLs :: "string list"

record ListSource =
  so_Type :: string
  so_Local :: "LocalSource option"
  so_Remote :: "RemoteSource option"

record RouteListDetail =
  rd_Name :: string
  rd_Type :: string
  rd_Source :: ListSource
  rd_ErrorMsgs :: "string list"

section \<open>Modes\<close>

type_synonym Mode = string

definition ModeBypass :: Mode where "ModeBypass = ''bypass''"
definition ModeProxy :: Mode where "ModeProxy = ''proxy''"
definition ModeDirect :: Mode where "ModeDirect = ''direct''"
definition ModeBlock :: Mode where "ModeBlock = ''block''"

lemmas mode_consts = ModeBypass_def ModeProxy_def ModeDirect_def ModeBlock_def

definition mode_Unspecified :: "Mode \<Rightarrow> bool" where
  "mode_Unspecified m \<longleftrightarrow> m = [] \<or> m = ModeBypass"

type_synonym ResolveStrategy = string

definition ResolveDefault :: ResolveStrategy where "ResolveDefault = ''default''"
definition ResolveOnlyIPv4 :: ResolveStrategy where "ResolveOnlyIPv4 = ''only_ipv4''"
definition ResolvePreferIPv4 :: ResolveStrategy where "ResolvePreferIPv4 = ''prefer_ipv4''"
definition ResolveOnlyIPv6 :: ResolveStrategy where "ResolveOnlyIPv6 = ''only_ipv6''"
definition ResolvePreferIPv6 :: ResolveStrategy where "ResolvePreferIPv6 = ''prefer_ipv6''"

type_synonym UDPProxyFQDNStrategy = string

definition UDPProxyFQDNDefault :: UDPProxyFQDNStrategy where "UDPProxyFQDNDefault = ''default''"
definition UDPProxyFQDNResolve :: UDPProxyFQDNStrategy where "UDPProxyFQDNResolve = ''resolve''"
definition UDPProxyFQDNSkipResolve :: UDPProxyFQDNStrategy where "UDPProxyFQDNSkipResolve = ''skip_resolve''"

lemmas strategy_consts = ResolveDefault_def ResolveOnlyIPv4_def ResolvePreferIPv4_def ResolveOnlyIPv6_def
  ResolvePreferIPv6_def UDPProxyFQDNDefault_def UDPProxyFQDNResolve_def UDPProxyFQDNSkipResolve_def

record ModeEnum =
  me_Tag :: string
  me_resolver :: string
  me_mode :: Mode
  me_resolveStrategy :: ResolveStrategy
  me_udpProxyFQDNStrategy :: UDPProxyFQDNStrategy

definition mode_enum :: "Mode \<Rightarrow> ModeEnum" where
  "mode_enum m = \<lparr>me_Tag = [], me_resolver = [], me_mode = m, me_resolveStrategy = ResolveDefault,
     me_udpProxyFQDNStrategy = UDPProxyFQDNDefault\<rparr>"

definition ProxyMode :: ModeEnum where "ProxyMode = mode_enum ModeProxy"
definition DirectMode :: ModeEnum where "DirectMode = mode_enum ModeDirect"
definition BlockMode :: ModeEnum where "BlockMode = mode_enum ModeBlock"
definition BypassMode :: ModeEnum where "BypassMode = mode_enum ModeBypass"

lemma mode_enum_simps [simp]:
  "me_mode (mode_enum m) = m" "me_Tag (mode_enum m) = []" "me_resolver (mode_enum m) = []"
  "me_resolveStrategy (mode_enum m) = ResolveDefault" "me_udpProxyFQDNStrategy (mode_enum m) = UDPProxyFQDNDefault"
  by (simp_all add: mode_enum_def)

definition parseMode :: "string \<Rightarrow> Mode" where
  "parseMode v =
     (if v = ''proxy'' then ModeProxy
      else if v = ''direct'' then ModeDirect
      else if v = ''block'' then ModeBlock
      else if v = ''bypass'' \<or> v = [] then ModeBypass
      else ModeBypass)"

definition parseResolveStrategy :: "string \<Rightarrow> ResolveStrategy" where
  "parseResolveStrategy v =
     (if v = ''only_ipv4'' \<or> v = ''resolve_strategy_only_ipv4'' then ResolveOnlyIPv4
      else if v = ''prefer_ipv4'' \<or> v = ''resolve_strategy_prefer_ipv4'' then ResolvePreferIPv4
      else if v = ''only_ipv6'' \<or> v = ''resolve_strategy_only_ipv6'' then ResolveOnlyIPv6
      else if v = ''prefer_ipv6'' \<or> v = ''resolve_strategy_prefer_ipv6'' then ResolvePreferIPv6
      else ResolveDefault)"

definition parseUDPProxyFQDNStrategy :: "string \<Rightarrow> UDPProxyFQDNStrategy" where
  "parseUDPProxyFQDNStrategy v =
     (if v = ''resolve'' \<or> v = ''udp_proxy_fqdn_strategy_resolve'' then UDPProxyFQDNResolve
      else if v = ''skip_resolve'' \<or> v = ''udp_proxy_fqdn_strategy_skip_resolve'' then UDPProxyFQDNSkipResolve
      else UDPProxyFQDNDefault)"

definition modeEnumFromRule :: "RouteRule \<Rightarrow> ModeEnum" where
  "modeEnumFromRule rule =
     \<lparr>me_Tag = rr_Tag rule, me_resolver = rr_Resolver rule, me_mode = parseMode (rr_Mode rule),
      me_resolveStrategy = parseResolveStrategy (rr_ResolveStrategy rule),
      me_udpProxyFQDNStrategy = parseUDPProxyFQDNStrategy (rr_UdpProxyFqdnStrategy rule)\<rparr>"

section \<open>Route settings\<close>

record RouteConfig =
  rc_DirectResolver :: string
  rc_ProxyResolver :: string
  rc_ResolveLocally :: bool
  rc_UDPProxyFQDNStrategy :: UDPProxyFQDNStrategy

text \<open>The settings row of the store, and the configuration of the interface.\<close>

record RouteSettings =
  rs_DirectResolver :: string
  rs_ProxyResolver :: string
  rs_ResolveLocally :: bool
  rs_UDPProxyFQDN :: int

record ContractConfig =
  cc_DirectResolver :: string
  cc_ProxyResolver :: string
  cc_ResolveLocally :: bool
  cc_UdpProxyFqdnStrategy :: string

definition udpProxyFQDNStrategyCode :: "string \<Rightarrow> int" where
  "udpProxyFQDNStrategyCode v =
     (if parseUDPProxyFQDNStrategy v = UDPProxyFQDNResolve then 1
      else if parseUDPProxyFQDNStrategy v = UDPProxyFQDNSkipResolve then 2 else 0)"

definition udpProxyFQDNStrategyFromCode :: "int \<Rightarrow> UDPProxyFQDNStrategy" where
  "udpProxyFQDNStrategyFromCode v =
     (if v = 1 then UDPProxyFQDNResolve else if v = 2 then UDPProxyFQDNSkipResolve else UDPProxyFQDNDefault)"

definition routeSettingsFromContract :: "ContractConfig \<Rightarrow> RouteSettings" where
  "routeSettingsFromContract req =
     \<lparr>rs_DirectResolver = cc_DirectResolver req, rs_ProxyResolver = cc_ProxyResolver req,
      rs_ResolveLocally = cc_ResolveLocally req, rs_UDPProxyFQDN = udpProxyFQDNStrategyCode (cc_UdpProxyFqdnStrategy req)\<rparr>"

definition routeConfigFromStore :: "RouteSettings \<Rightarrow> RouteConfig" where
  "routeConfigFromStore s =
     \<lparr>rc_DirectResolver = rs_DirectResolver s, rc_ProxyResolver = rs_ProxyResolver s,
      rc_ResolveLocally = rs_ResolveLocally s, rc_UDPProxyFQDNStrategy = udpProxyFQDNStrategyFromCode (rs_UDPProxyFQDN s)\<rparr>"

section \<open>Properties\<close>

lemma parseMode_specified: "mode_Unspecified (parseMode v) \<longleftrightarrow> v \<notin> {''proxy'', ''direct'', ''block''}"
  by (auto simp: parseMode_def mode_Unspecified_def mode_consts)

text \<open>A configuration saved to the store is read back unchanged, the UDP strategy in its parsed form: its
  numeric code loses nothing, and parsing a parsed strategy changes nothing.\<close>

theorem route_config_roundtrip:
  "routeConfigFromStore (routeSettingsFromContract req) =
     \<lparr>rc_DirectResolver = cc_DirectResolver req, rc_ProxyResolver = cc_ProxyResolver req,
      rc_ResolveLocally = cc_ResolveLocally req,
      rc_UDPProxyFQDNStrategy = parseUDPProxyFQDNStrategy (cc_UdpProxyFqdnStrategy req)\<rparr> \<and>
   parseUDPProxyFQDNStrategy (parseUDPProxyFQDNStrategy v) = parseUDPProxyFQDNStrategy v \<and>
   parseResolveStrategy (parseResolveStrategy v) = parseResolveStrategy v \<and> parseMode (parseMode v) = parseMode v"
  by (simp add: routeConfigFromStore_def routeSettingsFromContract_def udpProxyFQDNStrategyCode_def
      udpProxyFQDNStrategyFromCode_def parseUDPProxyFQDNStrategy_def parseResolveStrategy_def parseMode_def
      strategy_consts mode_consts)

end
