(* ===== verification/Route_Lists.thy ===== *)
theory Route_Lists
  imports Route_Mode
begin

text \<open>
  The lists a rule can name (\<^verbatim>\<open>pkg/route/list.go\<close>): reading the entries of a list, the index of hosts
  (\<^verbatim>\<open>hostMatcher\<close>, on the trie of \<open>Trie_V2\<close>), the index of processes (\<^verbatim>\<open>processMatcher\<close>), and the operations of
  \<^verbatim>\<open>Lists\<close> that add a list, reset and rebuild the indexes. The store of lists and the files of the downloader are
  arguments (\<open>list_env\<close>): what \<^verbatim>\<open>GetRouteList\<close> answers for a name and which lines the cached file of a URL
  has. The order in which a Go map is ranged over is an argument too. The index on disk is not modelled.
\<close>

section \<open>The entries of a list\<close>

record list_env =
  ev_GetRouteList :: "(string \<Rightarrow> go_error + RouteListDetail) option"
  ev_GetReader :: "string \<Rightarrow> go_error + string list"

definition trimRule :: "string \<Rightarrow> string" where
  "trimRule str = TrimSpace (cut_at (CHR ''#'') str)"

definition trimRuleIter :: "string list \<Rightarrow> string list" where
  "trimRuleIter strs = filter (\<lambda>v. v \<noteq> []) (map trimRule strs)"

definition getLocalCacheTrimRuleIter :: "list_env \<Rightarrow> string list \<Rightarrow> string list" where
  "getLocalCacheTrimRuleIter ev rules =
     concat (map (\<lambda>v. case ev_GetReader ev v of Inl _ \<Rightarrow> [] | Inr ls \<Rightarrow> trimRuleIter ls) rules)"

text \<open>The names of a line of a hosts file, after its address.\<close>

definition hosts_names :: "string list \<Rightarrow> string list" where
  "hosts_names vs = concat (map (\<lambda>v. let fs = Fields v in if length fs < 2 then [] else tl fs) vs)"

definition list_unknown :: "string \<Rightarrow> go_error" where
  "list_unknown name = ''list '' @ name @ '' is unknown''"

definition typed_iter :: "string \<Rightarrow> string \<Rightarrow> string list \<Rightarrow> go_error + string list" where
  "typed_iter name t vs =
     (if t = ''hosts_as_host'' then Inr (hosts_names vs)
      else if t = ''host'' \<or> t = ''process'' then Inr vs
      else Inl (list_unknown name))"

definition getIter :: "list_env \<Rightarrow> string \<Rightarrow> go_error + (RouteListDetail \<times> string list)" where
  "getIter ev name =
     (case ev_GetRouteList ev of
        None \<Rightarrow> Inl ''route list store is unavailable''
      | Some get \<Rightarrow>
          (case get name of
             Inl e \<Rightarrow> Inl e
           | Inr rules \<Rightarrow>
               let so = rd_Source rules;
                   it = (if so_Type so = ''local'' \<or> so_Type so = [] then
                           typed_iter name (rd_Type rules)
                             (trimRuleIter (case so_Local so of None \<Rightarrow> [] | Some l \<Rightarrow> lo_Lists l))
                         else if so_Type so = ''remote'' then
                           typed_iter name (rd_Type rules)
                             (getLocalCacheTrimRuleIter ev (case so_Remote so of None \<Rightarrow> [] | Some r \<Rightarrow> re_URLs r))
                         else Inl (list_unknown name))
               in case it of Inl e \<Rightarrow> Inl e | Inr vs \<Rightarrow> Inr (rules, vs)))"

section \<open>The index of hosts\<close>

type_synonym host_trie = "(string cidr, string fqdn, string) trie"

record hostMatcher =
  hm_lists :: "string set"
  hm_trie :: host_trie

definition newHostTrie :: hostMatcher where
  "newHostTrie = \<lparr>hm_lists = {}, hm_trie = trie_NewTrie\<rparr>"

definition hm_Clear :: "hostMatcher \<Rightarrow> hostMatcher" where
  "hm_Clear h = \<lparr>hm_lists = {}, hm_trie = trie_Clear (hm_trie h)\<rparr>"

definition hm_Add :: "string list \<Rightarrow> string \<Rightarrow> hostMatcher \<Rightarrow> hostMatcher" where
  "hm_Add host list h =
     \<lparr>hm_lists = insert list (hm_lists h), hm_trie = trie_Batch (map (\<lambda>str. (str, list)) host) (hm_trie h)\<rparr>"

definition hm_Search :: "hostMatcher \<Rightarrow> Context \<Rightarrow> address \<Rightarrow> (string list \<times> Context) option" where
  "hm_Search h ctx ad = trie_Search (hm_trie h) ctx ad"

definition hm_Include :: "hostMatcher \<Rightarrow> string \<Rightarrow> bool" where
  "hm_Include h list \<longleftrightarrow> list \<in> hm_lists h"

section \<open>The index of processes\<close>

record processMatcher =
  pm_trie :: "(string \<times> string list) list"

definition newProcessTrie :: processMatcher where
  "newProcessTrie = \<lparr>pm_trie = []\<rparr>"

text \<open>The slice stored for a process, empty if there is none.\<close>

definition pm_lookup :: "processMatcher \<Rightarrow> string \<Rightarrow> string list" where
  "pm_lookup h process = (case map_of (pm_trie h) process of None \<Rightarrow> [] | Some s \<Rightarrow> s)"

definition pm_Add :: "string \<Rightarrow> string \<Rightarrow> processMatcher \<Rightarrow> processMatcher" where
  "pm_Add process list h =
     (let s = pm_lookup h process in
      if list \<in> set s then h else h\<lparr>pm_trie := AList.update process (s @ [list]) (pm_trie h)\<rparr>)"

text \<open>The names the ranger is called with, for one order of the keys.\<close>

definition pm_Range :: "processMatcher \<Rightarrow> string list" where
  "pm_Range h = concat (map snd (pm_trie h))"

definition pm_Include :: "string \<Rightarrow> processMatcher \<Rightarrow> bool" where
  "pm_Include list h \<longleftrightarrow> list \<in> set (pm_Range h)"

definition pm_Search :: "processMatcher \<Rightarrow> Context \<Rightarrow> string list" where
  "pm_Search h ctx = pm_lookup h (cx_GetProcessName ctx)"

definition pm_Empty :: "processMatcher \<Rightarrow> bool" where
  "pm_Empty h \<longleftrightarrow> pm_trie h = []"

section \<open>The operations of the lists\<close>

record Lists =
  ls_hostTrie :: hostMatcher
  ls_processTrie :: processMatcher

definition new_Lists :: Lists where
  "new_Lists = \<lparr>ls_hostTrie = newHostTrie, ls_processTrie = newProcessTrie\<rparr>"

definition ResetHostTrie :: "Lists \<Rightarrow> Lists" where
  "ResetHostTrie s = s\<lparr>ls_hostTrie := hm_Clear (ls_hostTrie s)\<rparr>"

definition ResetProcessTrie :: "Lists \<Rightarrow> Lists" where
  "ResetProcessTrie s = s\<lparr>ls_processTrie := newProcessTrie\<rparr>"

definition AddNewHostList :: "list_env \<Rightarrow> string \<Rightarrow> Lists \<Rightarrow> Lists" where
  "AddNewHostList ev name s =
     (case getIter ev name of
        Inl _ \<Rightarrow> s
      | Inr (rules, it) \<Rightarrow>
          if rd_Type rules = ''process'' then s else s\<lparr>ls_hostTrie := hm_Add it name (ls_hostTrie s)\<rparr>)"

definition AddNewProcessList :: "list_env \<Rightarrow> string \<Rightarrow> Lists \<Rightarrow> Lists" where
  "AddNewProcessList ev name s =
     (case getIter ev name of
        Inl _ \<Rightarrow> s
      | Inr (rules, it) \<Rightarrow>
          if rd_Type rules \<noteq> ''process'' then s
          else s\<lparr>ls_processTrie := fold (\<lambda>v. pm_Add v name) it (ls_processTrie s)\<rparr>)"

text \<open>The rebuild of the host index, for one order \<open>names\<close> of the names of the current index.\<close>

fun refresh_hosts :: "list_env \<Rightarrow> string list \<Rightarrow> hostMatcher \<Rightarrow> hostMatcher" where
  "refresh_hosts ev [] h = h"
| "refresh_hosts ev (name # names) h =
     (case getIter ev name of
        Inl _ \<Rightarrow> refresh_hosts ev names h
      | Inr (_, it) \<Rightarrow> refresh_hosts ev names (hm_Add it name h))"

definition refreshHostTrie :: "list_env \<Rightarrow> string list \<Rightarrow> Lists \<Rightarrow> Lists" where
  "refreshHostTrie ev names s = s\<lparr>ls_hostTrie := refresh_hosts ev names newHostTrie\<rparr>"

text \<open>The rebuild of the process index; \<open>names\<close> are the names the ranger of the current index yields.\<close>

fun refresh_processes :: "list_env \<Rightarrow> string list \<Rightarrow> processMatcher \<Rightarrow> processMatcher" where
  "refresh_processes ev [] p = p"
| "refresh_processes ev (name # names) p =
     (if pm_Include name p then refresh_processes ev names p
      else case getIter ev name of
          Inl _ \<Rightarrow> refresh_processes ev names p
        | Inr (_, it) \<Rightarrow> refresh_processes ev names (fold (\<lambda>v. pm_Add v name) it p))"

definition refreshProcessTrie :: "list_env \<Rightarrow> string list \<Rightarrow> Lists \<Rightarrow> Lists" where
  "refreshProcessTrie ev names s = s\<lparr>ls_processTrie := refresh_processes ev names newProcessTrie\<rparr>"

section \<open>What the host index holds\<close>

text \<open>
  The contents of an index as the sequence of the lists added to it, each with its entries; what an
  address is in is what the trie specification gives for inserting all of them.
\<close>

type_synonym listing = "(string \<times> string list) list"

definition listing_ops :: "listing \<Rightarrow> string trie_op list" where
  "listing_ops ls = concat (map (\<lambda>(name, es). map (\<lambda>e. TInsert e name) es) ls)"

definition host_index :: "hostMatcher \<Rightarrow> listing \<Rightarrow> bool" where
  "host_index h ls \<longleftrightarrow> hm_lists h = set (map fst ls) \<and>
     (\<exists>hist. hm_trie h = foldl trie_step trie_NewTrie (hist @ listing_ops ls) \<and> (hist = [] \<or> last hist = TClear))"

lemma listing_ops_simps [simp]:
  "listing_ops [] = []"
  "listing_ops (ls @ ls') = listing_ops ls @ listing_ops ls'"
  "listing_ops [(name, es)] = map (\<lambda>e. TInsert e name) es"
  by (simp_all add: listing_ops_def)

lemma batch_ops:
  "foldl (\<lambda>x (k, v). trie_Insert k v x) t (map (\<lambda>str. (str, name)) es) = foldl trie_step t (map (\<lambda>e. TInsert e name) es)"
  by (induction es arbitrary: t) simp_all

lemma host_index_new: "host_index newHostTrie []"
  unfolding host_index_def by (auto simp: newHostTrie_def intro: exI [of _ "[]"])

lemma host_index_clear: "host_index h ls \<Longrightarrow> host_index (hm_Clear h) []"
  unfolding host_index_def
proof (elim conjE exE, intro conjI)
  fix hist assume "hm_trie h = foldl trie_step trie_NewTrie (hist @ listing_ops ls)"
  then have "hm_trie (hm_Clear h) = foldl trie_step trie_NewTrie ((hist @ listing_ops ls @ [TClear]) @ listing_ops [])"
    by (simp add: hm_Clear_def)
  then show "\<exists>hist. hm_trie (hm_Clear h) = foldl trie_step trie_NewTrie (hist @ listing_ops []) \<and> (hist = [] \<or> last hist = TClear)"
    by (metis append_is_Nil_conv last_appendR last_snoc list.distinct(1))
qed (simp add: hm_Clear_def)

lemma host_index_Add:
  assumes "host_index h ls"
  shows "host_index (hm_Add es name h) (ls @ [(name, es)])"
proof -
  obtain hist where h: "hm_trie h = foldl trie_step trie_NewTrie (hist @ listing_ops ls)" "hist = [] \<or> last hist = TClear"
    and l: "hm_lists h = set (map fst ls)"
    using assms unfolding host_index_def by blast
  have "hm_trie (hm_Add es name h) = foldl trie_step trie_NewTrie (hist @ listing_ops (ls @ [(name, es)]))"
    using mt.batch_parts [OF ops_of_run [of "hist @ listing_ops ls"], of "map (\<lambda>str. (str, name)) es"]
    unfolding batch_ops by (simp add: hm_Add_def h(1))
  then show ?thesis using h(2) l unfolding host_index_def by (auto simp: hm_Add_def)
qed

text \<open>The lists of some names that can be read, with their entries.\<close>

definition read_list :: "list_env \<Rightarrow> string \<Rightarrow> listing" where
  "read_list ev name = (case getIter ev name of Inl _ \<Rightarrow> [] | Inr (_, es) \<Rightarrow> [(name, es)])"

definition readable :: "list_env \<Rightarrow> string list \<Rightarrow> listing" where
  "readable ev names = concat (map (read_list ev) names)"

lemma read_list_simps [simp]:
  "getIter ev name = Inl e \<Longrightarrow> read_list ev name = []"
  "getIter ev name = Inr (r, es) \<Longrightarrow> read_list ev name = [(name, es)]"
  by (simp_all add: read_list_def)

lemma readable_simps [simp]:
  "readable ev [] = []"
  "readable ev (name # names) = read_list ev name @ readable ev names"
  by (simp_all add: readable_def)

lemma host_index_refresh:
  "host_index h ls \<Longrightarrow>
   host_index (refresh_hosts ev names h)
     (ls @ readable ev names)"
proof (induction names arbitrary: h ls)
  case (Cons name names)
  show ?case
  proof (cases "getIter ev name")
    case (Inr x)
    then show ?thesis
      using Cons.IH [OF host_index_Add [OF Cons.prems, of "snd x" name]] by (cases x) simp
  qed (use Cons in simp)
qed simp

text \<open>Clearing makes the earlier history irrelevant.\<close>

lemma concat_map_append: "concat (map f (xs @ ys)) = concat (map f xs) @ concat (map f ys)"
  by simp

lemma trie_match_after_clear: "hist = [] \<or> last hist = TClear \<Longrightarrow> trie_match (hist @ ops) ad = trie_match ops ad"
proof (elim disjE)
  assume l: "last hist = TClear"
  show ?thesis
  proof (cases hist rule: rev_cases)
    case (snoc hs x)
    then show ?thesis using l by (simp add: trie_match_def live_prefixes_def split: address.splits)
  qed simp
qed simp

lemma host_index_search:
  assumes "host_index h ls" "address_IsValid ad"
  shows "set (trie_SearchFqdn (hm_trie h) ad) = trie_match (listing_ops ls) ad"
  using assms trie_run_search [OF assms(2)] trie_match_after_clear unfolding host_index_def by metis

section \<open>What the process index holds\<close>

definition process_index :: "processMatcher \<Rightarrow> listing \<Rightarrow> bool" where
  "process_index p ls \<longleftrightarrow>
     (\<forall>proc name. name \<in> set (pm_lookup p proc) \<longleftrightarrow>
        (\<exists>es. (name, es) \<in> set ls \<and> proc \<in> set es))"

lemma pm_lookup_Add:
  "pm_lookup (pm_Add proc list p) proc' =
     (if proc' = proc \<and> list \<notin> set (pm_lookup p proc) then pm_lookup p proc @ [list] else pm_lookup p proc')"
  unfolding pm_Add_def Let_def pm_lookup_def by (simp add: update_conv')

lemma pm_Add_fold_lookup:
  "name \<in> set (pm_lookup (fold (\<lambda>v. pm_Add v list) es p) proc) \<longleftrightarrow>
   proc \<in> set es \<and> name = list \<or> name \<in> set (pm_lookup p proc)"
  by (induction es arbitrary: p) (auto simp: pm_lookup_Add)

lemma process_index_new: "process_index newProcessTrie []"
  by (simp add: process_index_def newProcessTrie_def pm_lookup_def)

lemma process_index_add: "process_index p ls \<Longrightarrow> process_index (fold (\<lambda>v. pm_Add v name) es p) (ls @ [(name, es)])"
  unfolding process_index_def pm_Add_fold_lookup by auto

text \<open>The keys of the index are distinct, so that ranging over it yields the names of all entries.\<close>

lemma pm_Add_distinct: "distinct (map fst (pm_trie p)) \<Longrightarrow> distinct (map fst (pm_trie (pm_Add v name p)))"
  by (simp add: pm_Add_def Let_def distinct_update)

lemma pm_Add_fold_distinct:
  "distinct (map fst (pm_trie p)) \<Longrightarrow> distinct (map fst (pm_trie (fold (\<lambda>v. pm_Add v name) es p)))"
  by (induction es arbitrary: p) (simp_all add: pm_Add_distinct)

lemma pm_Include_index:
  assumes "process_index p ls" "distinct (map fst (pm_trie p))"
  shows "pm_Include name p \<longleftrightarrow> (\<exists>es. (name, es) \<in> set ls \<and> es \<noteq> [])"
proof -
  have "pm_Include name p \<longleftrightarrow> (\<exists>proc. name \<in> set (pm_lookup p proc))"
  proof
    assume "pm_Include name p"
    then obtain proc vs where "(proc, vs) \<in> set (pm_trie p)" "name \<in> set vs"
      by (auto simp: pm_Include_def pm_Range_def)
    then show "\<exists>proc. name \<in> set (pm_lookup p proc)"
      using assms(2) by (auto simp: pm_lookup_def intro!: exI [of _ proc])
  next
    assume "\<exists>proc. name \<in> set (pm_lookup p proc)"
    then obtain proc vs where "map_of (pm_trie p) proc = Some vs" "name \<in> set vs"
      unfolding pm_lookup_def by (metis empty_iff empty_set option.case_eq_if option.collapse)
    then show "pm_Include name p"
      using map_of_SomeD [of "pm_trie p" proc vs] by (force simp: pm_Include_def pm_Range_def)
  qed
  also have "\<dots> \<longleftrightarrow> (\<exists>proc es. (name, es) \<in> set ls \<and> proc \<in> set es)" using assms(1) by (simp add: process_index_def)
  also have "\<dots> \<longleftrightarrow> (\<exists>es. (name, es) \<in> set ls \<and> es \<noteq> [])" by (metis length_pos_if_in_set list.set_sel(1) length_greater_0_conv)
  finally show ?thesis .
qed

lemma process_index_cong: "set ls = set ls' \<Longrightarrow> process_index p ls = process_index p ls'"
  by (simp add: process_index_def)

lemma process_index_refresh:
  "process_index p ls \<Longrightarrow> distinct (map fst (pm_trie p)) \<Longrightarrow> (\<forall>(name, es) \<in> set ls. \<exists>r. getIter ev name = Inr (r, es)) \<Longrightarrow>
   process_index (refresh_processes ev names p) (ls @ readable ev names) \<and>
   distinct (map fst (pm_trie (refresh_processes ev names p)))"
proof (induction names arbitrary: p ls)
  case (Cons name names)
  show ?case
  proof (cases "pm_Include name p")
    case True
    then obtain es r where es: "(name, es) \<in> set ls" "getIter ev name = Inr (r, es)"
      using pm_Include_index [OF Cons.prems(1,2)] Cons.prems(3) by fastforce
    then have "set (ls @ readable ev (name # names)) = set (ls @ readable ev names)" by auto
    from process_index_cong [OF this] show ?thesis using True Cons.IH [OF Cons.prems] by simp
  next
    case False
    show ?thesis
    proof (cases "getIter ev name")
      case (Inr x)
      obtain r es where x: "x = (r, es)" by (cases x)
      have "\<forall>(name, es) \<in> set (ls @ [(name, es)]). \<exists>r. getIter ev name = Inr (r, es)"
        using Cons.prems(3) Inr x by auto
      from Cons.IH [OF process_index_add [OF Cons.prems(1)] pm_Add_fold_distinct [OF Cons.prems(2)] this]
      show ?thesis using False Inr x by simp
    qed (use False Cons in simp)
  qed
qed simp

section \<open>Histories of the lists\<close>

datatype lists_op = AddHostOp list_env string | AddProcessOp list_env string | ResetHostOp | ResetProcessOp
  | RefreshHostOp list_env "string list" | RefreshProcessOp list_env "string list"

fun lists_step :: "Lists \<Rightarrow> lists_op \<Rightarrow> Lists" where
  "lists_step s (AddHostOp ev name) = AddNewHostList ev name s"
| "lists_step s (AddProcessOp ev name) = AddNewProcessList ev name s"
| "lists_step s ResetHostOp = ResetHostTrie s"
| "lists_step s ResetProcessOp = ResetProcessTrie s"
| "lists_step s (RefreshHostOp ev names) = refreshHostTrie ev names s"
| "lists_step s (RefreshProcessOp ev names) = refreshProcessTrie ev names s"

text \<open>The specification: the host lists and the process lists that are indexed, with the entries they had
  when they were last read.\<close>

fun listing_step :: "listing \<times> listing \<Rightarrow> lists_op \<Rightarrow> listing \<times> listing" where
  "listing_step (h, p) (AddHostOp ev name) =
     (case getIter ev name of Inr (r, es) \<Rightarrow> if rd_Type r = ''process'' then (h, p) else (h @ [(name, es)], p) | Inl _ \<Rightarrow> (h, p))"
| "listing_step (h, p) (AddProcessOp ev name) =
     (case getIter ev name of Inr (r, es) \<Rightarrow> if rd_Type r = ''process'' then (h, p @ [(name, es)]) else (h, p) | Inl _ \<Rightarrow> (h, p))"
| "listing_step (h, p) ResetHostOp = ([], p)"
| "listing_step (h, p) ResetProcessOp = (h, [])"
| "listing_step (h, p) (RefreshHostOp ev names) = (readable ev names, p)"
| "listing_step (h, p) (RefreshProcessOp ev names) = (h, readable ev names)"

definition lists_rel :: "Lists \<Rightarrow> listing \<times> listing \<Rightarrow> bool" where
  "lists_rel s l \<longleftrightarrow> host_index (ls_hostTrie s) (fst l) \<and> process_index (ls_processTrie s) (snd l) \<and>
     distinct (map fst (pm_trie (ls_processTrie s)))"

lemma lists_rel_new: "lists_rel new_Lists ([], [])"
  by (simp add: lists_rel_def new_Lists_def host_index_new process_index_new) (simp add: newProcessTrie_def)

lemma lists_rel_step: "lists_rel s l \<Longrightarrow> lists_rel (lists_step s x) (listing_step l x)"
proof (cases l)
  case (Pair h p)
  assume r: "lists_rel s l"
  then have hi: "host_index (ls_hostTrie s) h" and pi: "process_index (ls_processTrie s) p"
    and d: "distinct (map fst (pm_trie (ls_processTrie s)))"
    by (simp_all add: lists_rel_def Pair)
  note rf = process_index_refresh [OF process_index_new]
  show ?thesis
  proof (cases x)
    case (AddHostOp ev name)
    then show ?thesis using r hi Pair host_index_Add [OF hi]
      by (auto simp: lists_rel_def AddNewHostList_def split: sum.splits)
  next
    case (AddProcessOp ev name)
    then show ?thesis using r pi d Pair process_index_add [OF pi] pm_Add_fold_distinct [OF d]
      by (auto simp: lists_rel_def AddNewProcessList_def split: sum.splits)
  next
    case ResetHostOp
    then show ?thesis using r Pair host_index_clear [OF hi] by (simp add: lists_rel_def ResetHostTrie_def)
  next
    case ResetProcessOp
    then show ?thesis using r Pair process_index_new by (simp add: lists_rel_def ResetProcessTrie_def newProcessTrie_def)
  next
    case (RefreshHostOp ev names)
    then show ?thesis using r Pair host_index_refresh [OF host_index_new, of ev names]
      by (simp add: lists_rel_def refreshHostTrie_def)
  next
    case (RefreshProcessOp ev names)
    then show ?thesis using r Pair rf [of ev names] by (simp add: lists_rel_def refreshProcessTrie_def newProcessTrie_def)
  qed
qed

lemma lists_rel_run: "lists_rel s l \<Longrightarrow> lists_rel (foldl lists_step s xs) (foldl listing_step l xs)"
  by (induction xs arbitrary: s l) (simp_all add: lists_rel_step)


text \<open>A store with one local list.\<close>

definition demo_env :: "string \<Rightarrow> string \<Rightarrow> string list \<Rightarrow> list_env" where
  "demo_env name t es =
     \<lparr>ev_GetRouteList = Some (\<lambda>n. if n = name then Inr \<lparr>rd_Name = name, rd_Type = t,
          rd_Source = \<lparr>so_Type = ''local'', so_Local = Some \<lparr>lo_Lists = es\<rparr>, so_Remote = None\<rparr>, rd_ErrorMsgs = []\<rparr>
        else Inl ''not found''),
      ev_GetReader = (\<lambda>_. Inl ''no file'')\<rparr>"


text \<open>A rebuild of the host index re-reads every registered list that can be read: its new entries are found
  afterwards, also when the list had no entries before; and the rebuilt index names no other list.\<close>

theorem refreshHostTrie_reloads:
  assumes "set names = hm_lists (ls_hostTrie s)" and "address_IsValid ad"
  shows "set (trie_SearchFqdn (hm_trie (ls_hostTrie (refreshHostTrie ev names s))) ad) = trie_match (listing_ops (readable ev names)) ad \<and>
    hm_lists (ls_hostTrie (refreshHostTrie ev names s)) =
      {name. hm_Include (ls_hostTrie s) name \<and> (\<exists>r es. getIter ev name = Inr (r, es))}"
proof -
  have hi: "host_index (ls_hostTrie (refreshHostTrie ev names s)) (readable ev names)"
    using host_index_refresh [OF host_index_new, of ev names] by (simp add: refreshHostTrie_def)
  have "fst ` set (readable ev names) = {name \<in> set names. \<exists>r es. getIter ev name = Inr (r, es)}"
  proof (rule set_eqI)
    show "name \<in> fst ` set (readable ev names) \<longleftrightarrow> name \<in> {name \<in> set names. \<exists>r es. getIter ev name = Inr (r, es)}" for name
      by (auto simp: readable_def read_list_def image_iff split: sum.splits) (metis sum.inject(2))+
  qed
  then show ?thesis using hi host_index_search [OF hi assms(2)] assms(1) by (simp add: host_index_def hm_Include_def)
qed

theorem refreshHostTrie_reloads_witness:
  "\<exists>s. hm_Include (ls_hostTrie s) ''ads'' \<and>
    set (trie_SearchFqdn (hm_trie (ls_hostTrie (refreshHostTrie (demo_env ''ads'' ''host'' [''a.com'']) [''ads''] s))) (DomainAddr ''a.com'' 80 TCP)) =
      trie_match (listing_ops (readable (demo_env ''ads'' ''host'' [''a.com'']) [''ads''])) (DomainAddr ''a.com'' 80 TCP) \<and>
    hm_lists (ls_hostTrie (refreshHostTrie (demo_env ''ads'' ''host'' [''a.com'']) [''ads''] s)) =
      {name. hm_Include (ls_hostTrie s) name \<and> (\<exists>r es. getIter (demo_env ''ads'' ''host'' [''a.com'']) name = Inr (r, es))}"
proof -
  let ?s = "new_Lists\<lparr>ls_hostTrie := hm_Add [] ''ads'' newHostTrie\<rparr>"
  have "hm_lists (ls_hostTrie ?s) = {''ads''}" by (simp add: hm_Add_def newHostTrie_def)
  then show ?thesis
    using refreshHostTrie_reloads [of "[''ads'']" ?s "DomainAddr ''a.com'' 80 TCP" "demo_env ''ads'' ''host'' [''a.com'']"]
    by (intro exI [of _ ?s]) (simp add: address_IsValid_def hm_Include_def)
qed

text \<open>Rebuilds of the process index one after the other, each with what the store answers at its time.\<close>

definition refresh_processes_all :: "list_env list \<Rightarrow> Lists \<Rightarrow> Lists" where
  "refresh_processes_all evs s = foldl (\<lambda>s ev. refreshProcessTrie ev (pm_Range (ls_processTrie s)) s) s evs"

lemma pm_Range_Add: "set (pm_Range (pm_Add v name p)) \<subseteq> insert name (set (pm_Range p))"
proof -
  have "set (concat (map snd (AList.update v (pm_lookup p v @ [name]) al))) \<subseteq> insert name (set (pm_lookup p v) \<union> set (concat (map snd al)))" for al
    by (induction al) auto
  moreover have "set (pm_lookup p v) \<subseteq> set (pm_Range p)"
    using map_of_SomeD by (force simp: pm_lookup_def pm_Range_def split: option.splits)
  ultimately show ?thesis by (auto simp: pm_Add_def pm_Range_def Let_def)
qed

lemma pm_Range_fold: "set (pm_Range (fold (\<lambda>v. pm_Add v name) es p)) \<subseteq> insert name (set (pm_Range p))"
proof (induction es arbitrary: p)
  case (Cons e es)
  show ?case using Cons.IH [of "pm_Add e name p"] pm_Range_Add [of e name p] by auto
qed auto

lemma refresh_processes_Range:
  "set (pm_Range (refresh_processes ev names p)) \<subseteq> set names \<union> set (pm_Range p)"
proof (induction names arbitrary: p)
  case (Cons name names)
  show ?case
  proof (cases "getIter ev name")
    case (Inr x)
    then show ?thesis
      using Cons.IH [of p] Cons.IH [of "fold (\<lambda>v. pm_Add v name) (snd x) p"] pm_Range_fold [of name "snd x" p]
      by (cases x) auto
  qed (use Cons.IH [of p] in auto)
qed simp

text \<open>A process list that has no entry in the index, because it was empty or could not be read when the
  rules were loaded, never enters it again by rebuilding: whatever the store holds later, no process is
  found in it. The process index, unlike the host index, keeps no record of the lists it was built from.\<close>

theorem empty_process_list_never_reloads:
  assumes "\<not> pm_Include name (ls_processTrie s)"
  shows "name \<notin> set (pm_Search (ls_processTrie (refresh_processes_all evs s)) ctx)"
proof -
  have "\<not> pm_Include name (ls_processTrie (refresh_processes_all evs s))"
    using assms unfolding refresh_processes_all_def
  proof (induction evs arbitrary: s)
    case (Cons ev evs)
    have "\<not> pm_Include name (ls_processTrie (refreshProcessTrie ev (pm_Range (ls_processTrie s)) s))"
      using Cons.prems refresh_processes_Range [of ev "pm_Range (ls_processTrie s)" newProcessTrie]
      by (auto simp: refreshProcessTrie_def pm_Include_def) (auto simp: newProcessTrie_def pm_Range_def)
    from Cons.IH [OF this] show ?case by simp
  qed simp
  then show ?thesis
    using map_of_SomeD by (force simp: pm_Include_def pm_Search_def pm_lookup_def pm_Range_def split: option.splits)
qed

theorem empty_process_list_never_reloads_witness:
  "''games'' \<notin> set (pm_Search (ls_processTrie (refresh_processes_all [demo_env ''games'' ''process'' [''/bin/x'']]
      (AddNewProcessList (demo_env ''games'' ''process'' []) ''games'' new_Lists))) (cx_SetProcess ''/bin/x'' 1 1 WithContext))"
proof (rule empty_process_list_never_reloads)
  have "getIter (demo_env ''games'' ''process'' []) ''games'' = Inr (r, es) \<Longrightarrow> es = []" for r es
    by (auto simp: getIter_def demo_env_def typed_iter_def trimRuleIter_def)
  then show "\<not> pm_Include ''games'' (ls_processTrie (AddNewProcessList (demo_env ''games'' ''process'' []) ''games'' new_Lists))"
    by (auto simp: AddNewProcessList_def new_Lists_def newProcessTrie_def pm_Include_def pm_Range_def split: sum.splits)
qed

end
