(* ===== verification/Route_Matcher.thy ===== *)
theory Route_Matcher
  imports Route_Lists
begin

text \<open>
  The rules of the router (\<^verbatim>\<open>pkg/route/nested.go\<close>, \<^verbatim>\<open>pkg/route/rule.go\<close>): the matchers with the history they
  write into the connection context, the translation of a stored rule to a matcher, and the ordered table
  of rules with its updates. A Go set is a set. \<^verbatim>\<open>slices.SortFunc\<close>, which does not fix the order of equal
  elements, is the stable sort; that the order does not matter for a match is part of the lemmas.
\<close>

section \<open>Matchers\<close>

datatype matcher =
    InboundM "string set"
  | NetworkM string
  | PortM "u16 set"
  | GeoipM "string set"
  | AndM "matcher list"
  | OrM string "matcher list"
  | ListM string

definition startMatch :: "Context \<Rightarrow> string \<Rightarrow> Context" where
  "startMatch store ruleName = cx_NewMatch ruleName store"

definition recordMatch :: "Context \<Rightarrow> string \<Rightarrow> bool \<Rightarrow> Context" where
  "recordMatch store listName matched = cx_AddMatchHistory listName matched store"

definition NewInbound :: "string list \<Rightarrow> matcher" where
  "NewInbound inbounds = InboundM (set (filter (\<lambda>v. v \<noteq> []) inbounds))"

definition NewNetwork :: "string \<Rightarrow> matcher" where
  "NewNetwork network = NetworkM network"

fun parse_ports :: "string list \<Rightarrow> u16 set" where
  "parse_ports [] = {}"
| "parse_ports (v # vs) =
     (let v = TrimSpace v in
      if v = [] then parse_ports vs
      else case ParseUint16 v of
          None \<Rightarrow> parse_ports vs
        | Some port \<Rightarrow> insert (of_nat port) (parse_ports vs))"

definition NewPort :: "string \<Rightarrow> matcher" where
  "NewPort ports = PortM (parse_ports (Split ports (CHR '','')))"

definition NewGeoip :: "string \<Rightarrow> matcher" where
  "NewGeoip countries = GeoipM (set (filter (\<lambda>v. v \<noteq> []) (map TrimSpace (Split countries (CHR '','')))))"

definition NewAnd :: "matcher list \<Rightarrow> matcher" where "NewAnd ms = AndM ms"
definition NewOr :: "string \<Rightarrow> matcher list \<Rightarrow> matcher" where "NewOr name ms = OrM name ms"

definition inbound_Match :: "string set \<Rightarrow> Context \<Rightarrow> bool \<times> Context" where
  "inbound_Match st store =
     (let inbound = cx_GetInboundName store in
      if inbound \<noteq> [] then
        let ok = inbound \<in> st in (ok, recordMatch store inbound ok)
      else (False, recordMatch store inbound False))"

definition network_Match :: "string \<Rightarrow> address \<Rightarrow> Context \<Rightarrow> bool \<times> Context" where
  "network_Match network ad store =
     (if network = ''tcp'' \<or> network = ''network_tcp'' then
        let ok = HasPrefix (Network (address_Network ad)) ''tcp'' in (ok, recordMatch store ''Net TCP'' ok)
      else if network = ''udp'' \<or> network = ''network_udp'' then
        let ok = HasPrefix (Network (address_Network ad)) ''udp'' in (ok, recordMatch store ''Net UDP'' ok)
      else (False, store))"

definition port_Match :: "u16 set \<Rightarrow> address \<Rightarrow> Context \<Rightarrow> bool \<times> Context" where
  "port_Match st ad store =
     (let ok = Port ad \<in> st in (ok, recordMatch store (''Port '' @ Itoa (unat (Port ad))) ok))"

definition geoip_Match :: "string set \<Rightarrow> Context \<Rightarrow> bool \<times> Context" where
  "geoip_Match st store =
     (let geo = cx_GetGeo store; ok = geo \<in> st in (ok, recordMatch store (''Geoip '' @ geo) ok))"

definition list_Match :: "string \<Rightarrow> Context \<Rightarrow> bool \<times> Context" where
  "list_Match s store =
     (case cx_ConnOptions store of (co, store) \<Rightarrow>
        if co_HasList co s then (True, recordMatch store (''List '' @ s) True)
        else (False, recordMatch store (''List '' @ s) False))"

fun Match :: "matcher \<Rightarrow> address \<Rightarrow> Context \<Rightarrow> bool \<times> Context"
  and and_Match :: "matcher list \<Rightarrow> address \<Rightarrow> Context \<Rightarrow> bool \<times> Context"
  and or_Match :: "matcher list \<Rightarrow> address \<Rightarrow> Context \<Rightarrow> bool \<times> Context" where
  "Match (InboundM st) ad c = inbound_Match st c"
| "Match (NetworkM n) ad c = network_Match n ad c"
| "Match (PortM st) ad c = port_Match st ad c"
| "Match (GeoipM st) ad c = geoip_Match st c"
| "Match (ListM l) ad c = list_Match l c"
| "Match (AndM ms) ad c = and_Match ms ad c"
| "Match (OrM _ ms) ad c = or_Match ms ad c"
| "and_Match [] ad c = (True, c)"
| "and_Match (m # ms) ad c = (case Match m ad c of (ok, c) \<Rightarrow> if \<not> ok then (False, c) else and_Match ms ad c)"
| "or_Match [] ad c = (False, c)"
| "or_Match (m # ms) ad c = (case Match m ad c of (ok, c) \<Rightarrow> if ok then (True, c) else or_Match ms ad c)"

section \<open>From rules to matchers\<close>

definition flattenRuleExpr :: "RuleExpr \<Rightarrow> RuleExpr list" where
  "flattenRuleExpr expr = (if rx_Type expr = ''all'' then rx_All expr else [expr])"

text \<open>The sort key; 6 stands for \<^verbatim>\<open>math.MaxInt\<close>.\<close>

definition getNo :: "RuleExpr \<Rightarrow> nat" where
  "getNo rule =
     (if rx_Type rule = ''port'' \<or> rx_Type rule = ''network'' then 1
      else if rx_Type rule = ''process'' then 2
      else if rx_Type rule = ''inbound'' then 3
      else if rx_Type rule = ''geoip'' then 4
      else if rx_Type rule = ''host'' then 5
      else 6)"

definition sortRule :: "RuleExpr list \<Rightarrow> RuleExpr list" where
  "sortRule rules = (if length rules \<le> 1 then rules else sort_key getNo rules)"

text \<open>One atomic expression: the matcher it adds, if any, and its effect on the indexes.\<close>

definition parse_atom :: "list_env \<Rightarrow> RuleExpr \<Rightarrow> Lists \<Rightarrow> matcher list \<times> Lists" where
  "parse_atom ev rule s =
     (if rx_Type rule = ''host'' then
        (case rx_Host rule of None \<Rightarrow> ([], s) | Some r \<Rightarrow> ([ListM (lr_List r)], AddNewHostList ev (lr_List r) s))
      else if rx_Type rule = ''process'' then
        (case rx_Process rule of None \<Rightarrow> ([], s) | Some r \<Rightarrow> ([ListM (lr_List r)], AddNewProcessList ev (lr_List r) s))
      else if rx_Type rule = ''inbound'' then
        (case rx_Inbound rule of None \<Rightarrow> ([], s)
         | Some r \<Rightarrow> ([NewInbound (sr_Names r @ (if sr_Name r \<noteq> [] then [sr_Name r] else []))], s))
      else if rx_Type rule = ''network'' then
        (case rx_Network rule of None \<Rightarrow> ([], s) | Some r \<Rightarrow> ([NewNetwork (nx_Network r)], s))
      else if rx_Type rule = ''port'' then
        (case rx_Port rule of None \<Rightarrow> ([], s) | Some r \<Rightarrow> ([NewPort (px_Ports r)], s))
      else if rx_Type rule = ''geoip'' then
        (case rx_GeoIP rule of None \<Rightarrow> ([], s) | Some r \<Rightarrow> ([NewGeoip (gx_Countries r)], s))
      else ([], s))"

fun parse_atoms :: "list_env \<Rightarrow> RuleExpr list \<Rightarrow> Lists \<Rightarrow> matcher list \<times> Lists" where
  "parse_atoms ev [] s = ([], s)"
| "parse_atoms ev (rule # rules) s =
     (case parse_atom ev rule s of (ms, s) \<Rightarrow>
        (case parse_atoms ev rules s of (ms', s) \<Rightarrow> (ms @ ms', s)))"

fun parse_exprs :: "list_env \<Rightarrow> RuleExpr list \<Rightarrow> Lists \<Rightarrow> matcher list \<times> Lists" where
  "parse_exprs ev [] s = ([], s)"
| "parse_exprs ev (expr # exprs) s =
     (case parse_atoms ev (sortRule (flattenRuleExpr expr)) s of (andMatchers, s) \<Rightarrow>
        (case parse_exprs ev exprs s of (ms, s) \<Rightarrow>
           ((case andMatchers of [m] \<Rightarrow> m | _ \<Rightarrow> NewAnd andMatchers) # ms, s)))"

definition ParseMatcher :: "list_env \<Rightarrow> RouteRule \<Rightarrow> Lists \<Rightarrow> matcher \<times> Lists" where
  "ParseMatcher ev cc s =
     (case parse_exprs ev (rr_Rules cc) s of (ms, s) \<Rightarrow>
        ((case ms of [m] \<Rightarrow> m | _ \<Rightarrow> NewOr (rr_Name cc) ms), s))"

section \<open>The table of rules\<close>

record MatchEntry =
  mt_matcher :: matcher
  mt_name :: string
  mt_mode :: ModeEnum

record Matchers =
  ms_list :: Lists
  ms_tags :: "string set"
  ms_matchers :: "MatchEntry list"

definition NewMatchers :: "Lists \<Rightarrow> Matchers" where
  "NewMatchers l = \<lparr>ms_list = l, ms_tags = {}, ms_matchers = []\<rparr>"

definition appendRule :: "list_env \<Rightarrow> MatchEntry list \<Rightarrow> RouteRule \<Rightarrow> Matchers \<Rightarrow> MatchEntry list \<times> Matchers" where
  "appendRule ev matchers r s =
     (if rr_Disabled r then (matchers, s)
      else case ParseMatcher ev r (ms_list s) of (m, l) \<Rightarrow>
        (matchers @ [\<lparr>mt_matcher = m, mt_name = rr_Name r, mt_mode = modeEnumFromRule r\<rparr>],
         s\<lparr>ms_list := l, ms_tags := (if rr_Tag r \<noteq> [] then insert (rr_Tag r) (ms_tags s) else ms_tags s)\<rparr>))"

fun append_rules :: "list_env \<Rightarrow> MatchEntry list \<Rightarrow> RouteRule list \<Rightarrow> Matchers \<Rightarrow> MatchEntry list \<times> Matchers" where
  "append_rules ev matchers [] s = (matchers, s)"
| "append_rules ev matchers (r # rs) s =
     (case appendRule ev matchers r s of (matchers, s) \<Rightarrow> append_rules ev matchers rs s)"

definition matchers_Add :: "list_env \<Rightarrow> RouteRule list \<Rightarrow> Matchers \<Rightarrow> Matchers" where
  "matchers_Add ev rules s =
     (case append_rules ev [] rules s of (ms, s) \<Rightarrow> s\<lparr>ms_matchers := ms_matchers s @ ms\<rparr>)"

definition matchers_Update :: "list_env \<Rightarrow> RouteRule list \<Rightarrow> Matchers \<Rightarrow> Matchers" where
  "matchers_Update ev rules s =
     (case append_rules ev [] rules (s\<lparr>ms_tags := {}, ms_list := ResetProcessTrie (ResetHostTrie (ms_list s))\<rparr>)
      of (ms, s) \<Rightarrow> s\<lparr>ms_matchers := ms\<rparr>)"

fun match_loop :: "MatchEntry list \<Rightarrow> address \<Rightarrow> Context \<Rightarrow> ModeEnum \<times> Context" where
  "match_loop [] ad c = (ProxyMode, c)"
| "match_loop (v # vs) ad c =
     (case Match (mt_matcher v) ad (startMatch c (mt_name v)) of
        (ok, c) \<Rightarrow> if ok then (mt_mode v, c) else match_loop vs ad c)"

definition matchers_Match :: "Matchers \<Rightarrow> address \<Rightarrow> Context \<Rightarrow> ModeEnum \<times> Context" where
  "matchers_Match s ad c = match_loop (ms_matchers s) ad c"

text \<open>Moving an element; \<open>None\<close> is the panic of an index out of range.\<close>

fun insert_before_loop :: "'a \<Rightarrow> int \<Rightarrow> int \<Rightarrow> int \<Rightarrow> 'a list \<Rightarrow> 'a list" where
  "insert_before_loop elem from to index [] = []"
| "insert_before_loop elem from to index (v # vs) =
     (if index = from then insert_before_loop elem from to (index + 1) vs
      else (if index = to then [elem] else []) @ [v] @ insert_before_loop elem from to (index + 1) vs)"

definition index_at :: "'a list \<Rightarrow> int \<Rightarrow> 'a option" where
  "index_at s i = (if 0 \<le> i \<and> i < int (length s) then Some (s ! nat i) else None)"

definition InsertBefore :: "'a list \<Rightarrow> int \<Rightarrow> int \<Rightarrow> 'a list option" where
  "InsertBefore s from to =
     (case index_at s from of None \<Rightarrow> None | Some elem \<Rightarrow> Some (insert_before_loop elem from to 0 s))"

fun insert_after_loop :: "'a \<Rightarrow> int \<Rightarrow> int \<Rightarrow> int \<Rightarrow> 'a list \<Rightarrow> 'a list" where
  "insert_after_loop elem from to index [] = []"
| "insert_after_loop elem from to index (v # vs) =
     (if index = from then insert_after_loop elem from to (index + 1) vs
      else [v] @ (if index = to then [elem] else []) @ insert_after_loop elem from to (index + 1) vs)"

definition InsertAfter :: "'a list \<Rightarrow> int \<Rightarrow> int \<Rightarrow> 'a list option" where
  "InsertAfter s from to =
     (case index_at s from of None \<Rightarrow> None | Some elem \<Rightarrow> Some (insert_after_loop elem from to 0 s))"

definition ChangePriority :: "int \<Rightarrow> int \<Rightarrow> string \<Rightarrow> Matchers \<Rightarrow> Matchers option" where
  "ChangePriority source target operate s =
     (if operate = [] \<or> operate = ''exchange'' then
        (case (index_at (ms_matchers s) source, index_at (ms_matchers s) target) of
           (Some src, Some dst) \<Rightarrow> Some (s\<lparr>ms_matchers := (ms_matchers s)[nat source := dst, nat target := src]\<rparr>)
         | _ \<Rightarrow> None)
      else if operate = ''insert_before'' then
        map_option (\<lambda>ms. s\<lparr>ms_matchers := ms\<rparr>) (InsertBefore (ms_matchers s) source target)
      else if operate = ''insert_after'' then
        map_option (\<lambda>ms. s\<lparr>ms_matchers := ms\<rparr>) (InsertAfter (ms_matchers s) source target)
      else Some s)"

section \<open>What a matcher decides\<close>

text \<open>The part of the context that matching reads; the rest of it is the history, which matching writes.\<close>

definition view :: "Context \<Rightarrow> Context" where
  "view c = c\<lparr>cx_ruleChain := [], cx_connOptions := Some (fst (cx_ConnOptions c))\<rparr>"

definition ctx_lists :: "Context \<Rightarrow> string list" where
  "ctx_lists c = co_lists (fst (cx_ConnOptions c))"

lemma view_simps [simp]:
  "view (recordMatch c n b) = view c" "view (startMatch c n) = view c" "view (snd (cx_ConnOptions c)) = view c"
  by (simp_all add: view_def recordMatch_def startMatch_def cx_AddMatchHistory_def cx_NewMatch_def cx_ConnOptions_def Let_def
      split: option.splits)

lemma view_reads:
  "cx_GetInboundName (view c) = cx_GetInboundName c" "cx_GetGeo (view c) = cx_GetGeo c" "ctx_lists (view c) = ctx_lists c"
  by (simp_all add: view_def cx_GetInboundName_def cx_GetGeo_def addr_info_string_def ctx_lists_def cx_ConnOptions_def)

definition network_holds :: "string \<Rightarrow> address \<Rightarrow> bool" where
  "network_holds n ad \<longleftrightarrow>
     (n = ''tcp'' \<or> n = ''network_tcp'') \<and> address_Network ad = TCP \<or>
     (n = ''udp'' \<or> n = ''network_udp'') \<and> address_Network ad = UDP"

fun holds :: "matcher \<Rightarrow> address \<Rightarrow> Context \<Rightarrow> bool" where
  "holds (InboundM st) ad c \<longleftrightarrow> cx_GetInboundName c \<noteq> [] \<and> cx_GetInboundName c \<in> st"
| "holds (NetworkM n) ad c \<longleftrightarrow> network_holds n ad"
| "holds (PortM st) ad c \<longleftrightarrow> Port ad \<in> st"
| "holds (GeoipM st) ad c \<longleftrightarrow> cx_GetGeo c \<in> st"
| "holds (ListM l) ad c \<longleftrightarrow> l \<in> set (ctx_lists c)"
| "holds (AndM ms) ad c \<longleftrightarrow> (\<forall>m \<in> set ms. holds m ad c)"
| "holds (OrM _ ms) ad c \<longleftrightarrow> (\<exists>m \<in> set ms. holds m ad c)"

lemma holds_view: "holds m ad (view c) = holds m ad c"
  by (induction m) (simp_all add: view_reads)

lemma holds_cong: "view c = view c' \<Longrightarrow> holds m ad c = holds m ad c'"
  by (metis holds_view)

lemma HasPrefix_Network:
  "HasPrefix (Network n) ''tcp'' \<longleftrightarrow> n = TCP" "HasPrefix (Network n) ''udp'' \<longleftrightarrow> n = UDP"
  by (cases n; simp add: HasPrefix_def is_prefix_def)+

lemma network_Match_holds: "network_Match n ad c = (ok, c') \<Longrightarrow> ok = network_holds n ad \<and> view c' = view c"
  by (auto simp: network_Match_def network_holds_def HasPrefix_Network Let_def split: if_splits)

lemma list_Match_holds: "list_Match l c = (ok, c') \<Longrightarrow> ok = (l \<in> set (ctx_lists c)) \<and> view c' = view c"
  using view_simps(3) [of c]
  by (auto simp: list_Match_def ctx_lists_def co_HasList_def simp del: view_simps(3) split: prod.splits if_splits)

lemma Match_holds:
  "Match m ad c = (ok, c') \<Longrightarrow> ok = holds m ad c \<and> view c' = view c"
  "and_Match ms ad c = (ok, c') \<Longrightarrow> ok = (\<forall>m \<in> set ms. holds m ad c) \<and> view c' = view c"
  "or_Match ms ad c = (ok, c') \<Longrightarrow> ok = (\<exists>m \<in> set ms. holds m ad c) \<and> view c' = view c"
proof (induction m ad c and ms ad c and ms ad c arbitrary: ok c' and ok c' and ok c' rule: Match_and_Match_or_Match.induct)
  case (9 m ms ad c)
  obtain ok1 c1 where m: "Match m ad c = (ok1, c1)" by fastforce
  from 9(1) [OF m] have *: "ok1 = holds m ad c" "view c1 = view c" by auto
  show ?case using 9(2) [OF m [symmetric], of ok c'] 9(3) m * holds_cong [OF *(2)] by (auto split: if_splits)
next
  case (11 m ms ad c)
  obtain ok1 c1 where m: "Match m ad c = (ok1, c1)" by fastforce
  from 11(1) [OF m] have *: "ok1 = holds m ad c" "view c1 = view c" by auto
  show ?case using 11(2) [OF m [symmetric], of ok c'] 11(3) m * holds_cong [OF *(2)] by (auto split: if_splits)
qed (auto simp: inbound_Match_def port_Match_def geoip_Match_def Let_def network_Match_holds list_Match_holds split: if_splits)

text \<open>The names of the rules in the history.\<close>

definition chain_names :: "Context \<Rightarrow> string list" where
  "chain_names c = map mh_RuleName (cx_ruleChain c)"

lemma chain_names_simps [simp]:
  "chain_names (recordMatch c n b) = chain_names c" "chain_names (startMatch c n) = chain_names c @ [n]"
  "chain_names (snd (cx_ConnOptions c)) = chain_names c"
  by (simp_all add: chain_names_def recordMatch_def startMatch_def cx_AddMatchHistory_def cx_NewMatch_def cx_ConnOptions_def
      Let_def map_butlast [symmetric] split: option.splits)
    (metis append_butlast_last_id last_map list.map_disc_iff map_butlast)

lemma Match_chain:
  "chain_names (snd (Match m ad c)) = chain_names c"
  "chain_names (snd (and_Match ms ad c)) = chain_names c"
  "chain_names (snd (or_Match ms ad c)) = chain_names c"
proof (induction m ad c and ms ad c and ms ad c rule: Match_and_Match_or_Match.induct)
  case (2 n ad c)
  then show ?case by (simp add: network_Match_def Let_def)
next
  case (5 l ad c)
  then show ?case
    using chain_names_simps(3) [of c] by (cases "cx_ConnOptions c") (simp add: list_Match_def)
next
  case (9 m ms ad c)
  then show ?case by (cases "Match m ad c") auto
next
  case (11 m ms ad c)
  then show ?case by (cases "Match m ad c") auto
qed (simp_all add: inbound_Match_def port_Match_def geoip_Match_def Let_def)

lemma match_loop_all:
  "fst (match_loop vs ad c) = (case find (\<lambda>v. holds (mt_matcher v) ad c) vs of None \<Rightarrow> ProxyMode | Some v \<Rightarrow> mt_mode v) \<and>
   view (snd (match_loop vs ad c)) = view c \<and>
   chain_names (snd (match_loop vs ad c)) =
     chain_names c @ map mt_name (take (Suc (length (takeWhile (\<lambda>v. \<not> holds (mt_matcher v) ad c) vs))) vs)"
proof (induction vs arbitrary: c)
  case (Cons v vs)
  obtain ok c1 where m: "Match (mt_matcher v) ad (startMatch c (mt_name v)) = (ok, c1)" by fastforce
  from Match_holds(1) [OF this] have ok: "ok = holds (mt_matcher v) ad c" and vw: "view c1 = view c"
    using holds_cong [of "startMatch c (mt_name v)" c] by auto
  have h: "holds x ad c1 = holds x ad c" for x using holds_cong [OF vw] .
  have n: "chain_names c1 = chain_names c @ [mt_name v]"
    using Match_chain(1) [of "mt_matcher v" ad "startMatch c (mt_name v)"] m by simp
  show ?case using Cons.IH [of c1] ok n vw by (simp add: m h)
qed simp

lemmas match_loop_first = match_loop_all [THEN conjunct1] match_loop_all [THEN conjunct2, THEN conjunct1]
  match_loop_all [THEN conjunct2, THEN conjunct2]

section \<open>What a rule means\<close>

text \<open>An atomic expression without its payload, or of a type that the code does not know, restricts nothing.\<close>

definition atom_holds :: "RuleExpr \<Rightarrow> address \<Rightarrow> Context \<Rightarrow> bool" where
  "atom_holds rule ad c =
     (if rx_Type rule = ''host'' then (\<forall>r. rx_Host rule = Some r \<longrightarrow> lr_List r \<in> set (ctx_lists c))
      else if rx_Type rule = ''process'' then (\<forall>r. rx_Process rule = Some r \<longrightarrow> lr_List r \<in> set (ctx_lists c))
      else if rx_Type rule = ''inbound'' then
        (\<forall>r. rx_Inbound rule = Some r \<longrightarrow> cx_GetInboundName c \<noteq> [] \<and> cx_GetInboundName c \<in> insert (sr_Name r) (set (sr_Names r)))
      else if rx_Type rule = ''network'' then (\<forall>r. rx_Network rule = Some r \<longrightarrow> network_holds (nx_Network r) ad)
      else if rx_Type rule = ''port'' then
        (\<forall>r. rx_Port rule = Some r \<longrightarrow>
           (\<exists>v \<in> set (Split (px_Ports r) (CHR '','')). ParseUint16 (TrimSpace v) = Some (unat (Port ad))))
      else if rx_Type rule = ''geoip'' then
        (\<forall>r. rx_GeoIP rule = Some r \<longrightarrow> cx_GetGeo c \<noteq> [] \<and> cx_GetGeo c \<in> TrimSpace ` set (Split (gx_Countries r) (CHR '','')))
      else True)"

definition rule_holds :: "RouteRule \<Rightarrow> address \<Rightarrow> Context \<Rightarrow> bool" where
  "rule_holds r ad c \<longleftrightarrow> (\<exists>expr \<in> set (rr_Rules r). \<forall>rule \<in> set (flattenRuleExpr expr). atom_holds rule ad c)"

lemma ParseUint16_range: "ParseUint16 s = Some n \<Longrightarrow> n < 65536"
  by (auto simp: ParseUint16_def split: if_splits option.splits)

lemma parse_ports_iff: "p \<in> parse_ports vs \<longleftrightarrow> (\<exists>v \<in> set vs. ParseUint16 (TrimSpace v) = Some (unat p))"
proof (induction vs)
  case (Cons v vs)
  have *: "p = of_nat n \<longleftrightarrow> n = unat p" if "ParseUint16 s = Some n" for s n
    using ParseUint16_range [OF that] by (auto simp: unat_of_nat)
  show ?case
  proof (cases "ParseUint16 (TrimSpace v)")
    case None
    then show ?thesis using Cons by (simp add: Let_def)
  next
    case (Some n)
    then have "TrimSpace v \<noteq> []" by (auto simp: ParseUint16_def)
    then show ?thesis using Some Cons * [OF Some] by (auto simp: Let_def)
  qed
qed simp

lemma parse_atom_holds: "(\<forall>m \<in> set (fst (parse_atom ev rule s)). holds m ad c) = atom_holds rule ad c"
  by (auto simp: parse_atom_def atom_holds_def NewInbound_def NewNetwork_def NewPort_def NewGeoip_def parse_ports_iff split: option.splits)

lemma parse_atoms_holds: "(\<forall>m \<in> set (fst (parse_atoms ev rules s)). holds m ad c) = (\<forall>rule \<in> set rules. atom_holds rule ad c)"
proof (induction rules arbitrary: s)
  case (Cons rule rules)
  show ?case
    using parse_atom_holds [of ev rule s ad c] Cons.IH [of "snd (parse_atom ev rule s)"]
    by (auto split: prod.splits)
qed simp

lemma set_sortRule [simp]: "set (sortRule rules) = set rules"
  by (simp add: sortRule_def)

lemma holds_and_list: "holds (case ms of [m] \<Rightarrow> m | _ \<Rightarrow> NewAnd ms) ad c \<longleftrightarrow> (\<forall>m \<in> set ms. holds m ad c)"
  by (auto simp: NewAnd_def split: list.splits)

lemma holds_or_list: "holds (case ms of [m] \<Rightarrow> m | _ \<Rightarrow> NewOr n ms) ad c \<longleftrightarrow> (\<exists>m \<in> set ms. holds m ad c)"
  by (auto simp: NewOr_def split: list.splits)

lemma parse_exprs_holds:
  "(\<exists>m \<in> set (fst (parse_exprs ev exprs s)). holds m ad c) =
   (\<exists>expr \<in> set exprs. \<forall>rule \<in> set (flattenRuleExpr expr). atom_holds rule ad c)"
proof (induction exprs arbitrary: s)
  case (Cons expr exprs)
  obtain am s1 where a: "parse_atoms ev (sortRule (flattenRuleExpr expr)) s = (am, s1)" by fastforce
  obtain ms s2 where e: "parse_exprs ev exprs s1 = (ms, s2)" by fastforce
  have "(\<forall>m \<in> set am. holds m ad c) = (\<forall>rule \<in> set (flattenRuleExpr expr). atom_holds rule ad c)"
    using parse_atoms_holds [of ev "sortRule (flattenRuleExpr expr)" s ad c] a by simp
  then show ?case using Cons.IH [of s1] a e by (simp add: holds_and_list)
qed simp

lemma ParseMatcher_holds: "holds (fst (ParseMatcher ev r s)) ad c = rule_holds r ad c"
  using parse_exprs_holds [of ev "rr_Rules r" s ad c]
  by (cases "parse_exprs ev (rr_Rules r) s") (simp add: ParseMatcher_def rule_holds_def holds_or_list)

section \<open>The table decides by the first rule that holds\<close>

lemma append_rules_entries:
  "\<exists>es. fst (append_rules ev ms rules s) = ms @ es \<and>
     list_all2 (\<lambda>e r. mt_name e = rr_Name r \<and> mt_mode e = modeEnumFromRule r \<and> (\<forall>ad c. holds (mt_matcher e) ad c = rule_holds r ad c))
       es (filter (\<lambda>r. \<not> rr_Disabled r) rules)"
proof (induction rules arbitrary: ms s)
  case (Cons r rs)
  show ?case
  proof (cases "rr_Disabled r")
    case True
    then show ?thesis using Cons.IH [of ms s] by (simp add: appendRule_def)
  next
    case False
    obtain m l where p: "ParseMatcher ev r (ms_list s) = (m, l)" by fastforce
    let ?e = "\<lparr>mt_matcher = m, mt_name = rr_Name r, mt_mode = modeEnumFromRule r\<rparr>"
    obtain s1 where a: "appendRule ev ms r s = (ms @ [?e], s1)" using False p by (simp add: appendRule_def)
    obtain es where es: "fst (append_rules ev (ms @ [?e]) rs s1) = (ms @ [?e]) @ es"
      "list_all2 (\<lambda>e r. mt_name e = rr_Name r \<and> mt_mode e = modeEnumFromRule r \<and> (\<forall>ad c. holds (mt_matcher e) ad c = rule_holds r ad c))
         es (filter (\<lambda>r. \<not> rr_Disabled r) rs)"
      using Cons.IH by blast
    have "holds m ad c = rule_holds r ad c" for ad c using ParseMatcher_holds [of ev r "ms_list s"] p by simp
    then show ?thesis using False a es by (intro exI [of _ "?e # es"]) simp
  qed
qed simp

lemma find_list_all2:
  "list_all2 (\<lambda>e r. f e = g r \<and> P e = Q r) es rs \<Longrightarrow>
   map_option f (find P es) = map_option g (find Q rs)"
  by (induction rule: list_all2_induct) auto

lemma map_takeWhile_list_all2:
  "list_all2 (\<lambda>e r. n e = k r \<and> P e = Q r) es rs \<Longrightarrow>
   map n (take (Suc (length (takeWhile (\<lambda>e. \<not> P e) es))) es) = map k (take (Suc (length (takeWhile (\<lambda>r. \<not> Q r) rs))) rs)"
  by (induction rule: list_all2_induct) auto

lemma update_match:
  "let (mode, c') = matchers_Match (matchers_Update ev rules s) ad c; rs = filter (\<lambda>r. \<not> rr_Disabled r) rules in
    mode = (case find (\<lambda>r. rule_holds r ad c) rs of None \<Rightarrow> ProxyMode | Some r \<Rightarrow> modeEnumFromRule r) \<and>
    chain_names c' = chain_names c @ map rr_Name (take (Suc (length (takeWhile (\<lambda>r. \<not> rule_holds r ad c) rs))) rs) \<and>
    view c' = view c"
proof -
  let ?s = "s\<lparr>ms_tags := {}, ms_list := ResetProcessTrie (ResetHostTrie (ms_list s))\<rparr>"
  let ?rs = "filter (\<lambda>r. \<not> rr_Disabled r) rules"
  obtain es where es: "fst (append_rules ev [] rules ?s) = es"
    and all: "list_all2 (\<lambda>e r. mt_name e = rr_Name r \<and> mt_mode e = modeEnumFromRule r \<and> (\<forall>ad c. holds (mt_matcher e) ad c = rule_holds r ad c)) es ?rs"
    using append_rules_entries [of ev "[]" rules ?s] by auto
  have ms: "ms_matchers (matchers_Update ev rules s) = es" using es by (simp add: matchers_Update_def case_prod_unfold)
  have f: "map_option mt_mode (find (\<lambda>v. holds (mt_matcher v) ad c) es) = map_option modeEnumFromRule (find (\<lambda>r. rule_holds r ad c) ?rs)"
    by (rule find_list_all2 [OF list_all2_mono [OF all]]) simp
  have "(case find (\<lambda>v. holds (mt_matcher v) ad c) es of None \<Rightarrow> ProxyMode | Some v \<Rightarrow> mt_mode v) =
      (case find (\<lambda>r. rule_holds r ad c) ?rs of None \<Rightarrow> ProxyMode | Some r \<Rightarrow> modeEnumFromRule r)"
    using f by (auto split: option.splits)
  moreover have "map mt_name (take (Suc (length (takeWhile (\<lambda>v. \<not> holds (mt_matcher v) ad c) es))) es) =
      map rr_Name (take (Suc (length (takeWhile (\<lambda>r. \<not> rule_holds r ad c) ?rs))) ?rs)"
    by (rule map_takeWhile_list_all2 [OF list_all2_mono [OF all]]) simp
  ultimately show ?thesis
    using match_loop_first [of es ad c] by (simp add: matchers_Match_def ms case_prod_unfold Let_def)
qed

lemma update_match_decision:
  "fst (matchers_Match (matchers_Update ev rules s) ad c) =
    (case find (\<lambda>r. rule_holds r ad c) (filter (\<lambda>r. \<not> rr_Disabled r) rules) of None \<Rightarrow> ProxyMode | Some r \<Rightarrow> modeEnumFromRule r)"
  using update_match [of ev rules s ad c] by (auto simp: Let_def split: prod.splits)

text \<open>C8: After an update with any rules, matching an address takes the mode of the first rule that is not
  disabled and holds for the address and the context, and the proxy mode if there is none; the context
  records exactly the rules tried, in order, and nothing else of it that matching reads changes.\<close>

theorem first_rule_wins:
  "let (mode, c') = matchers_Match (matchers_Update ev rules s) ad c; rs = filter (\<lambda>r. \<not> rr_Disabled r) rules in
    mode = (case find (\<lambda>r. rule_holds r ad c) rs of None \<Rightarrow> ProxyMode | Some r \<Rightarrow> modeEnumFromRule r) \<and>
    chain_names c' = chain_names c @ map rr_Name (take (Suc (length (takeWhile (\<lambda>r. \<not> rule_holds r ad c) rs))) rs) \<and>
    view c' = view c"
  by (rule update_match)

text \<open>A rule with an expression of a type that the translation does not know, such as the \<^verbatim>\<open>any\<close> and
  \<^verbatim>\<open>not\<close> of the rule format, or with an empty conjunction, matches every address.\<close>

theorem unknown_expr_matches_all:
  assumes "expr \<in> set (rr_Rules r)"
    and "rx_Type expr = ''all'' \<and> rx_All expr = [] \<or>
      rx_Type expr \<notin> {''all'', ''host'', ''process'', ''inbound'', ''network'', ''port'', ''geoip''}"
  shows "fst (Match (fst (ParseMatcher ev r s)) ad c)"
proof -
  have "\<forall>rule \<in> set (flattenRuleExpr expr). atom_holds rule ad c"
    using assms(2) by (elim disjE) (simp_all add: flattenRuleExpr_def atom_holds_def)
  then have "rule_holds r ad c" using assms(1) unfolding rule_holds_def by blast
  then show ?thesis using Match_holds(1) [of "fst (ParseMatcher ev r s)" ad c] ParseMatcher_holds [of ev r s ad c] by (metis prod.collapse)
qed

definition demo_atom :: "string \<Rightarrow> RuleExpr" where
  "demo_atom t = RuleExpr t [] [] None None None None None None None"

definition demo_rule :: "string \<Rightarrow> string \<Rightarrow> RuleExpr list \<Rightarrow> RouteRule" where
  "demo_rule name mode es = \<lparr>rr_Name = name, rr_Mode = mode, rr_Tag = [], rr_ResolveStrategy = [], rr_UdpProxyFqdnStrategy = [],
     rr_Resolver = [], rr_Rules = es, rr_Disabled = False\<rparr>"

theorem unknown_expr_matches_all_witness:
  "fst (Match (fst (ParseMatcher (demo_env ''a'' ''host'' [])
     (demo_rule ''r'' ''block'' [RuleExpr ''not'' [] [] (Some (RuleExpr ''network'' [] [] None None None None (Some \<lparr>nx_Network = ''tcp''\<rparr>) None None))
        None None None None None None]) new_Lists))
     (DomainAddr ''a.com'' 80 TCP) WithContext)"
  by (rule unknown_expr_matches_all) (auto simp: demo_rule_def)

section \<open>The indexes after an update\<close>

definition atom_ops :: "list_env \<Rightarrow> RuleExpr \<Rightarrow> lists_op list" where
  "atom_ops ev rule =
     (if rx_Type rule = ''host'' then (case rx_Host rule of None \<Rightarrow> [] | Some r \<Rightarrow> [AddHostOp ev (lr_List r)])
      else if rx_Type rule = ''process'' then (case rx_Process rule of None \<Rightarrow> [] | Some r \<Rightarrow> [AddProcessOp ev (lr_List r)])
      else [])"

definition rule_ops :: "list_env \<Rightarrow> RouteRule \<Rightarrow> lists_op list" where
  "rule_ops ev r = concat (map (\<lambda>expr. concat (map (atom_ops ev) (sortRule (flattenRuleExpr expr)))) (rr_Rules r))"

definition rules_ops :: "list_env \<Rightarrow> RouteRule list \<Rightarrow> lists_op list" where
  "rules_ops ev rules = concat (map (rule_ops ev) (filter (\<lambda>r. \<not> rr_Disabled r) rules))"

lemma parse_atom_ops: "snd (parse_atom ev rule s) = foldl lists_step s (atom_ops ev rule)"
  by (simp add: parse_atom_def atom_ops_def split: option.splits)

lemma parse_atoms_ops: "snd (parse_atoms ev rules s) = foldl lists_step s (concat (map (atom_ops ev) rules))"
proof (induction rules arbitrary: s)
  case (Cons rule rules)
  then show ?case by (simp add: case_prod_unfold parse_atom_ops)
qed simp

lemma parse_exprs_ops:
  "snd (parse_exprs ev exprs s) =
   foldl lists_step s (concat (map (\<lambda>expr. concat (map (atom_ops ev) (sortRule (flattenRuleExpr expr)))) exprs))"
proof (induction exprs arbitrary: s)
  case (Cons expr exprs)
  then show ?case by (simp add: case_prod_unfold parse_atoms_ops)
qed simp

lemma ParseMatcher_ops: "snd (ParseMatcher ev r s) = foldl lists_step s (rule_ops ev r)"
  by (simp add: ParseMatcher_def rule_ops_def case_prod_unfold parse_exprs_ops)

lemma append_rules_ops: "ms_list (snd (append_rules ev ms rules s)) = foldl lists_step (ms_list s) (rules_ops ev rules)"
proof (induction rules arbitrary: ms s)
  case (Cons r rs)
  then show ?case by (simp add: appendRule_def rules_ops_def case_prod_unfold ParseMatcher_ops)
qed (simp add: rules_ops_def)

lemma Update_ops: "ms_list (matchers_Update ev rules s) = foldl lists_step (ms_list s) (ResetHostOp # ResetProcessOp # rules_ops ev rules)"
  by (simp add: matchers_Update_def append_rules_ops case_prod_unfold)

text \<open>The host lists that the rules in force name.\<close>

definition host_refs :: "RouteRule list \<Rightarrow> string set" where
  "host_refs rules = {name. \<exists>r \<in> set rules. \<not> rr_Disabled r \<and> (\<exists>expr \<in> set (rr_Rules r). \<exists>a \<in> set (flattenRuleExpr expr).
     rx_Type a = ''host'' \<and> (\<exists>ref. rx_Host a = Some ref \<and> lr_List ref = name))}"

lemma AddHost_in_rules_ops: "AddHostOp ev' name \<in> set (rules_ops ev rules) \<longleftrightarrow> ev' = ev \<and> name \<in> host_refs rules"
proof -
  have a: "AddHostOp ev' name \<in> set (atom_ops ev a) \<longleftrightarrow> ev' = ev \<and> rx_Type a = ''host'' \<and> (\<exists>ref. rx_Host a = Some ref \<and> lr_List ref = name)" for a
  proof (cases "rx_Type a = ''host''")
    case True
    then show ?thesis by (cases "rx_Host a") (simp_all add: atom_ops_def eq_commute [of name])
  next
    case False
    then have "atom_ops ev a = [] \<or> (\<exists>n. atom_ops ev a = [AddProcessOp ev n])"
      by (cases "rx_Process a"; cases "rx_Type a = ''process''") (simp_all add: atom_ops_def)
    then show ?thesis using False by (elim disjE exE) simp_all
  qed
  have "AddHostOp ev' name \<in> set (rules_ops ev rules) \<longleftrightarrow>
      (\<exists>r \<in> set rules. \<not> rr_Disabled r \<and> (\<exists>expr \<in> set (rr_Rules r). \<exists>a \<in> set (flattenRuleExpr expr). AddHostOp ev' name \<in> set (atom_ops ev a)))"
    by (simp add: rules_ops_def rule_ops_def Bex_def)
  then show ?thesis unfolding a host_refs_def mem_Collect_eq by metis
qed

lemma no_reset_in_rules_ops: "x \<in> set (rules_ops ev rules) \<Longrightarrow> (\<exists>n. x = AddHostOp ev n) \<or> (\<exists>n. x = AddProcessOp ev n)"
  by (auto simp: rules_ops_def rule_ops_def atom_ops_def split: if_splits option.splits)

lemma listing_adds:
  assumes "\<forall>x \<in> set xs. (\<exists>n. x = AddHostOp ev n) \<or> (\<exists>n. x = AddProcessOp ev n)"
  shows "set (fst (foldl listing_step l xs)) =
    set (fst l) \<union> {(name, es). AddHostOp ev name \<in> set xs \<and> (\<exists>r. getIter ev name = Inr (r, es) \<and> rd_Type r \<noteq> ''process'')}"
  using assms
proof (induction xs arbitrary: l)
  case (Cons x xs)
  note IH = Cons.IH [of "listing_step l x"]
  consider (host) n where "x = AddHostOp ev n" | (process) n where "x = AddProcessOp ev n" using Cons.prems by auto
  then show ?case
  proof cases
    case host
    then show ?thesis using IH Cons.prems by (cases l; cases "getIter ev n") (auto split: if_splits)
  next
    case process
    then show ?thesis using IH Cons.prems by (cases l; cases "getIter ev n") (auto split: if_splits)
  qed
qed simp

text \<open>C13: An update of the rules rebuilds the host index from exactly the lists that the rules in force name and
  that can be read: these are its lists, and an address is found in a list exactly when the entries
  of these lists together match it, whatever the index held before.\<close>

theorem update_rebuilds_host_index:
  assumes "ms_list s = foldl lists_step new_Lists xs" and "address_IsValid ad"
  shows "\<exists>h. set (trie_SearchFqdn (hm_trie (ls_hostTrie (ms_list (matchers_Update ev rules s)))) ad) = trie_match (listing_ops h) ad \<and>
    hm_lists (ls_hostTrie (ms_list (matchers_Update ev rules s))) = fst ` set h \<and>
    set h = {(name, es). name \<in> host_refs rules \<and> (\<exists>r. getIter ev name = Inr (r, es) \<and> rd_Type r \<noteq> ''process'')}"
proof -
  obtain h0 p0 where l0: "foldl listing_step ([], []) xs = (h0, p0)" by fastforce
  let ?ops = "ResetHostOp # ResetProcessOp # rules_ops ev rules"
  let ?l = "foldl listing_step ([], []) (rules_ops ev rules)"
  have "lists_rel (ms_list s) (h0, p0)" using lists_rel_run [OF lists_rel_new, of xs] assms(1) l0 by simp
  then have "lists_rel (ms_list (matchers_Update ev rules s)) (foldl listing_step (h0, p0) ?ops)"
    unfolding Update_ops by (rule lists_rel_run)
  then have hi: "host_index (ls_hostTrie (ms_list (matchers_Update ev rules s))) (fst ?l)" by (simp add: lists_rel_def)
  have "set (fst ?l) = {(name, es). name \<in> host_refs rules \<and> (\<exists>r. getIter ev name = Inr (r, es) \<and> rd_Type r \<noteq> ''process'')}"
    using listing_adds [of "rules_ops ev rules" ev "([], [])"] no_reset_in_rules_ops [of _ ev rules] AddHost_in_rules_ops by simp
  then show ?thesis using hi host_index_search [OF hi assms(2)] by (intro exI [of _ "fst ?l"]) (simp add: host_index_def)
qed

theorem update_rebuilds_host_index_witness:
  "\<exists>h. set (trie_SearchFqdn (hm_trie (ls_hostTrie (ms_list (matchers_Update (demo_env ''ads'' ''host'' [''a.com''])
      [demo_rule ''r'' ''block'' [RuleExpr ''host'' [] [] None (Some \<lparr>lr_List = ''ads''\<rparr>) None None None None None]]
      (NewMatchers new_Lists))))) (DomainAddr ''a.com'' 80 TCP)) = trie_match (listing_ops h) (DomainAddr ''a.com'' 80 TCP) \<and>
    hm_lists (ls_hostTrie (ms_list (matchers_Update (demo_env ''ads'' ''host'' [''a.com''])
      [demo_rule ''r'' ''block'' [RuleExpr ''host'' [] [] None (Some \<lparr>lr_List = ''ads''\<rparr>) None None None None None]]
      (NewMatchers new_Lists)))) = fst ` set h \<and>
    set h = {(name, es). name \<in> host_refs [demo_rule ''r'' ''block'' [RuleExpr ''host'' [] [] None (Some \<lparr>lr_List = ''ads''\<rparr>) None None None None None]] \<and>
      (\<exists>r. getIter (demo_env ''ads'' ''host'' [''a.com'']) name = Inr (r, es) \<and> rd_Type r \<noteq> ''process'')}"
  by (rule update_rebuilds_host_index [where xs = "[]"]) (simp_all add: NewMatchers_def address_IsValid_def)

section \<open>Moving rules\<close>

lemma insert_before_append:
  "insert_before_loop e f t i (us @ vs) = insert_before_loop e f t i us @ insert_before_loop e f t (i + int (length us)) vs"
  by (induction us arbitrary: i) (simp_all add: algebra_simps)

lemma insert_after_append:
  "insert_after_loop e f t i (us @ vs) = insert_after_loop e f t i us @ insert_after_loop e f t (i + int (length us)) vs"
  by (induction us arbitrary: i) (simp_all add: algebra_simps)

lemma insert_loops_skip:
  "f < i \<or> i + int (length vs) \<le> f \<Longrightarrow> t < i \<or> i + int (length vs) \<le> t \<Longrightarrow>
   insert_before_loop e f t i vs = vs \<and> insert_after_loop e f t i vs = vs"
  by (induction vs arbitrary: i) auto

lemma insert_loops_forward:
  assumes "f = int (length us)" "t = int (length us) + 1 + int (length mid)"
  shows "insert_before_loop e f t 0 (us @ x # mid @ y # ws) = us @ mid @ e # y # ws"
    "insert_after_loop e f t 0 (us @ x # mid @ y # ws) = us @ mid @ y # e # ws"
  using insert_loops_skip [of f 0 us t e] insert_loops_skip [of f "f + 1" mid t e] insert_loops_skip [of f "t + 1" ws t e] assms
  by (simp_all add: insert_before_append insert_after_append algebra_simps)

lemma insert_loops_backward:
  assumes "t = int (length us)" "f = int (length us) + 1 + int (length mid)"
  shows "insert_before_loop e f t 0 (us @ y # mid @ x # ws) = us @ e # y # mid @ ws"
    "insert_after_loop e f t 0 (us @ y # mid @ x # ws) = us @ y # e # mid @ ws"
  using insert_loops_skip [of f 0 us t e] insert_loops_skip [of f "t + 1" mid t e] insert_loops_skip [of f "f + 1" ws t e] assms
  by (simp_all add: insert_before_append insert_after_append algebra_simps)

lemma split_two:
  assumes "i < j" "j < length s"
  shows "\<exists>us mid ws. s = us @ s ! i # mid @ s ! j # ws \<and> length us = i \<and> length us + 1 + length mid = j"
proof (intro exI conjI)
  let ?us = "take i s" and ?mid = "take (j - i - 1) (drop (Suc i) s)" and ?ws = "drop (Suc j) s"
  have "drop (Suc i) s = ?mid @ drop j s" using assms by (metis Suc_leI add.commute append_take_drop_id diff_diff_left drop_drop le_add_diff_inverse plus_1_eq_Suc)
  then show "s = ?us @ s ! i # ?mid @ s ! j # ?ws" using assms by (metis Cons_nth_drop_Suc id_take_nth_drop less_trans)
  show "length ?us = i" "length ?us + 1 + length ?mid = j" using assms by auto
qed

text \<open>Moving a rule before or after another one keeps all rules and the order of the others, and puts the
  moved rule directly next to its target, in both directions.\<close>

theorem insert_moves_next_to_target:
  assumes "i < length s" and "j < length s" and "i \<noteq> j"
  shows "\<exists>us mid ws.
    (i < j \<and> s = us @ s ! i # mid @ s ! j # ws \<and>
       InsertBefore s (int i) (int j) = Some (us @ mid @ s ! i # s ! j # ws) \<and>
       InsertAfter s (int i) (int j) = Some (us @ mid @ s ! j # s ! i # ws)) \<or>
    (j < i \<and> s = us @ s ! j # mid @ s ! i # ws \<and>
       InsertBefore s (int i) (int j) = Some (us @ s ! i # s ! j # mid @ ws) \<and>
       InsertAfter s (int i) (int j) = Some (us @ s ! j # s ! i # mid @ ws))"
proof (cases "i < j")
  case True
  then obtain us mid ws where s: "s = us @ s ! i # mid @ s ! j # ws" "length us = i" "length us + 1 + length mid = j"
    using split_two [of i j s] assms by blast
  have "insert_before_loop (s ! i) (int i) (int j) 0 s = us @ mid @ s ! i # s ! j # ws"
    "insert_after_loop (s ! i) (int i) (int j) 0 s = us @ mid @ s ! j # s ! i # ws"
    using insert_loops_forward [of "int i" us "int j" mid "s ! i" "s ! i" "s ! j" ws] s by (metis int_plus of_nat_1)+
  then show ?thesis using True s(1) assms by (auto simp: InsertBefore_def InsertAfter_def index_at_def)
next
  case False
  then obtain us mid ws where s: "s = us @ s ! j # mid @ s ! i # ws" "length us = j" "length us + 1 + length mid = i"
    using split_two [of j i s] assms by (metis linorder_neqE_nat)
  have "insert_before_loop (s ! i) (int i) (int j) 0 s = us @ s ! i # s ! j # mid @ ws"
    "insert_after_loop (s ! i) (int i) (int j) 0 s = us @ s ! j # s ! i # mid @ ws"
    using insert_loops_backward [of "int j" us "int i" mid "s ! i" "s ! j" "s ! i" ws] s by (metis int_plus of_nat_1)+
  then show ?thesis using False s(1) assms by (auto simp: InsertBefore_def InsertAfter_def index_at_def)
qed

theorem insert_moves_next_to_target_witness:
  "\<exists>us mid ws.
    ((3 :: nat) < 1 \<and> [''a'', ''b'', ''c'', ''d'', ''e''] = us @ [''a'', ''b'', ''c'', ''d'', ''e''] ! 3 # mid @ [''a'', ''b'', ''c'', ''d'', ''e''] ! 1 # ws \<and>
       InsertBefore [''a'', ''b'', ''c'', ''d'', ''e''] (int 3) (int 1) = Some (us @ mid @ [''a'', ''b'', ''c'', ''d'', ''e''] ! 3 # [''a'', ''b'', ''c'', ''d'', ''e''] ! 1 # ws) \<and>
       InsertAfter [''a'', ''b'', ''c'', ''d'', ''e''] (int 3) (int 1) = Some (us @ mid @ [''a'', ''b'', ''c'', ''d'', ''e''] ! 1 # [''a'', ''b'', ''c'', ''d'', ''e''] ! 3 # ws)) \<or>
    ((1 :: nat) < 3 \<and> [''a'', ''b'', ''c'', ''d'', ''e''] = us @ [''a'', ''b'', ''c'', ''d'', ''e''] ! 1 # mid @ [''a'', ''b'', ''c'', ''d'', ''e''] ! 3 # ws \<and>
       InsertBefore [''a'', ''b'', ''c'', ''d'', ''e''] (int 3) (int 1) = Some (us @ [''a'', ''b'', ''c'', ''d'', ''e''] ! 3 # [''a'', ''b'', ''c'', ''d'', ''e''] ! 1 # mid @ ws) \<and>
       InsertAfter [''a'', ''b'', ''c'', ''d'', ''e''] (int 3) (int 1) = Some (us @ [''a'', ''b'', ''c'', ''d'', ''e''] ! 1 # [''a'', ''b'', ''c'', ''d'', ''e''] ! 3 # mid @ ws))"
  by (rule insert_moves_next_to_target) simp_all

text \<open>Moving a rule next to itself, or next to a target outside the table, removes it from the table.\<close>

theorem insert_self_drops_rule:
  assumes "i < length s" and "j = int i \<or> j < 0 \<or> int (length s) \<le> j"
  shows "InsertBefore s (int i) j = Some (take i s @ drop (Suc i) s) \<and> InsertAfter s (int i) j = Some (take i s @ drop (Suc i) s)"
proof -
  have "insert_before_loop e (int i) j 0 (take i s @ s ! i # drop (Suc i) s) = take i s @ drop (Suc i) s \<and>
      insert_after_loop e (int i) j 0 (take i s @ s ! i # drop (Suc i) s) = take i s @ drop (Suc i) s" for e
    using assms insert_loops_skip [of "int i" 0 "take i s" j e] insert_loops_skip [of "int i" "1 + int i" "drop (Suc i) s" j e]
    by (auto simp: insert_before_append insert_after_append min_def algebra_simps)
  then show ?thesis
    using assms(1) by (simp add: InsertBefore_def InsertAfter_def index_at_def flip: id_take_nth_drop)
qed

theorem insert_self_drops_rule_witness:
  "InsertBefore [''a'', ''b'', ''c''] (int 1) (int 1) = Some (take 1 [''a'', ''b'', ''c''] @ drop (Suc 1) [''a'', ''b'', ''c'']) \<and>
   InsertAfter [''a'', ''b'', ''c''] (int 1) (int 1) = Some (take 1 [''a'', ''b'', ''c''] @ drop (Suc 1) [''a'', ''b'', ''c''])"
  by (rule insert_self_drops_rule) simp_all

end
