(* ===== verification/Route_Activation.thy ===== *)
theory Route_Activation
  imports Route_Matcher
begin

text \<open>
  When saved rules and lists take effect: the delayed activation of \<^verbatim>\<open>pkg/route/rule.go\<close> (\<^verbatim>\<open>ScheduleApply\<close>,
  \<^verbatim>\<open>applyScheduled\<close>, \<^verbatim>\<open>Apply\<close>) and of \<^verbatim>\<open>pkg/route/list.go\<close> (\<^verbatim>\<open>notifyRefreshHostTrie\<close>,
  \<^verbatim>\<open>refreshHostTrieAndMarkApplied\<close>, \<^verbatim>\<open>ApplyListChangesNow\<close>) as transition systems. A step is one atomic action of a
  goroutine: an update of the store by a client, the call that schedules its activation, the timer, and the
  single actions of the callbacks, interleaved in any order. The contents of the store are abstract; reading
  them succeeds. The 64-bit version counters are natural numbers: a wrap-around takes \<open>2 ^ 64\<close> updates.
\<close>

section \<open>Activation of the rules\<close>

text \<open>Where a running \<^verbatim>\<open>applyScheduled(version)\<close> or \<^verbatim>\<open>Apply\<close> stands: before the check of the version,
  before \<^verbatim>\<open>ListRules\<close>, before \<^verbatim>\<open>Update\<close> with the rules read, before the final update of \<^verbatim>\<open>applyAt\<close>.\<close>

datatype 'r rules_thread =
    SchedCheck nat | SchedRead nat | SchedUpdate nat 'r | SchedMark nat
  | ApplyRead | ApplyUpdate 'r | ApplyMark

record 'r rules_st =
  ru_stored :: 'r
  ru_active :: 'r
  ru_applyAt :: int
  ru_applyVersion :: nat
  ru_applyTimer :: "nat option"
  ru_threads :: "'r rules_thread list"
  ru_unscheduled :: bool

definition ScheduleApply :: "int \<Rightarrow> 'r rules_st \<Rightarrow> 'r rules_st" where
  "ScheduleApply now s =
     (let version = ru_applyVersion s + 1 in
      s\<lparr>ru_applyVersion := version, ru_applyAt := now + 60000, ru_applyTimer := Some version, ru_unscheduled := False\<rparr>)"

text \<open>The first part of \<^verbatim>\<open>Apply\<close>: a new version, and the timer stopped.\<close>

definition Apply_begin :: "'r rules_st \<Rightarrow> 'r rules_st" where
  "Apply_begin s = s\<lparr>ru_applyVersion := ru_applyVersion s + 1, ru_applyTimer := None\<rparr>"

text \<open>The next action of a thread, with what remains of the thread.\<close>

fun rules_advance :: "'r rules_thread \<Rightarrow> 'r rules_st \<Rightarrow> 'r rules_thread list \<times> 'r rules_st" where
  "rules_advance (SchedCheck version) s = ((if ru_applyVersion s \<noteq> version then [] else [SchedRead version]), s)"
| "rules_advance (SchedRead version) s = ([SchedUpdate version (ru_stored s)], s)"
| "rules_advance (SchedUpdate version r) s = ([SchedMark version], s\<lparr>ru_active := r\<rparr>)"
| "rules_advance (SchedMark version) s = ([], if ru_applyVersion s = version then s\<lparr>ru_applyAt := 0\<rparr> else s)"
| "rules_advance ApplyRead s = ([ApplyUpdate (ru_stored s)], s)"
| "rules_advance (ApplyUpdate r) s = ([ApplyMark], s\<lparr>ru_active := r\<rparr>)"
| "rules_advance ApplyMark s = ([], s\<lparr>ru_applyAt := 0\<rparr>)"

text \<open>The steps; with \<open>serial\<close> no activation starts while another one runs.\<close>

inductive rules_step :: "bool \<Rightarrow> 'r rules_st \<Rightarrow> 'r rules_st \<Rightarrow> bool" for serial where
  save: "rules_step serial s (s\<lparr>ru_stored := r, ru_unscheduled := True\<rparr>)"
| schedule: "0 \<le> now \<Longrightarrow> rules_step serial s (ScheduleApply now s)"
| fire: "ru_applyTimer s = Some v \<Longrightarrow> serial \<longrightarrow> ru_threads s = [] \<Longrightarrow>
    rules_step serial s (s\<lparr>ru_applyTimer := None, ru_threads := SchedCheck v # ru_threads s\<rparr>)"
| apply_call: "serial \<longrightarrow> ru_threads s = [] \<Longrightarrow>
    rules_step serial s ((Apply_begin s)\<lparr>ru_threads := ApplyRead # ru_threads s\<rparr>)"
| run: "ru_threads s = us @ t # vs \<Longrightarrow> rules_advance t s = (ts, s') \<Longrightarrow>
    rules_step serial s (s'\<lparr>ru_threads := us @ ts @ vs\<rparr>)"

inductive_cases rules_stepE: "rules_step serial s s'"

definition rules_init :: "'r \<Rightarrow> 'r rules_st" where
  "rules_init r = \<lparr>ru_stored = r, ru_active = r, ru_applyAt = 0, ru_applyVersion = 0, ru_applyTimer = None,
     ru_threads = [], ru_unscheduled = False\<rparr>"

text \<open>Nothing is going on: every update of the store has been scheduled, no timer is armed, no activation runs,
  and the status reports that nothing is pending.\<close>

definition rules_settled :: "'r rules_st \<Rightarrow> bool" where
  "rules_settled s \<longleftrightarrow> \<not> ru_unscheduled s \<and> ru_applyTimer s = None \<and> ru_threads s = [] \<and> ru_applyAt s = 0"

text \<open>The invariant of runs without overlapping activations.\<close>

definition thread_inv :: "'r rules_st \<Rightarrow> 'r rules_thread \<Rightarrow> bool" where
  "thread_inv s t \<longleftrightarrow>
     (case t of
        SchedCheck v \<Rightarrow> v = ru_applyVersion s \<or> ru_applyTimer s \<noteq> None
      | SchedRead v \<Rightarrow> v = ru_applyVersion s \<or> ru_applyTimer s \<noteq> None
      | SchedUpdate v r \<Rightarrow> (v = ru_applyVersion s \<or> ru_applyTimer s \<noteq> None) \<and> v \<le> ru_applyVersion s \<and>
          (v = ru_applyVersion s \<and> \<not> ru_unscheduled s \<longrightarrow> r = ru_stored s)
      | SchedMark v \<Rightarrow> (v = ru_applyVersion s \<or> ru_applyTimer s \<noteq> None) \<and> v \<le> ru_applyVersion s \<and>
          (v = ru_applyVersion s \<and> \<not> ru_unscheduled s \<longrightarrow> ru_active s = ru_stored s)
      | ApplyRead \<Rightarrow> True
      | ApplyUpdate r \<Rightarrow> \<not> ru_unscheduled s \<and> ru_applyTimer s = None \<longrightarrow> r = ru_stored s
      | ApplyMark \<Rightarrow> \<not> ru_unscheduled s \<and> ru_applyTimer s = None \<longrightarrow> ru_active s = ru_stored s)"

definition rules_inv :: "'r rules_st \<Rightarrow> bool" where
  "rules_inv s \<longleftrightarrow>
     (\<forall>v. ru_applyTimer s = Some v \<longrightarrow> v = ru_applyVersion s) \<and>
     (case ru_threads s of
        [] \<Rightarrow> \<not> ru_unscheduled s \<and> ru_applyTimer s = None \<and> ru_applyAt s = 0 \<longrightarrow> ru_active s = ru_stored s
      | [t] \<Rightarrow> thread_inv s t \<and> (case t of SchedCheck v \<Rightarrow> v \<le> ru_applyVersion s | SchedRead v \<Rightarrow> v \<le> ru_applyVersion s | _ \<Rightarrow> True)
      | _ \<Rightarrow> False)"

lemma rules_inv_step:
  assumes "rules_step True s s'" "rules_inv s"
  shows "rules_inv s'"
  using assms
proof cases
  case (save r)
  then show ?thesis using assms(2)
    by (auto simp: rules_inv_def thread_inv_def split: list.splits rules_thread.splits)
next
  case (schedule now)
  then show ?thesis using assms(2)
    by (auto simp: rules_inv_def thread_inv_def ScheduleApply_def Let_def split: list.splits rules_thread.splits)
next
  case (fire v)
  then show ?thesis using assms(2) by (auto simp: rules_inv_def thread_inv_def)
next
  case apply_call
  then show ?thesis using assms(2) by (auto simp: rules_inv_def thread_inv_def Apply_begin_def)
next
  case (run us t vs ts s1)
  have "length (ru_threads s) \<le> 1" using assms(2) by (auto simp: rules_inv_def split: list.splits)
  then have th: "us = []" "vs = []" "ru_threads s = [t]" using run(2) by auto
  then have "rules_inv (s1\<lparr>ru_threads := ts\<rparr>)"
    using run(3) assms(2) by (cases t) (auto simp: rules_inv_def thread_inv_def split: if_splits)
  then show ?thesis using run(1) th by simp
qed

lemma rules_inv_init: "rules_inv (rules_init r)"
  by (simp add: rules_init_def rules_inv_def)

lemma rules_inv_reach: "(rules_step True)\<^sup>*\<^sup>* (rules_init r) s \<Longrightarrow> rules_inv s"
  by (induction rule: rtranclp_induct) (auto intro: rules_inv_init rules_inv_step)


text \<open>Runs given by their actions; \<open>ActRun i\<close> is the next action of the thread at position \<open>i\<close>.\<close>

datatype 'r rules_action = ActSave 'r | ActSchedule int | ActFire | ActApply | ActRun nat

fun rules_act :: "bool \<Rightarrow> 'r rules_action \<Rightarrow> 'r rules_st \<Rightarrow> 'r rules_st option" where
  "rules_act serial (ActSave r) s = Some (s\<lparr>ru_stored := r, ru_unscheduled := True\<rparr>)"
| "rules_act serial (ActSchedule now) s = (if 0 \<le> now then Some (ScheduleApply now s) else None)"
| "rules_act serial ActFire s =
     (case ru_applyTimer s of
        Some v \<Rightarrow> if serial \<and> ru_threads s \<noteq> [] then None
          else Some (s\<lparr>ru_applyTimer := None, ru_threads := SchedCheck v # ru_threads s\<rparr>)
      | None \<Rightarrow> None)"
| "rules_act serial ActApply s =
     (if serial \<and> ru_threads s \<noteq> [] then None else Some ((Apply_begin s)\<lparr>ru_threads := ApplyRead # ru_threads s\<rparr>))"
| "rules_act serial (ActRun i) s =
     (if i < length (ru_threads s) then
        case rules_advance (ru_threads s ! i) s of
          (ts, s') \<Rightarrow> Some (s'\<lparr>ru_threads := take i (ru_threads s) @ ts @ drop (Suc i) (ru_threads s)\<rparr>)
      else None)"

fun rules_run :: "bool \<Rightarrow> 'r rules_action list \<Rightarrow> 'r rules_st \<Rightarrow> 'r rules_st option" where
  "rules_run serial [] s = Some s"
| "rules_run serial (a # as) s = (case rules_act serial a s of None \<Rightarrow> None | Some s \<Rightarrow> rules_run serial as s)"

lemma rules_act_step: "rules_act serial a s = Some s' \<Longrightarrow> rules_step serial s s'"
proof (cases a)
  case (ActRun i)
  assume r: "rules_act serial a s = Some s'"
  then have i: "i < length (ru_threads s)" using ActRun by (auto split: if_splits)
  obtain ts s1 where adv: "rules_advance (ru_threads s ! i) s = (ts, s1)" by fastforce
  have "s' = s1\<lparr>ru_threads := take i (ru_threads s) @ ts @ drop (Suc i) (ru_threads s)\<rparr>" using r ActRun i adv by simp
  then show ?thesis using run [OF id_take_nth_drop [OF i] adv] by simp
qed (auto split: if_splits option.splits intro: rules_step.intros)

lemma rules_run_reach: "rules_run serial as s = Some s' \<Longrightarrow> (rules_step serial)\<^sup>*\<^sup>* s s'"
proof (induction as arbitrary: s)
  case (Cons a as)
  then show ?case by (auto split: option.splits intro: converse_rtranclp_into_rtranclp rules_act_step)
qed simp


text \<open>C37: When a timer callback overlaps an explicit activation the old rules can win: there is a run in which the
  callback reads the rules, newer rules are saved, scheduled and activated, and the callback then
  installs the rules it had read. Everything has settled, nothing is pending, and the active rules
  are not the stored ones. The second look at the version comes only after the update.\<close>

theorem overlapping_activation_installs_stale_rules:
  assumes "old \<noteq> new"
  shows "\<exists>s. (rules_step False)\<^sup>*\<^sup>* (rules_init r) s \<and> rules_settled s \<and> ru_stored s = new \<and> ru_active s = old"
proof -
  let ?r = "rules_run False
     [ActSave old, ActSchedule 0, ActFire, ActRun 0, ActRun 0,
      ActSave new, ActSchedule 0, ActApply, ActRun 0, ActRun 0, ActRun 0, ActRun 0, ActRun 0] (rules_init r)"
  have e: "?r = Some (the ?r)" "rules_settled (the ?r)" "ru_stored (the ?r) = new" "ru_active (the ?r) = old"
    by (simp_all add: rules_init_def ScheduleApply_def Apply_begin_def rules_settled_def Let_def)
  show ?thesis using rules_run_reach [OF e(1)] e by blast
qed

theorem overlapping_activation_installs_stale_rules_witness:
  "\<exists>s. (rules_step False)\<^sup>*\<^sup>* (rules_init ''r0'') s \<and> rules_settled s \<and> ru_stored s = ''r2'' \<and> ru_active s = ''r1''"
  by (rule overlapping_activation_installs_stale_rules) simp

text \<open>An explicit activation can hide a pending one: when new rules are saved and scheduled while it runs, it
  resets the reported activation time although the timer is armed and the new rules are not active.\<close>

theorem apply_hides_pending_activation:
  assumes "old \<noteq> new"
  shows "\<exists>s v. (rules_step True)\<^sup>*\<^sup>* (rules_init old) s \<and> ru_threads s = [] \<and> ru_applyAt s = 0 \<and> ru_applyTimer s = Some v \<and>
    ru_stored s = new \<and> ru_active s = old"
proof -
  let ?r = "rules_run True [ActApply, ActRun 0, ActSave new, ActSchedule 0, ActRun 0, ActRun 0] (rules_init old)"
  have e: "?r = Some (the ?r)" "ru_threads (the ?r) = []" "ru_applyAt (the ?r) = 0" "ru_applyTimer (the ?r) = Some 2"
    "ru_stored (the ?r) = new" "ru_active (the ?r) = old"
    by (simp_all add: rules_init_def ScheduleApply_def Apply_begin_def Let_def)
  show ?thesis using rules_run_reach [OF e(1)] e by blast
qed

theorem apply_hides_pending_activation_witness:
  "\<exists>s v. (rules_step True)\<^sup>*\<^sup>* (rules_init ''r1'') s \<and> ru_threads s = [] \<and> ru_applyAt s = 0 \<and> ru_applyTimer s = Some v \<and>
    ru_stored s = ''r2'' \<and> ru_active s = ''r1''"
  by (rule apply_hides_pending_activation) simp

section \<open>Activation of the lists\<close>

text \<open>Where the holder of \<^verbatim>\<open>hostTrieRefreshMu\<close> stands: it has loaded the version, it has read the lists, it has
  replaced the index.\<close>

datatype 'c refresh_phase = LoadedVersion nat | BuiltTrie nat 'c | Swapped nat

record 'c lists_st =
  li_stored :: 'c
  li_index :: 'c
  li_refreshAt :: int
  li_version :: nat
  li_timer :: bool
  li_waiting :: nat
  li_holder :: "'c refresh_phase option"
  li_unnotified :: bool

definition notifyRefreshHostTrie :: "int \<Rightarrow> 'c lists_st \<Rightarrow> 'c lists_st" where
  "notifyRefreshHostTrie now s =
     s\<lparr>li_version := li_version s + 1, li_refreshAt := now + 60000, li_timer := True, li_unnotified := False\<rparr>"

definition ApplyListChangesNow :: "'c lists_st \<Rightarrow> 'c lists_st" where
  "ApplyListChangesNow s = s\<lparr>li_version := li_version s + 1, li_timer := False, li_waiting := li_waiting s + 1\<rparr>"

fun refresh_advance :: "'c refresh_phase \<Rightarrow> 'c lists_st \<Rightarrow> 'c lists_st" where
  "refresh_advance (LoadedVersion version) s = s\<lparr>li_holder := Some (BuiltTrie version (li_stored s))\<rparr>"
| "refresh_advance (BuiltTrie version c) s = s\<lparr>li_index := c, li_holder := Some (Swapped version)\<rparr>"
| "refresh_advance (Swapped version) s =
     (if li_version s = version then s\<lparr>li_refreshAt := 0, li_holder := None\<rparr> else s\<lparr>li_holder := None\<rparr>)"

inductive lists_activation :: "'c lists_st \<Rightarrow> 'c lists_st \<Rightarrow> bool" where
  save_list: "lists_activation s (s\<lparr>li_stored := c, li_unnotified := True\<rparr>)"
| notify: "0 \<le> now \<Longrightarrow> lists_activation s (notifyRefreshHostTrie now s)"
| timer: "li_timer s \<Longrightarrow> lists_activation s (s\<lparr>li_timer := False, li_waiting := li_waiting s + 1\<rparr>)"
| apply_now: "lists_activation s (ApplyListChangesNow s)"
| lock: "li_holder s = None \<Longrightarrow> li_waiting s = Suc n \<Longrightarrow>
    lists_activation s (s\<lparr>li_waiting := n, li_holder := Some (LoadedVersion (li_version s))\<rparr>)"
| refresh: "li_holder s = Some p \<Longrightarrow> lists_activation s (refresh_advance p s)"

inductive_cases lists_activationE: "lists_activation s s'"

definition lists_init :: "'c \<Rightarrow> 'c lists_st" where
  "lists_init c = \<lparr>li_stored = c, li_index = c, li_refreshAt = 0, li_version = 0, li_timer = True, li_waiting = 0,
     li_holder = None, li_unnotified = False\<rparr>"

definition holder_inv :: "'c lists_st \<Rightarrow> 'c refresh_phase \<Rightarrow> bool" where
  "holder_inv s p \<longleftrightarrow>
     (case p of
        LoadedVersion v \<Rightarrow> v \<le> li_version s
      | BuiltTrie v c \<Rightarrow> v \<le> li_version s \<and> (\<not> li_unnotified s \<and> (v = li_version s \<or> li_refreshAt s = 0) \<longrightarrow> c = li_stored s)
      | Swapped v \<Rightarrow> v \<le> li_version s \<and> (\<not> li_unnotified s \<and> v = li_version s \<longrightarrow> li_index s = li_stored s))"

definition lists_act_inv :: "'c lists_st \<Rightarrow> bool" where
  "lists_act_inv s \<longleftrightarrow>
     (\<not> li_unnotified s \<and> li_refreshAt s = 0 \<longrightarrow> li_index s = li_stored s) \<and>
     (\<forall>p. li_holder s = Some p \<longrightarrow> holder_inv s p)"

lemma lists_act_inv_step: "lists_activation s s' \<Longrightarrow> lists_act_inv s \<Longrightarrow> lists_act_inv s'"
proof (induction rule: lists_activation.induct)
  case (refresh s p)
  then show ?case by (cases p) (auto simp: lists_act_inv_def holder_inv_def)
qed (auto simp: lists_act_inv_def holder_inv_def notifyRefreshHostTrie_def ApplyListChangesNow_def split: refresh_phase.splits)

lemma lists_act_inv_reach: "lists_activation\<^sup>*\<^sup>* (lists_init c) s \<Longrightarrow> lists_act_inv s"
proof (induction rule: rtranclp_induct)
  case base
  then show ?case by (simp add: lists_act_inv_def lists_init_def)
qed (rule lists_act_inv_step)



end
