(* ===== verification/Route_History.thy ===== *)
theory Route_History
  imports Lru Conn_Context
begin

text \<open>
  The history of rejected connections (\<^verbatim>\<open>pkg/route/history.go\<close>): a bounded cache from (protocol, host, process)
  to counters. The cache holds pointers to the counters, which are updated in place: the counters live in a
  store of their own, addressed by the pointers. The order of the map in \<^verbatim>\<open>Range\<close> is an argument.
\<close>

record blockHistoryKey =
  bk_protocol :: string
  bk_host :: string
  bk_process :: string

record BlockHistory =
  bh_Protocol :: string
  bh_Host :: string
  bh_Time :: int
  bh_Process :: string
  bh_BlockCount :: string

record blockHistoryEntry =
  be_item :: BlockHistory
  be_count :: u64

record RejectHistory =
  rh_store :: "(blockHistoryKey, nat) lru"
  rh_entries :: "nat \<Rightarrow> blockHistoryEntry option"
  rh_next :: nat

definition NewRejectHistory :: "int \<Rightarrow> RejectHistory" where
  "NewRejectHistory HistorySize = \<lparr>rh_store = newLru HistorySize 0, rh_entries = (\<lambda>_. None), rh_next = 0\<rparr>"

definition new_history_entry :: "int \<Rightarrow> blockHistoryKey \<Rightarrow> blockHistoryEntry" where
  "new_history_entry now key =
     \<lparr>be_item = \<lparr>bh_Protocol = bk_protocol key, bh_Host = bk_host key, bh_Time = now, bh_Process = bk_process key,
        bh_BlockCount = []\<rparr>, be_count = 1\<rparr>"

text \<open>\<open>None\<close> is a nil dereference, in the cache or of the pointer found.\<close>

definition rh_Push :: "int \<Rightarrow> Context \<Rightarrow> string \<Rightarrow> string \<Rightarrow> RejectHistory \<Rightarrow> RejectHistory option" where
  "rh_Push now ctx protocol host h =
     (let key = \<lparr>bk_protocol = protocol, bk_host = host, bk_process = cx_GetProcessName ctx\<rparr> in
      case lru_LoadOrAdd now key (rh_next h) [] (rh_store h) of
        None \<Rightarrow> None
      | Some ((x, ok), l, _) \<Rightarrow>
          if \<not> ok then
            Some (h\<lparr>rh_store := l, rh_entries := (rh_entries h)(rh_next h \<mapsto> new_history_entry now key), rh_next := rh_next h + 1\<rparr>)
          else case rh_entries h x of
              None \<Rightarrow> None
            | Some e \<Rightarrow>
                Some (h\<lparr>rh_store := l,
                  rh_entries := (rh_entries h)(x \<mapsto> e\<lparr>be_item := (be_item e)\<lparr>bh_Time := now\<rparr>, be_count := be_count e + 1\<rparr>)\<rparr>))"

definition rh_Get :: "blockHistoryKey list \<Rightarrow> RejectHistory \<Rightarrow> BlockHistory list \<times> bool" where
  "rh_Get ks h =
     (let items = concat (map (\<lambda>k. case lr_mapping (rh_store h) k of
            None \<Rightarrow> []
          | Some e \<Rightarrow> (case h_Value (lr_list (rh_store h)) e of
              None \<Rightarrow> []
            | Some en \<Rightarrow> (case rh_entries h (le_data en) of
                None \<Rightarrow> []
              | Some v \<Rightarrow> [(be_item v)\<lparr>bh_BlockCount := Itoa (unat (be_count v))\<rparr>]))) ks)
      in (items, \<exists>item \<in> set items. bh_Process item \<noteq> []))"

section \<open>What the history holds\<close>

text \<open>The counter of a key: of the entry in the cache, if there is one.\<close>

definition rh_count :: "RejectHistory \<Rightarrow> blockHistoryKey \<Rightarrow> u64 option" where
  "rh_count h k =
     (case entry_of k (lru_entries (rh_store h)) of
        None \<Rightarrow> None
      | Some en \<Rightarrow> map_option be_count (rh_entries h (le_data en)))"

definition rh_inv :: "RejectHistory \<Rightarrow> bool" where
  "rh_inv h \<longleftrightarrow> lru_inv (rh_store h) \<and> lr_timeout (rh_store h) = 0 \<and>
     (\<forall>en \<in> set (lru_entries (rh_store h)). le_data en < rh_next h \<and> rh_entries h (le_data en) \<noteq> None \<and> le_expire en = 0) \<and>
     distinct (map le_data (lru_entries (rh_store h)))"

lemma lru_LoadOrAdd_found:
  assumes "lru_inv l" "entry_of k (lru_entries l) = Some en" "le_expire en = 0" "lr_timeout l = 0"
  shows "\<exists>l'. lru_LoadOrAdd now k v [] l = Some ((le_data en, True), l', []) \<and> lru_inv l' \<and>
    lru_entries l' = en # drop_key k (lru_entries l) \<and> lr_timeout l' = 0 \<and> lr_capacity l' = lr_capacity l"
proof -
  have s: "spec_load now (lr_timeout l) k False False (lru_state l) =
      ((Some (le_data en), False, True), (en # drop_key k (lru_entries l), lr_lastPopEntry l), [])"
    using assms(2,3) by (simp add: spec_load_def lru_state_def le_Expired_def)
  obtain l' where "lru_load now k False False l = Some ((Some (le_data en), False, True), l', [])"
    "refines l (en # drop_key k (lru_entries l), lr_lastPopEntry l) l'"
    using lru_load_refines [OF assms(1), of now k False False] unfolding s by auto
  then show ?thesis using assms(4) by (auto simp: lru_LoadOrAdd_def lru_Load_def refines_def lru_state_def)
qed

lemma lru_LoadOrAdd_new:
  assumes "lru_inv l" "entry_of k (lru_entries l) = None" "lr_timeout l = 0"
  shows "\<exists>l' ev. lru_LoadOrAdd now k v [] l = Some ((v, False), l', ev) \<and> lru_inv l' \<and>
    lru_entries l' = (let al = \<lparr>le_key = k, le_data = v, le_expire = 0\<rparr> # lru_entries l in
      if lr_capacity l \<noteq> 0 \<and> int (length al) > lr_capacity l then butlast al else al) \<and>
    lr_timeout l' = 0 \<and> lr_capacity l' = lr_capacity l"
proof -
  have s: "spec_load now (lr_timeout l) k False False (lru_state l) = ((None, False, False), lru_state l, [])"
    using assms(2) by (simp add: spec_load_def lru_state_def)
  obtain l1 where l1: "lru_load now k False False l = Some ((None, False, False), l1, [])" "refines l (lru_state l) l1"
    using lru_load_refines [OF assms(1), of now k False False] unfolding s by auto
  have i1: "lru_inv l1" "lru_entries l1 = lru_entries l" "lr_timeout l1 = 0" "lr_capacity l1 = lr_capacity l"
    using l1(2) assms(3) by (auto simp: refines_def lru_state_def)
  let ?en = "\<lparr>le_key = k, le_data = v, le_expire = 0\<rparr> :: ('a, 'b) lruEntry"
  have e: "new_entry now (lr_timeout l1) k v [] = ?en" using i1(3) by (simp add: new_entry_def)
  obtain l2 ev where l2: "lru_Add now k v [] l1 = Some (l2, ev)" "refines l1 (fst (spec_add (lr_capacity l1) ?en (lru_state l1))) l2"
    using lru_Add_refines [OF i1(1), of now k v "[]"] unfolding e by auto
  have "lru_entries l2 = (let al = ?en # lru_entries l in
      if lr_capacity l \<noteq> 0 \<and> int (length al) > lr_capacity l then butlast al else al)"
    using l2(2) assms(2) i1 by (auto simp: refines_def lru_state_def spec_add_def Let_def split: if_splits)
  moreover have "lru_LoadOrAdd now k v [] l = Some ((v, False), l2, ev)"
    using l1(1) l2(1) by (simp add: lru_LoadOrAdd_def lru_Load_def)
  ultimately show ?thesis using l2(2) i1 by (auto simp: refines_def)
qed

lemma entry_of_Cons: "entry_of k (en # al) = (if le_key en = k then Some en else entry_of k al)"
  by (simp add: entry_of_def)

lemma entry_of_drop: "entry_of k' (drop_key k al) = (if k' = k then None else entry_of k' al)"
  by (induction al) (auto simp: entry_of_def drop_key_def)

lemma distinct_data_drop: "distinct (map le_data al) \<Longrightarrow> distinct (map le_data (drop_key k al))"
  by (simp add: drop_key_def distinct_map_filter)

lemma rh_Push_found:
  assumes i: "rh_inv h" and e: "entry_of k (lru_entries (rh_store h)) = Some en"
    and k: "k = \<lparr>bk_protocol = protocol, bk_host = host, bk_process = cx_GetProcessName ctx\<rparr>"
  shows "\<exists>h' n. rh_Push now ctx protocol host h = Some h' \<and> rh_inv h' \<and> lr_capacity (rh_store h') = lr_capacity (rh_store h) \<and>
    le_key ` set (lru_entries (rh_store h')) = le_key ` set (lru_entries (rh_store h)) \<and> rh_count h k = Some n \<and>
    (\<forall>k'. rh_count h' k' = (if k' = k then Some (n + 1) else rh_count h k'))"
proof -
  let ?al = "lru_entries (rh_store h)"
  have inv: "lru_inv (rh_store h)" "lr_timeout (rh_store h) = 0" "distinct (map le_data ?al)"
    and al: "\<And>en. en \<in> set ?al \<Longrightarrow> le_data en < rh_next h \<and> rh_entries h (le_data en) \<noteq> None \<and> le_expire en = 0"
    using i by (auto simp: rh_inv_def)
  have en: "en \<in> set ?al" "le_key en = k" using entry_of_key [OF e] by auto
  obtain v where v: "rh_entries h (le_data en) = Some v" using al [OF en(1)] by auto
  have exp: "le_expire en = 0" using al [OF en(1)] by simp
  obtain l' where l': "lru_LoadOrAdd now k (rh_next h) [] (rh_store h) = Some ((le_data en, True), l', [])" "lru_inv l'"
    "lru_entries l' = en # drop_key k ?al" "lr_timeout l' = 0" "lr_capacity l' = lr_capacity (rh_store h)"
    using lru_LoadOrAdd_found [OF inv(1) e exp inv(2), of now "rh_next h"] by blast
  have set_l': "set (lru_entries l') = set ?al"
    using l'(3) en set_drop_key [of k ?al] lru_invD(2) [OF inv(1)] by (auto simp: distinct_map inj_on_def)
  let ?v = "v\<lparr>be_item := (be_item v)\<lparr>bh_Time := now\<rparr>, be_count := be_count v + 1\<rparr>"
  let ?h = "h\<lparr>rh_store := l', rh_entries := (rh_entries h)(le_data en \<mapsto> ?v)\<rparr>"
  have p: "rh_Push now ctx protocol host h = Some ?h"
    using l'(1) v by (simp add: rh_Push_def k)
  have data: "le_data en \<notin> le_data ` set (drop_key k ?al)"
    using inv(3) en by (auto simp: set_drop_key distinct_map inj_on_def)
  have "rh_inv ?h"
    using l' al set_l' data distinct_data_drop [OF inv(3), of k] by (auto simp: rh_inv_def)
  moreover have "rh_count h k = Some (be_count v)" using e v by (simp add: rh_count_def)
  moreover have "rh_count ?h k' = (if k' = k then Some (be_count v + 1) else rh_count h k')" for k'
  proof (cases "k' = k")
    case True
    then show ?thesis using en(2) by (simp add: rh_count_def l'(3) entry_of_Cons)
  next
    case False
    show ?thesis
    proof (cases "entry_of k' ?al")
      case (Some en')
      then have "en' \<in> set (drop_key k ?al)" using False entry_of_key [OF Some] by (auto simp: set_drop_key)
      then have "le_data en' \<noteq> le_data en" using data by (metis image_eqI)
      then show ?thesis using False Some en(2) by (simp add: rh_count_def l'(3) entry_of_Cons entry_of_drop)
    qed (use False en(2) in \<open>simp add: rh_count_def l'(3) entry_of_Cons entry_of_drop\<close>)
  qed
  ultimately show ?thesis using p l'(5) set_l' by auto
qed

lemma rh_Push_new:
  assumes i: "rh_inv h" and e: "entry_of k (lru_entries (rh_store h)) = None"
    and k: "k = \<lparr>bk_protocol = protocol, bk_host = host, bk_process = cx_GetProcessName ctx\<rparr>"
    and room: "lr_capacity (rh_store h) = 0 \<or> int (length (lru_entries (rh_store h))) < lr_capacity (rh_store h)"
  shows "\<exists>h'. rh_Push now ctx protocol host h = Some h' \<and> rh_inv h' \<and> lr_capacity (rh_store h') = lr_capacity (rh_store h) \<and>
    le_key ` set (lru_entries (rh_store h')) = insert k (le_key ` set (lru_entries (rh_store h))) \<and> rh_count h k = None \<and>
    (\<forall>k'. rh_count h' k' = (if k' = k then Some 1 else rh_count h k'))"
proof -
  let ?al = "lru_entries (rh_store h)" and ?en = "\<lparr>le_key = k, le_data = rh_next h, le_expire = 0\<rparr> :: (blockHistoryKey, nat) lruEntry"
  have inv: "lru_inv (rh_store h)" "lr_timeout (rh_store h) = 0" "distinct (map le_data ?al)"
    and al: "\<And>en. en \<in> set ?al \<Longrightarrow> le_data en < rh_next h \<and> rh_entries h (le_data en) \<noteq> None \<and> le_expire en = 0"
    using i by (auto simp: rh_inv_def)
  obtain l' ev where l': "lru_LoadOrAdd now k (rh_next h) [] (rh_store h) = Some ((rh_next h, False), l', ev)" "lru_inv l'"
    "lru_entries l' = ?en # ?al" "lr_timeout l' = 0" "lr_capacity l' = lr_capacity (rh_store h)"
    using lru_LoadOrAdd_new [OF inv(1) e inv(2), of now "rh_next h"] room by (auto simp: Let_def split: if_splits)
  let ?h = "h\<lparr>rh_store := l', rh_entries := (rh_entries h)(rh_next h \<mapsto> new_history_entry now k), rh_next := rh_next h + 1\<rparr>"
  have p: "rh_Push now ctx protocol host h = Some ?h"
    using l'(1) by (simp add: rh_Push_def k)
  have fresh: "rh_next h \<notin> le_data ` set ?al" using al by fastforce
  have "rh_inv ?h" using l' al inv(3) fresh by (auto simp: rh_inv_def intro: less_SucI)
  moreover have "rh_count h k = None" using e by (simp add: rh_count_def)
  moreover have "rh_count ?h k' = (if k' = k then Some 1 else rh_count h k')" for k'
  proof (cases "k' = k")
    case True
    then show ?thesis by (simp add: rh_count_def l'(3) entry_of_Cons new_history_entry_def)
  next
    case False
    show ?thesis
    proof (cases "entry_of k' ?al")
      case (Some en')
      then have "le_data en' \<noteq> rh_next h" using al entry_of_key [OF Some] by fastforce
      then show ?thesis using False Some by (simp add: rh_count_def l'(3) entry_of_Cons)
    qed (use False in \<open>simp add: rh_count_def l'(3) entry_of_Cons\<close>)
  qed
  ultimately show ?thesis using p l'(3,5) by auto
qed

text \<open>Whatever is evicted, the rejection just pushed is in the history with its counter increased.\<close>

lemma entry_of_butlast: "al \<noteq> [] \<Longrightarrow> entry_of (le_key en) (butlast (en # al)) = Some en"
  by (simp add: entry_of_Cons)

lemma rh_Push_counted:
  assumes i: "rh_inv h" and cap: "0 \<le> lr_capacity (rh_store h)"
    and k: "k = \<lparr>bk_protocol = protocol, bk_host = host, bk_process = cx_GetProcessName ctx\<rparr>"
  shows "\<exists>h'. rh_Push now ctx protocol host h = Some h' \<and> rh_inv h' \<and> lr_capacity (rh_store h') = lr_capacity (rh_store h) \<and>
    rh_count h' k = Some ((case rh_count h k of None \<Rightarrow> 0 | Some n \<Rightarrow> n) + 1)"
proof (cases "entry_of k (lru_entries (rh_store h))")
  case (Some en)
  then show ?thesis using rh_Push_found [OF i Some k, of now] by auto
next
  case None
  let ?al = "lru_entries (rh_store h)" and ?en = "\<lparr>le_key = k, le_data = rh_next h, le_expire = 0\<rparr> :: (blockHistoryKey, nat) lruEntry"
  have c0: "rh_count h k = None" using None by (simp add: rh_count_def)
  show ?thesis
  proof (cases "lr_capacity (rh_store h) = 0 \<or> int (length ?al) < lr_capacity (rh_store h)")
    case True
    show ?thesis using rh_Push_new [OF i None k True, of now] c0 by auto
  next
    case False
    have inv: "lru_inv (rh_store h)" "lr_timeout (rh_store h) = 0" "distinct (map le_data ?al)"
      and al: "\<And>en. en \<in> set ?al \<Longrightarrow> le_data en < rh_next h \<and> rh_entries h (le_data en) \<noteq> None \<and> le_expire en = 0"
      using i by (auto simp: rh_inv_def)
    obtain l' ev where l': "lru_LoadOrAdd now k (rh_next h) [] (rh_store h) = Some ((rh_next h, False), l', ev)" "lru_inv l'"
      "lru_entries l' = butlast (?en # ?al)" "lr_timeout l' = 0" "lr_capacity l' = lr_capacity (rh_store h)"
      using lru_LoadOrAdd_new [OF inv(1) None inv(2), of now "rh_next h"] False by (auto simp: Let_def split: if_splits)
    let ?h = "h\<lparr>rh_store := l', rh_entries := (rh_entries h)(rh_next h \<mapsto> new_history_entry now k), rh_next := rh_next h + 1\<rparr>"
    have p: "rh_Push now ctx protocol host h = Some ?h" using l'(1) by (simp add: rh_Push_def k)
    have ne: "?al \<noteq> []" using False cap by auto
    have fresh: "rh_next h \<notin> le_data ` set ?al" using al by fastforce
    have sub: "en \<in> set (lru_entries l') \<Longrightarrow> en = ?en \<or> en \<in> set ?al" for en
      using l'(3) in_set_butlastD [of en "?en # ?al"] by auto
    have "distinct (map le_data (?en # ?al))" using inv(3) fresh by simp
    then have d: "distinct (map le_data (lru_entries l'))" unfolding l'(3) map_butlast by (rule distinct_butlast)
    have "le_data en < rh_next h + 1 \<and> ((rh_entries h)(rh_next h \<mapsto> new_history_entry now k)) (le_data en) \<noteq> None \<and> le_expire en = 0"
      if "en \<in> set (lru_entries l')" for en using sub [OF that] al [of en] by auto
    then have "rh_inv ?h" using l' d by (simp add: rh_inv_def)
    moreover have "entry_of k (lru_entries l') = Some ?en"
      using entry_of_butlast [OF ne, of ?en] by (simp add: l'(3))
    ultimately show ?thesis using p l'(5) c0 by (simp add: rh_count_def new_history_entry_def)
  qed
qed

text \<open>A sequence of rejections: time, context, protocol and host of each.\<close>

type_synonym rejection = "int \<times> Context \<times> string \<times> string"

fun reject_key :: "rejection \<Rightarrow> blockHistoryKey" where
  "reject_key (now, ctx, protocol, host) = \<lparr>bk_protocol = protocol, bk_host = host, bk_process = cx_GetProcessName ctx\<rparr>"

fun rh_run :: "rejection list \<Rightarrow> RejectHistory \<Rightarrow> RejectHistory option" where
  "rh_run [] h = Some h"
| "rh_run ((now, ctx, protocol, host) # xs) h =
     (case rh_Push now ctx protocol host h of None \<Rightarrow> None | Some h \<Rightarrow> rh_run xs h)"

lemma rh_run_counts:
  assumes "rh_inv h" "lr_capacity (rh_store h) = cap"
    "cap = 0 \<or> int (card (le_key ` set (lru_entries (rh_store h)) \<union> reject_key ` set xs)) \<le> cap"
  shows "\<exists>h'. rh_run xs h = Some h' \<and>
    (\<forall>k. rh_count h' k = (if k \<in> reject_key ` set xs \<or> rh_count h k \<noteq> None
       then Some ((case rh_count h k of None \<Rightarrow> 0 | Some n \<Rightarrow> n) + of_nat (count_list (map reject_key xs) k)) else None))"
  using assms
proof (induction xs arbitrary: h)
  case Nil
  then show ?case by (auto split: option.splits)
next
  case (Cons x xs)
  obtain now ctx protocol host where x: "x = (now, ctx, protocol, host)" by (cases x)
  let ?k = "reject_key x" and ?al = "lru_entries (rh_store h)"
  have fin: "finite (le_key ` set ?al \<union> reject_key ` set (x # xs))" by simp
  obtain h1 where h1: "rh_Push now ctx protocol host h = Some h1" "rh_inv h1" "lr_capacity (rh_store h1) = cap"
    "le_key ` set (lru_entries (rh_store h1)) = insert ?k (le_key ` set ?al)"
    "\<And>k'. rh_count h1 k' = (if k' = ?k then Some ((case rh_count h ?k of None \<Rightarrow> 0 | Some n \<Rightarrow> n) + 1) else rh_count h k')"
  proof (cases "entry_of ?k ?al")
    case None
    then have new: "?k \<notin> le_key ` set ?al" by (simp add: entry_of_None)
    have "length ?al = card (le_key ` set ?al)"
      using lru_invD(2) [of "rh_store h"] Cons.prems(1) by (metis distinct_card length_map list.set_map rh_inv_def)
    moreover have "card (insert ?k (le_key ` set ?al)) \<le> card (le_key ` set ?al \<union> reject_key ` set (x # xs))"
      by (rule card_mono [OF fin]) auto
    ultimately have "cap = 0 \<or> int (length ?al) < cap" using Cons.prems(3) new by (auto simp: card_insert_if)
    with rh_Push_new [OF Cons.prems(1) None, of protocol host ctx now] Cons.prems(2) x that show thesis by auto
  next
    case (Some en)
    then have "?k \<in> le_key ` set ?al" using entry_of_key [OF Some] by (metis image_eqI)
    with rh_Push_found [OF Cons.prems(1) Some, of protocol host ctx now] Cons.prems(2) x that show thesis
      by (auto simp: insert_absorb)
  qed
  have "cap = 0 \<or> int (card (le_key ` set (lru_entries (rh_store h1)) \<union> reject_key ` set xs)) \<le> cap"
    using Cons.prems(3) by (simp add: h1(4))
  from Cons.IH [OF h1(2,3) this] obtain h' where h': "rh_run xs h1 = Some h'"
    "\<forall>k. rh_count h' k = (if k \<in> reject_key ` set xs \<or> rh_count h1 k \<noteq> None
       then Some ((case rh_count h1 k of None \<Rightarrow> 0 | Some n \<Rightarrow> n) + of_nat (count_list (map reject_key xs) k)) else None)" by blast
  have "rh_count h' k = (if k \<in> reject_key ` set (x # xs) \<or> rh_count h k \<noteq> None
       then Some ((case rh_count h k of None \<Rightarrow> 0 | Some n \<Rightarrow> n) + of_nat (count_list (map reject_key (x # xs)) k)) else None)" for k
    using h'(2) by (cases "k = ?k") (simp_all add: h1(5) add.assoc)
  then show ?case using h'(1) h1(1) x by auto
qed

text \<open>The history counts: as long as the different rejections (protocol, host and process) fit into it,
  the counter of each one is the number of times it was pushed, modulo \<open>2 ^ 64\<close>, and nothing else is
  in the history.\<close>

theorem reject_history_counts:
  assumes "0 < cap" and "int (card (reject_key ` set xs)) \<le> cap"
  shows "\<exists>h. rh_run xs (NewRejectHistory cap) = Some h \<and>
    (\<forall>k. rh_count h k = (if k \<in> reject_key ` set xs then Some (of_nat (count_list (map reject_key xs) k)) else None))"
proof -
  have new: "lru_entries (rh_store (NewRejectHistory cap)) = []" by (simp add: NewRejectHistory_def)
  have i: "rh_inv (NewRejectHistory cap)" by (simp add: rh_inv_def NewRejectHistory_def lru_inv_new(1))
  have c: "lr_capacity (rh_store (NewRejectHistory cap)) = cap" by (simp add: NewRejectHistory_def)
  have n: "rh_count (NewRejectHistory cap) k = None" for k by (simp add: rh_count_def new entry_of_def)
  have "cap = 0 \<or> int (card (le_key ` set (lru_entries (rh_store (NewRejectHistory cap))) \<union> reject_key ` set xs)) \<le> cap"
    using assms(2) new by simp
  from rh_run_counts [OF i c this] obtain h where h: "rh_run xs (NewRejectHistory cap) = Some h"
    and "\<forall>k. rh_count h k = (if k \<in> reject_key ` set xs \<or> rh_count (NewRejectHistory cap) k \<noteq> None
       then Some ((case rh_count (NewRejectHistory cap) k of None \<Rightarrow> 0 | Some n \<Rightarrow> n) + of_nat (count_list (map reject_key xs) k)) else None)"
    by blast
  then show ?thesis by (intro exI [of _ h] conjI allI h) (simp only: n option.simps add_0 if_True if_False simp_thms)
qed

theorem reject_history_counts_witness:
  "\<exists>h. rh_run [(1, WithContext, ''tcp'', ''a.com''), (2, WithContext, ''udp'', ''a.com''), (3, WithContext, ''tcp'', ''a.com'')] (NewRejectHistory 2) = Some h \<and>
    (\<forall>k. rh_count h k = (if k \<in> reject_key ` set [(1, WithContext, ''tcp'', ''a.com''), (2, WithContext, ''udp'', ''a.com''), (3, WithContext, ''tcp'', ''a.com'')]
       then Some (of_nat (count_list (map reject_key [(1, WithContext, ''tcp'', ''a.com''), (2, WithContext, ''udp'', ''a.com''), (3, WithContext, ''tcp'', ''a.com'')]) k)) else None))"
  by (rule reject_history_counts) (simp_all add: card_insert_if)

end
