(* ===== verification/Route_Dispatch.thy ===== *)
theory Route_Dispatch
  imports Route_Matcher Route_History
begin

text \<open>
  The decision for a connection (\<^verbatim>\<open>pkg/route/route.go\<close>, \<^verbatim>\<open>pkg/route/loopback.go\<close>): the lookup of the process,
  the lookup of the country (\<^verbatim>\<open>pkg/net/trie/maxminddb/maxminddb.go\<close>), the lists of the address, the three
  matchers in order (loopback, mode of the context, rules), and the effects on the connection context.
  What lies outside is an argument (\<open>route_env\<close>): the resolvers by name, the process lookup of the operating
  system, the country database, the configuration values, the hash of an address, the random numbers of
  \<^verbatim>\<open>IPs.Rand\<close>, and path and number of the own process. Paths are Unix paths.
\<close>

section \<open>Paths\<close>

text \<open>\<^verbatim>\<open>filepath.Clean\<close> on the components of a path; \<open>st\<close> are the components kept, last first.\<close>

fun clean_loop :: "bool \<Rightarrow> string list \<Rightarrow> string list \<Rightarrow> string list" where
  "clean_loop rooted [] st = rev st"
| "clean_loop rooted (c # cs) st =
     (if c = [] \<or> c = ''.'' then clean_loop rooted cs st
      else if c = ''..'' then
        (case st of
           [] \<Rightarrow> clean_loop rooted cs (if rooted then [] else [c])
         | p # st' \<Rightarrow> if p = ''..'' then clean_loop rooted cs (c # st) else clean_loop rooted cs st')
      else clean_loop rooted cs (c # st))"

fun join_path :: "string list \<Rightarrow> string" where
  "join_path [] = []"
| "join_path [c] = c"
| "join_path (c # cs) = c @ ''/'' @ join_path cs"

definition Clean :: "string \<Rightarrow> string" where
  "Clean path =
     (if path = [] then ''.''
      else
        let rooted = (hd path = CHR ''/'');
            p = join_path (clean_loop rooted (Split path (CHR ''/'')) [])
        in if rooted then CHR ''/'' # p else if p = [] then ''.'' else p)"

definition convertVolumeName :: "string \<Rightarrow> string" where
  "convertVolumeName path = (if path \<noteq> [] \<and> hd path = CHR ''/'' then tl path else path)"

section \<open>The state and its surroundings\<close>

record Process =
  pr_Path :: string
  pr_Pid :: nat
  pr_Uid :: nat

record route_env =
  env_Get :: "string \<Rightarrow> string \<Rightarrow> resolver option"
  env_ProcessName :: "(string \<Rightarrow> address \<Rightarrow> address \<Rightarrow> Process option) option"
  env_ProcessLookupMode :: string
  env_IPv6 :: bool
  env_geoip :: "MaxMindDB option"
  env_hash :: "address \<Rightarrow> u64"
  env_IntN2 :: nat
  env_IntN :: "nat \<Rightarrow> nat"
  env_bootstrap :: "resolver option"
  env_myPath :: string
  env_myPid :: nat

record Route =
  rt_config :: RouteConfig
  rt_ms :: Matchers
  rt_history :: RejectHistory

section \<open>Process and country\<close>

definition shouldDumpProcess :: "route_env \<Rightarrow> Route \<Rightarrow> bool" where
  "shouldDumpProcess ev c =
     (if env_ProcessLookupMode ev = ''off'' then False
      else if env_ProcessLookupMode ev = ''rules_only'' then \<not> pm_Empty (ls_processTrie (ms_list (rt_ms c)))
      else True)"

fun dump_networks :: "(string \<Rightarrow> address \<Rightarrow> address \<Rightarrow> Process option) \<Rightarrow> address \<Rightarrow> address \<Rightarrow> string list \<Rightarrow> Process option" where
  "dump_networks pn source dst [] = None"
| "dump_networks pn source dst (network # networks) =
     (case pn network source dst of None \<Rightarrow> dump_networks pn source dst networks | Some p \<Rightarrow> Some p)"

fun dump_dsts :: "(string \<Rightarrow> address \<Rightarrow> address \<Rightarrow> Process option) \<Rightarrow> address \<Rightarrow> sys_addr list \<Rightarrow> string list \<Rightarrow> Process option" where
  "dump_dsts pn source [] networks = None"
| "dump_dsts pn source (d # ds) networks =
     (case ParseSysAddr (Some d) of
        None \<Rightarrow> dump_dsts pn source ds networks
      | Some dst \<Rightarrow>
          (case dump_networks pn source dst networks of
             None \<Rightarrow> dump_dsts pn source ds networks
           | Some p \<Rightarrow> Some p))"

definition dumpProcess :: "route_env \<Rightarrow> Route \<Rightarrow> string list \<Rightarrow> Context \<Rightarrow> Context" where
  "dumpProcess ev c networks store =
     (case env_ProcessName ev of
        None \<Rightarrow> store
      | Some pn \<Rightarrow>
          if \<not> shouldDumpProcess ev c then store
          else
            let dst = (case cx_inbound store of None \<Rightarrow> [] | Some d \<Rightarrow> [d]) @ (case cx_Destination store of None \<Rightarrow> [] | Some d \<Rightarrow> [d])
            in if length dst = 0 then store
               else case ParseSysAddr (cx_Source store) of
                   None \<Rightarrow> store
                 | Some sourceAddr \<Rightarrow>
                     (case dump_dsts pn sourceAddr dst networks of
                        None \<Rightarrow> store
                      | Some p \<Rightarrow> cx_SetProcess (pr_Path p) (pr_Pid p) (pr_Uid p) store))"

definition cx_RouteIPs :: "address \<Rightarrow> Context \<Rightarrow> ips_result \<times> Context" where
  "cx_RouteIPs ad ctx =
     (case cx_ConnOptions ctx of (co, ctx) \<Rightarrow>
        (case co_RouteIPs ad co of (r, co) \<Rightarrow> (r, ctx\<lparr>cx_connOptions := Some co\<rparr>)))"

fun first_country :: "(addr \<Rightarrow> string option) \<Rightarrow> bytes list \<Rightarrow> string option" where
  "first_country lookup [] = None"
| "first_country lookup (ip # ips) =
     (case AddrFromSlice ip of
        None \<Rightarrow> first_country lookup ips
      | Some a \<Rightarrow> (case lookup a of Some mark \<Rightarrow> Some mark | None \<Rightarrow> first_country lookup ips))"

text \<open>The outer \<open>None\<close> is the nil dereference on a lookup with neither addresses nor an error.\<close>

definition mmdb_LookupAddr :: "MaxMindDB \<Rightarrow> address \<Rightarrow> Context \<Rightarrow> (string option \<times> Context) option" where
  "mmdb_LookupAddr m ad ctx =
     (case ad of
        IPAddr ap _ \<Rightarrow> Some (mm_Lookup m (ap_Addr ap), ctx)
      | DomainAddr _ _ _ \<Rightarrow>
          (case cx_RouteIPs ad ctx of ((ips, err), ctx) \<Rightarrow>
             if err \<noteq> None then Some (None, ctx)
             else case ips of None \<Rightarrow> None | Some i \<Rightarrow> Some (first_country (mm_Lookup m) (ips_Iter i), ctx)))"

section \<open>The matchers of the router\<close>

definition IsLoopback :: "route_env \<Rightarrow> Context \<Rightarrow> string \<Rightarrow> nat \<Rightarrow> bool" where
  "IsLoopback ev ctx path pid =
     (if cx_fakeIP ctx = None \<and> cx_hosts ctx = None \<and>
         (case ParseSysAddr (cx_Destination ctx) of Some ad \<Rightarrow> IsFqdn ad | None \<Rightarrow> False) then False
      else if env_myPath ev = [] then False
      else if path \<noteq> env_myPath ev then False
      else if pid = 0 \<or> env_myPid ev = 0 then True
      else pid = env_myPid ev)"

definition Cycle :: "route_env \<Rightarrow> Context \<Rightarrow> address \<Rightarrow> bool" where
  "Cycle ev meta ad =
     (case cx_inbound meta of
        None \<Rightarrow> False
      | Some i \<Rightarrow> (case ParseSysAddr (Some i) of None \<Rightarrow> False | Some inbound \<Rightarrow> env_hash ev inbound = env_hash ev ad))"

definition loopback_check :: "route_env \<Rightarrow> address \<Rightarrow> Context \<Rightarrow> ModeEnum" where
  "loopback_check ev host store =
     (if Cycle ev store host then BlockMode
      else case cx_GetProcess store of (processPath, pid, _) \<Rightarrow>
        if processPath \<noteq> [] \<or> pid \<noteq> 0 then
          if processPath = ''io.github.asutorufa.yuhaiin'' then DirectMode
          else if IsLoopback ev store (convertVolumeName (Clean (TrimSuffix processPath '' (deleted)''))) pid then BlockMode
          else BypassMode
        else BypassMode)"

definition context_mode :: "Context \<Rightarrow> ModeEnum \<times> Context" where
  "context_mode ctx = (case cx_ConnOptions ctx of (co, ctx) \<Rightarrow> (mode_enum (parseMode (co_RouteMode co)), ctx))"

definition cx_SetResolverMode :: "ResolverMode \<Rightarrow> Context \<Rightarrow> Context" where
  "cx_SetResolverMode m = cx_update_ConnOptions (co_update_Resolver (ro_SetMode m))"

text \<open>The address the rules see: a connection to an IP address with a sniffed host name stands for the host.\<close>

definition sniffed_host :: "Context \<Rightarrow> address \<Rightarrow> address" where
  "sniffed_host store host =
     (if cx_hosts store = None \<and> \<not> IsFqdn host \<and> cx_SniffHost store \<noteq> [] then
        (case ParseAddressPort (Network (address_Network host)) (cx_SniffHost store) (Port host) of
           Some ad \<Rightarrow> ad | None \<Rightarrow> host)
      else host)"

definition normal_mode :: "route_env \<Rightarrow> Matchers \<Rightarrow> address \<Rightarrow> Context \<Rightarrow> ModeEnum \<times> Context" where
  "normal_mode ev ms host store =
     (case matchers_Match ms (sniffed_host store host) store of
        (mode, store) \<Rightarrow>
          (mode,
           (if me_resolveStrategy mode = ResolveOnlyIPv4 \<or> me_resolveStrategy mode = ResolvePreferIPv4
            then cx_SetResolverMode ResolverModePreferIPv4 store
            else if me_resolveStrategy mode = ResolveOnlyIPv6 \<or> me_resolveStrategy mode = ResolvePreferIPv6
            then cx_SetResolverMode ResolverModePreferIPv6 store
            else if \<not> env_IPv6 ev then cx_SetResolverMode ResolverModePreferIPv4 store
            else store)))"

text \<open>The loop over the matchers: the first specified mode, or the mode of the last matcher.\<close>

definition run_matchers :: "route_env \<Rightarrow> Matchers \<Rightarrow> address \<Rightarrow> Context \<Rightarrow> ModeEnum \<times> Context" where
  "run_matchers ev ms ad store =
     (let m = loopback_check ev ad store in
      if \<not> mode_Unspecified (me_mode m) then (m, store)
      else case context_mode store of (m, store) \<Rightarrow>
        if \<not> mode_Unspecified (me_mode m) then (m, store)
        else normal_mode ev ms ad store)"

section \<open>Dispatch\<close>

definition getResolverFallback :: "Route \<Rightarrow> ModeEnum \<Rightarrow> string" where
  "getResolverFallback s mode =
     (if me_mode mode = ModeProxy then rc_ProxyResolver (rt_config s)
      else if me_mode mode = ModeDirect then rc_DirectResolver (rt_config s)
      else if me_mode mode = ModeBlock then ModeBlock
      else [])"

definition skipResolve :: "Route \<Rightarrow> ModeEnum \<Rightarrow> bool" where
  "skipResolve s mode =
     (if me_mode mode \<noteq> ModeProxy then False
      else if rc_UDPProxyFQDNStrategy (rt_config s) = UDPProxyFQDNSkipResolve
      then me_udpProxyFQDNStrategy mode \<noteq> UDPProxyFQDNResolve
      else me_udpProxyFQDNStrategy mode = UDPProxyFQDNSkipResolve)"

record routeResult =
  rr_Addr :: address
  rr_ModeEnum :: ModeEnum

definition cx_SetResolver :: "resolver option \<Rightarrow> Context \<Rightarrow> Context" where
  "cx_SetResolver r = cx_update_ConnOptions (co_update_Resolver (ro_SetResolver r))"

text \<open>The first part of \<^verbatim>\<open>dispatch\<close>: what the connection context knows before the matchers run. \<open>None\<close> is a panic.\<close>

definition dispatch_lookup :: "route_env \<Rightarrow> Route \<Rightarrow> address \<Rightarrow> Context \<Rightarrow> Context option" where
  "dispatch_lookup ev s ad store = do {
     let store = dumpProcess ev s [Network (address_Network ad)] store;
     let store = cx_SetResolver (env_Get ev (getResolverFallback s ProxyMode) []) store;
     store \<leftarrow> (case env_geoip ev of
         None \<Rightarrow> Some store
       | Some geo \<Rightarrow> do {
           (country, store) \<leftarrow> mmdb_LookupAddr geo ad store;
           let store = (case country of None \<Rightarrow> store | Some c \<Rightarrow> cx_SetGeo c store);
           Some (cx_update_ConnOptions (co_SetMaxminddb (Some geo)) store)
         });
     (ls, store) \<leftarrow> hm_Search (ls_hostTrie (ms_list (rt_ms s))) store ad;
     let store = cx_update_ConnOptions (co_AddLists ls) store;
     Some (cx_update_ConnOptions (co_AddLists (pm_Search (ls_processTrie (ms_list (rt_ms s))) store)) store)
   }"

text \<open>The last part: the resolver of the mode, the mode kept in the context, and the local resolution of names.\<close>

definition set_route_mode :: "route_env \<Rightarrow> Route \<Rightarrow> ModeEnum \<Rightarrow> Context \<Rightarrow> Context" where
  "set_route_mode ev s mode store =
     (let store = cx_update_ConnOptions (co_update_Resolver (ro_SetUdpSkipResolveTarget (skipResolve s mode))) store;
          store = cx_SetResolver (env_Get ev (me_resolver mode) (getResolverFallback s mode)) store
      in cx_update_ConnOptions (co_SetRouteMode (me_mode mode)) store)"

definition dispatch_finish :: "route_env \<Rightarrow> Route \<Rightarrow> address \<Rightarrow> ModeEnum \<Rightarrow> Context \<Rightarrow> (routeResult \<times> Context) option" where
  "dispatch_finish ev s ad mode store =
     (let store = set_route_mode ev s mode store in
      if rc_ResolveLocally (rt_config s) \<and> IsFqdn ad \<and> me_mode mode = ModeProxy then
           (case ResolverIP (env_bootstrap ev) store (Hostname ad) of
              (_, Some _) \<Rightarrow> Some (\<lparr>rr_Addr = ad, rr_ModeEnum = mode\<rparr>, store)
            | (None, None) \<Rightarrow> None
            | (Some ips, None) \<Rightarrow>
                (case ips_Rand (env_IntN2 ev) (env_IntN ev) ips of
                   None \<Rightarrow> None
                 | Some ip \<Rightarrow>
                     let store = cx_SetDomainString (address_String ad) store;
                         ad = ParseIPAddr (Network (address_Network ad)) (case ip of None \<Rightarrow> [] | Some b \<Rightarrow> b) (Port ad)
                     in Some (\<lparr>rr_Addr = ad, rr_ModeEnum = mode\<rparr>, cx_SetIPString (address_String ad) store)))
         else Some (\<lparr>rr_Addr = ad, rr_ModeEnum = mode\<rparr>, store))"

definition dispatch :: "route_env \<Rightarrow> Route \<Rightarrow> address \<Rightarrow> Context \<Rightarrow> (routeResult \<times> Context) option" where
  "dispatch ev s ad store = do {
     store \<leftarrow> dispatch_lookup ev s ad store;
     let (mode, store) = run_matchers ev (rt_ms s) ad store;
     dispatch_finish ev s ad mode store
   }"

definition Dispatch :: "route_env \<Rightarrow> Route \<Rightarrow> address \<Rightarrow> Context \<Rightarrow> (address \<times> Context) option" where
  "Dispatch ev s host ctx =
     (case cx_ConnOptions ctx of (co, ctx) \<Rightarrow>
        if co_skipRoute co then Some (host, ctx)
        else map_option (\<lambda>(r, ctx). (rr_Addr r, ctx)) (dispatch ev s host ctx))"

text \<open>
  \<^verbatim>\<open>Conn\<close>, \<^verbatim>\<open>PacketConn\<close> and \<^verbatim>\<open>Ping\<close> up to the call of the dialer: the network, mode, tag and address it is asked
  for, after a blocked connection has been recorded; \<open>now\<close> is the clock.
\<close>

definition open_route :: "route_env \<Rightarrow> string \<Rightarrow> string \<Rightarrow> int \<Rightarrow> address \<Rightarrow> Context \<Rightarrow> Route \<Rightarrow>
    ((string \<times> Mode \<times> string \<times> address) \<times> Context \<times> Route) option" where
  "open_route ev protocol network now host ctx s = do {
     (result, ctx) \<leftarrow> dispatch ev s host ctx;
     let mode = rr_ModeEnum result;
     h \<leftarrow> (if me_mode mode = ModeBlock then rh_Push now ctx protocol (address_String host) (rt_history s) else Some (rt_history s));
     Some ((network, me_mode mode, me_Tag mode, rr_Addr result), ctx, s\<lparr>rt_history := h\<rparr>)
   }"

definition route_Conn :: "route_env \<Rightarrow> int \<Rightarrow> address \<Rightarrow> Context \<Rightarrow> Route \<Rightarrow>
    ((string \<times> Mode \<times> string \<times> address) \<times> Context \<times> Route) option" where
  "route_Conn ev = open_route ev ''tcp'' ''tcp''"

definition route_PacketConn :: "route_env \<Rightarrow> int \<Rightarrow> address \<Rightarrow> Context \<Rightarrow> Route \<Rightarrow>
    ((string \<times> Mode \<times> string \<times> address) \<times> Context \<times> Route) option" where
  "route_PacketConn ev = open_route ev ''udp'' ''udp''"

definition route_Ping :: "route_env \<Rightarrow> int \<Rightarrow> address \<Rightarrow> Context \<Rightarrow> Route \<Rightarrow>
    ((string \<times> Mode \<times> string \<times> address) \<times> Context \<times> Route) option" where
  "route_Ping ev = open_route ev ''ping'' ''udp''"

text \<open>The resolver for a name; \<open>Inl\<close> is the error resolver.\<close>

definition route_Resolver :: "route_env \<Rightarrow> int \<Rightarrow> string \<Rightarrow> Context \<Rightarrow> Route \<Rightarrow>
    ((unit + resolver option) \<times> Context \<times> Route) option" where
  "route_Resolver ev now domain ctx s =
     (case ParseAddressPort [] domain 0 of
        None \<Rightarrow> Some (Inl (), ctx, s)
      | Some host \<Rightarrow> do {
          (ls, ctx) \<leftarrow> hm_Search (ls_hostTrie (ms_list (rt_ms s))) ctx host;
          let ctx = cx_update_ConnOptions (co_AddLists ls) ctx;
          let ctx = cx_update_ConnOptions (co_AddLists (pm_Search (ls_processTrie (ms_list (rt_ms s))) ctx)) ctx;
          let (mode, ctx) = matchers_Match (rt_ms s) host ctx;
          let ctx = (if me_mode mode = ModeBlock then dumpProcess ev s [''udp'', ''tcp''] ctx else ctx);
          h \<leftarrow> (if me_mode mode = ModeBlock then rh_Push now ctx ''dns'' domain (rt_history s) else Some (rt_history s));
          Some (Inr (env_Get ev (me_resolver mode) (getResolverFallback s mode)), ctx, s\<lparr>rt_history := h\<rparr>)
        })"

section \<open>Sniffed hosts\<close>

lemma Match_network_port:
  assumes "address_Network ad = address_Network ad'" "Port ad = Port ad'"
  shows "Match m ad c = Match m ad' c" "and_Match ms ad c = and_Match ms ad' c" "or_Match ms ad c = or_Match ms ad' c"
  using assms
proof (induction m ad c and ms ad c and ms ad c rule: Match_and_Match_or_Match.induct)
  case (9 m ms ad c)
  obtain ok c1 where m: "Match m ad c = (ok, c1)" by fastforce
  then have m': "Match m ad' c = (ok, c1)" using 9(1) [OF 9(3,4)] by simp
  show ?case using 9(2) [OF m [symmetric] _ 9(3,4)] by (cases ok) (simp_all add: m m')
next
  case (11 m ms ad c)
  obtain ok c1 where m: "Match m ad c = (ok, c1)" by fastforce
  then have m': "Match m ad' c = (ok, c1)" using 11(1) [OF 11(3,4)] by simp
  show ?case using 11(2) [OF m [symmetric] _ 11(3,4)] by (cases ok) (simp_all add: m m')
qed (simp_all add: network_Match_def port_Match_def)

lemma match_loop_network_port:
  "address_Network ad = address_Network ad' \<Longrightarrow> Port ad = Port ad' \<Longrightarrow> match_loop vs ad c = match_loop vs ad' c"
  by (induction vs arbitrary: c) (auto simp: Match_network_port(1) [of ad ad'] split: prod.splits)

lemma ParseAddressPort_keeps:
  "ParseAddressPort n h p = Some ad \<Longrightarrow> address_Network ad = ParseAddressNetwork n \<and> Port ad = p"
  by (auto simp: ParseAddressPort_def ParseDomainPort_def Let_def split: option.splits if_splits prod.splits)

lemma sniffed_host_keeps: "address_Network (sniffed_host c ad) = address_Network ad" "Port (sniffed_host c ad) = Port ad"
  by (auto simp: sniffed_host_def ParseAddressNetwork_Network dest: ParseAddressPort_keeps split: option.splits)

text \<open>The host name sniffed from a connection has no influence on the rules: they decide for the address
  with the sniffed host as they decide for the address itself, since the lists of the connection were
  looked up before, for the address, and no other condition reads the host.\<close>

theorem sniffed_host_ignored: "matchers_Match ms (sniffed_host c ad) c = matchers_Match ms ad c"
  unfolding matchers_Match_def by (rule match_loop_network_port) (simp_all add: sniffed_host_keeps)

section \<open>The decision\<close>

lemma sniffed_match: "matchers_Match ms (sniffed_host c ad) c = matchers_Match ms ad c"
  unfolding matchers_Match_def by (rule match_loop_network_port) (simp_all add: sniffed_host_keeps)

lemma loopback_specified: "mode_Unspecified (me_mode (loopback_check ev ad c)) \<longleftrightarrow> loopback_check ev ad c = BypassMode"
  by (auto simp: loopback_check_def mode_Unspecified_def BlockMode_def DirectMode_def BypassMode_def mode_consts mode_enum_def
      split: prod.splits)

lemma holds_rule_view: "view c = view c' \<Longrightarrow> rule_holds r ad c = rule_holds r ad c'"
  using holds_cong ParseMatcher_holds by metis

lemma rule_holds_reads: "rule_holds r ad (snd (cx_ConnOptions c)) = rule_holds r ad c"
  by (rule holds_rule_view) simp

lemma run_matchers_decision:
  assumes "ms = matchers_Update lev rules ms0"
  shows "fst (run_matchers ev ms ad c) =
    (let lm = loopback_check ev ad c; cm = parseMode (co_RouteMode (fst (cx_ConnOptions c))) in
     if lm \<noteq> BypassMode then lm
     else if \<not> mode_Unspecified cm then mode_enum cm
     else case find (\<lambda>r. rule_holds r ad c) (filter (\<lambda>r. \<not> rr_Disabled r) rules) of
         None \<Rightarrow> ProxyMode | Some r \<Rightarrow> modeEnumFromRule r)"
proof -
  obtain co c1 where co: "cx_ConnOptions c = (co, c1)" by fastforce
  then have rh: "rule_holds r ad c1 = rule_holds r ad c" for r using rule_holds_reads [of r ad c] by simp
  have m: "fst (matchers_Match ms ad c1) = (case find (\<lambda>r. rule_holds r ad c) (filter (\<lambda>r. \<not> rr_Disabled r) rules) of
         None \<Rightarrow> ProxyMode | Some r \<Rightarrow> modeEnumFromRule r)"
    using update_match_decision [of lev rules ms0 ad c1] unfolding assms rh .
  show ?thesis
    using m by (auto simp: run_matchers_def loopback_specified context_mode_def co Let_def normal_mode_def sniffed_match split: prod.splits)
qed

text \<open>C1: The mode of a connection is decided by the first of these that applies: the loopback check; the mode
  set in its context; the first rule in force that holds for the address and what was looked up about
  it; the proxy mode.\<close>

theorem route_decision:
  assumes "rt_ms s = matchers_Update lev rules ms0"
    and "dispatch_lookup ev s ad c0 = Some c" and "dispatch ev s ad c0 = Some (r, c')"
  shows "rr_ModeEnum r =
    (let lm = loopback_check ev ad c; cm = parseMode (co_RouteMode (fst (cx_ConnOptions c))) in
     if lm \<noteq> BypassMode then lm
     else if \<not> mode_Unspecified cm then mode_enum cm
     else case find (\<lambda>r. rule_holds r ad c) (filter (\<lambda>r. \<not> rr_Disabled r) rules) of
         None \<Rightarrow> ProxyMode | Some r \<Rightarrow> modeEnumFromRule r)"
proof -
  have "rr_ModeEnum r = fst (run_matchers ev (rt_ms s) ad c)"
    using assms(2,3) by (auto simp: dispatch_def dispatch_finish_def Let_def split: prod.splits if_splits option.splits)
  then show ?thesis using run_matchers_decision [OF assms(1), of ev ad c] by simp
qed

text \<open>A router with one rule that blocks an inbound, and a connection of that inbound.\<close>

definition demo_route :: Route where
  "demo_route = \<lparr>rt_config = \<lparr>rc_DirectResolver = [], rc_ProxyResolver = [], rc_ResolveLocally = True, rc_UDPProxyFQDNStrategy = []\<rparr>,
     rt_ms = matchers_Update (demo_env ''l'' ''host'' [])
       [demo_rule ''r'' ''block'' [RuleExpr ''inbound'' [] [] None None None (Some \<lparr>sr_Name = ''guest'', sr_Names = []\<rparr>) None None None]]
       (NewMatchers new_Lists),
     rt_history = NewRejectHistory 500\<rparr>"

definition demo_route_env :: route_env where
  "demo_route_env = \<lparr>env_Get = (\<lambda>_ _. None), env_ProcessName = None, env_ProcessLookupMode = ''off'', env_IPv6 = True,
     env_geoip = None, env_hash = (\<lambda>_. 0), env_IntN2 = 0, env_IntN = (\<lambda>_. 0), env_bootstrap = None, env_myPath = [], env_myPid = 1\<rparr>"

definition demo_ad :: address where
  "demo_ad = IPAddr \<lparr>ap_Addr = Addr4 0x0a000001, ap_Zone = [], ap_Port = 80\<rparr> TCP"

definition demo_ctx :: Context where
  "demo_ctx = WithContext\<lparr>cx_inboundName := Some ''guest''\<rparr>"

lemma hm_Search_ip: "hm_Search h c (IPAddr ap n) = Some (trie_SearchFqdn (hm_trie h) (IPAddr ap n), c)"
  by (simp add: hm_Search_def trie_Search_def)

lemma demo_dispatch: "\<exists>c r c'. dispatch_lookup demo_route_env demo_route demo_ad demo_ctx = Some c \<and>
    dispatch demo_route_env demo_route demo_ad demo_ctx = Some (r, c')"
  by (simp add: dispatch_def dispatch_lookup_def dispatch_finish_def demo_ad_def demo_route_env_def dumpProcess_def hm_Search_ip
      Let_def case_prod_unfold)

theorem route_decision_witness:
  "\<exists>c (r :: routeResult) c'. dispatch_lookup demo_route_env demo_route demo_ad demo_ctx = Some c \<and>
    dispatch demo_route_env demo_route demo_ad demo_ctx = Some (r, c') \<and>
    rr_ModeEnum r =
    (let lm = loopback_check demo_route_env demo_ad c; cm = parseMode (co_RouteMode (fst (cx_ConnOptions c))) in
     if lm \<noteq> BypassMode then lm
     else if \<not> mode_Unspecified cm then mode_enum cm
     else case find (\<lambda>r. rule_holds r demo_ad c) (filter (\<lambda>r. \<not> rr_Disabled r)
         [demo_rule ''r'' ''block'' [RuleExpr ''inbound'' [] [] None None None (Some \<lparr>sr_Name = ''guest'', sr_Names = []\<rparr>) None None None]]) of
         None \<Rightarrow> ProxyMode | Some r \<Rightarrow> modeEnumFromRule r)"
proof -
  obtain c r c' where d: "dispatch_lookup demo_route_env demo_route demo_ad demo_ctx = Some c"
    "dispatch demo_route_env demo_route demo_ad demo_ctx = Some (r, c')" using demo_dispatch by blast
  have ms: "rt_ms demo_route = matchers_Update (demo_env ''l'' ''host'' [])
       [demo_rule ''r'' ''block'' [RuleExpr ''inbound'' [] [] None None None (Some \<lparr>sr_Name = ''guest'', sr_Names = []\<rparr>) None None None]]
       (NewMatchers new_Lists)" by (simp add: demo_route_def)
  show ?thesis using d route_decision [OF ms d] by blast
qed

text \<open>C35: A connection whose mode is block is never silently dropped: it reaches the dialer with the mode block,
  and the history holds it, under its protocol, host and process, with its counter increased by one.
  A connection with another mode leaves the history as it is.\<close>

theorem blocked_is_recorded:
  assumes "rh_inv (rt_history s)" and "0 \<le> lr_capacity (rh_store (rt_history s))"
    and "dispatch ev s host c0 = Some (r, c)"
  shows "\<exists>s'. open_route ev protocol network now host c0 s = Some ((network, me_mode (rr_ModeEnum r), me_Tag (rr_ModeEnum r), rr_Addr r), c, s') \<and>
    (let k = \<lparr>bk_protocol = protocol, bk_host = address_String host, bk_process = cx_GetProcessName c\<rparr> in
     if me_mode (rr_ModeEnum r) = ModeBlock
     then rh_inv (rt_history s') \<and>
       rh_count (rt_history s') k = Some ((case rh_count (rt_history s) k of None \<Rightarrow> 0 | Some n \<Rightarrow> n) + 1)
     else s' = s)"
proof -
  let ?k = "\<lparr>bk_protocol = protocol, bk_host = address_String host, bk_process = cx_GetProcessName c\<rparr>"
  obtain h' where "rh_Push now c protocol (address_String host) (rt_history s) = Some h'" "rh_inv h'"
    "rh_count h' ?k = Some ((case rh_count (rt_history s) ?k of None \<Rightarrow> 0 | Some n \<Rightarrow> n) + 1)"
    using rh_Push_counted [OF assms(1,2) refl, of now c protocol "address_String host"] by blast
  then show ?thesis using assms(3) by (auto simp: open_route_def Let_def)
qed

lemma rh_inv_new: "rh_inv (NewRejectHistory cap)" "lr_capacity (rh_store (NewRejectHistory cap)) = cap"
  by (simp_all add: rh_inv_def NewRejectHistory_def lru_inv_new(1))

theorem blocked_is_recorded_witness:
  "\<exists>(r :: routeResult) c s'. open_route demo_route_env ''tcp'' ''tcp'' 7 demo_ad demo_ctx demo_route =
      Some ((''tcp'', me_mode (rr_ModeEnum r), me_Tag (rr_ModeEnum r), rr_Addr r), c, s') \<and>
    (let k = \<lparr>bk_protocol = ''tcp'', bk_host = address_String demo_ad, bk_process = cx_GetProcessName c\<rparr> in
     if me_mode (rr_ModeEnum r) = ModeBlock
     then rh_inv (rt_history s') \<and>
       rh_count (rt_history s') k = Some ((case rh_count (rt_history demo_route) k of None \<Rightarrow> 0 | Some n \<Rightarrow> n) + 1)
     else s' = demo_route)"
proof -
  obtain r c where d: "dispatch demo_route_env demo_route demo_ad demo_ctx = Some (r, c)" using demo_dispatch by blast
  have "rt_history demo_route = NewRejectHistory 500" by (simp add: demo_route_def)
  then have i: "rh_inv (rt_history demo_route)" "0 \<le> lr_capacity (rh_store (rt_history demo_route))"
    using rh_inv_new [of 500] by simp_all
  show ?thesis using blocked_is_recorded [OF i d, of "''tcp''" "''tcp''" 7] by blast
qed

section \<open>Local resolution\<close>

text \<open>With local resolution, a name routed to a proxy is replaced by one of the addresses its resolver gives,
  with the same network and port, and the context keeps the name and the address that replaced it.\<close>

theorem dispatch_resolves_locally:
  assumes "rc_ResolveLocally (rt_config s)" and "me_mode mode = ModeProxy" and "ad = DomainAddr h p n"
    and "ResolverIP (env_bootstrap ev) (set_route_mode ev s mode c) h = (Some ips, None)"
    and "ips_Rand (env_IntN2 ev) (env_IntN ev) ips = Some (Some ip)" and "AddrFromSlice ip = Some a"
  shows "\<exists>c'. dispatch_finish ev s ad mode c =
      Some (\<lparr>rr_Addr = IPAddr \<lparr>ap_Addr = Unmap a, ap_Zone = [], ap_Port = p\<rparr> n, rr_ModeEnum = mode\<rparr>, c') \<and>
    ip \<in> set (ips_Iter ips) \<and> cx_GetDomainString c' = address_String ad \<and>
    cx_GetIPString c' = address_String (IPAddr \<lparr>ap_Addr = Unmap a, ap_Zone = [], ap_Port = p\<rparr> n)"
proof -
  let ?a = "IPAddr \<lparr>ap_Addr = Unmap a, ap_Zone = [], ap_Port = p\<rparr> n"
  have pa: "ParseIPAddr (Network n) ip p = ?a"
    using assms(6) by (simp add: ParseIPAddr_def toAddrPort_def ParseAddressNetwork_Network)
  have ne: "address_String ad \<noteq> []" "address_String ?a \<noteq> []"
    by (auto simp: assms(3) JoinHostPort_def addr_port_String_def split: addr.splits)
  have "ip \<in> set (ips_Iter ips)"
    using assms(5) by (auto simp: ips_Rand_def ips_Iter_def slice_at_def split: if_splits)
  then show ?thesis
    using assms ne pa
    by (simp add: dispatch_finish_def Let_def cx_SetDomainString_def cx_SetIPString_def cx_GetDomainString_def cx_GetIPString_def
        addr_info_string_def cx_setAddrInfo_def deref_string_def)
qed

theorem dispatch_resolves_locally_witness:
  "\<exists>ev c'. dispatch_finish ev demo_route (DomainAddr ''a.com'' 443 TCP) ProxyMode demo_ctx =
      Some (\<lparr>rr_Addr = IPAddr \<lparr>ap_Addr = Unmap (Addr4 0x08080808), ap_Zone = [], ap_Port = 443\<rparr> TCP, rr_ModeEnum = ProxyMode\<rparr>, c') \<and>
    [8, 8, 8, 8] \<in> set (ips_Iter \<lparr>AAAA = [], A_ips = [[8, 8, 8, 8]]\<rparr>) \<and>
    cx_GetDomainString c' = address_String (DomainAddr ''a.com'' 443 TCP) \<and>
    cx_GetIPString c' = address_String (IPAddr \<lparr>ap_Addr = Unmap (Addr4 0x08080808), ap_Zone = [], ap_Port = 443\<rparr> TCP)"
proof -
  let ?ips = "\<lparr>AAAA = [], A_ips = [[8, 8, 8, 8 :: u8]]\<rparr>"
  let ?r = "\<lparr>res_Name = ''r'', res_LookupIP = (\<lambda>_ _. (Some ?ips, None))\<rparr>"
  let ?ev = "demo_route_env\<lparr>env_Get := (\<lambda>_ _. Some ?r)\<rparr>"
  have a: "AddrFromSlice [8, 8, 8, 8] = Some (Addr4 0x08080808)" by code_simp
  have "ResolverIP (env_bootstrap ?ev) (set_route_mode ?ev demo_route ProxyMode demo_ctx) ''a.com'' = (Some ?ips, None)"
    by (simp add: ResolverIP_def set_route_mode_def cx_update_ConnOptions_def cx_SetResolver_def co_update_Resolver_def co_Resolver_def
        cx_ConnOptions_def demo_ctx_def WithContext_def new_ConnOptions_def new_ResolverOptions_def ro_SetResolver_def
        ro_SetUdpSkipResolveTarget_def co_SetRouteMode_def demo_route_env_def Let_def)
  then show ?thesis
    using dispatch_resolves_locally [of demo_route ProxyMode "DomainAddr ''a.com'' 443 TCP" "''a.com''" 443 TCP ?ev demo_ctx ?ips "[8, 8, 8, 8]" "Addr4 0x08080808"]
    by (intro exI [of _ ?ev])
      (simp add: a demo_route_def ProxyMode_def ips_Rand_def slice_at_def demo_route_env_def)
qed

end
