(* ===== verification/Netip_Range.thy ===== *)
theory Netip_Range
  imports Netip
begin

text \<open>
  The addresses of a prefix as a numbered sequence: the \<open>i\<close>-th address after the network address is in the
  prefix as long as \<open>i\<close> fits into the host bits, and \<^verbatim>\<open>Next\<close> walks along the sequence. Used by the fake
  address pools.
\<close>

fun nth_addr :: "addr \<Rightarrow> nat \<Rightarrow> addr" where
  "nth_addr (Addr4 w) i = Addr4 (w + of_nat i)"
| "nth_addr (Addr6 w) i = Addr6 (w + of_nat i)"
| "nth_addr (NoAddr w) i = NoAddr w"

definition host_bits :: "netip_prefix \<Rightarrow> nat" where
  "host_bits p = BitLen (pAddr p) - nat (pBits p)"

lemma word_block:
  fixes w :: "'a::len word"
  assumes m: "push_bit h (drop_bit h w) = w" and h: "h \<le> LENGTH('a)" and i: "i < 2 ^ h"
  shows "unat (w + of_nat i) = unat w + i" "drop_bit h (w + of_nat i) = drop_bit h w"
proof -
  let ?k = "unat w div 2 ^ h"
  have "take_bit h w = 0" by (metis m take_bit_push_bit diff_self_eq_0 take_bit_0 push_bit_of_0 le_refl)
  then have "take_bit h (unat w) = 0" by (metis unsigned_take_bit_eq unsigned_0)
  then have mod: "unat w mod 2 ^ h = 0" by (simp add: take_bit_eq_mod)
  have L: "(2 :: nat) ^ LENGTH('a) = 2 ^ h * 2 ^ (LENGTH('a) - h)" using h by (simp flip: power_add)
  have w: "unat w = 2 ^ h * ?k" using mod by (metis add.right_neutral div_mult_mod_eq mult.commute)
  have "2 ^ h * ?k < 2 ^ h * 2 ^ (LENGTH('a) - h)" using unsigned_less [of w, where 'a = nat] w L by metis
  then have "?k + 1 \<le> 2 ^ (LENGTH('a) - h)" by simp
  then have "2 ^ h * (?k + 1) \<le> (2 :: nat) ^ LENGTH('a)" unfolding L by (rule mult_le_mono2)
  then have s: "unat w + i < 2 ^ LENGTH('a)" using w i by (simp add: algebra_simps)
  then show u: "unat (w + of_nat i) = unat w + i"
    by (simp add: unat_word_ariths(1) unat_of_nat mod_add_right_eq)
  have "unat (drop_bit h (w + of_nat i)) = (2 ^ h * ?k + i) div 2 ^ h"
    using u w by (metis unat_drop_bit_eq drop_bit_eq_div)
  also have "\<dots> = ?k" using i by simp
  also have "\<dots> = unat (drop_bit h w)" by (metis unat_drop_bit_eq drop_bit_eq_div)
  finally show "drop_bit h (w + of_nat i) = drop_bit h w" by (simp only: word_eq_iff_unsigned [where 'a = nat])
qed

lemma nth_addr_0 [simp]: "nth_addr a 0 = a"
  by (cases a) simp_all

lemma masked_prefix:
  assumes "prefix_IsValid p" "prefix_Masked p = p"
  shows "mask_addr (nat (pBits p)) (pAddr p) = pAddr p"
  using assms by (metis netip_prefix.select_convs(1) prefix_Masked_def)

lemma nth_addr_Contains:
  assumes v: "prefix_IsValid p" and m: "prefix_Masked p = p" and i: "i < 2 ^ host_bits p"
  shows "prefix_Contains p (nth_addr (pAddr p) i)"
proof (cases "pAddr p")
  case (Addr4 w)
  then have "push_bit (32 - nat (pBits p)) (drop_bit (32 - nat (pBits p)) w) = w" using masked_prefix [OF v m] by simp
  from word_block(2) [OF this _, of i] show ?thesis using Addr4 v i by (simp add: prefix_Contains_def host_bits_def)
next
  case (Addr6 w)
  then have "push_bit (128 - nat (pBits p)) (drop_bit (128 - nat (pBits p)) w) = w" using masked_prefix [OF v m] by simp
  from word_block(2) [OF this _, of i] show ?thesis using Addr6 v i by (simp add: prefix_Contains_def host_bits_def)
next
  case (NoAddr w)
  then show ?thesis using v by (simp add: prefix_IsValid_def)
qed

lemma nth_addr_inject:
  assumes v: "prefix_IsValid p" and m: "prefix_Masked p = p" and i: "i < 2 ^ host_bits p" and j: "j < 2 ^ host_bits p"
  shows "nth_addr (pAddr p) i = nth_addr (pAddr p) j \<longleftrightarrow> i = j"
proof (cases "pAddr p")
  case (Addr4 w)
  then have "push_bit (32 - nat (pBits p)) (drop_bit (32 - nat (pBits p)) w) = w" using masked_prefix [OF v m] by simp
  moreover have "i < 2 ^ (32 - nat (pBits p))" "j < 2 ^ (32 - nat (pBits p))" using Addr4 i j by (simp_all add: host_bits_def)
  ultimately have "unat (w + of_nat i) = unat w + i" "unat (w + of_nat j) = unat w + j" using word_block(1) by force+
  then have "w + of_nat i = w + of_nat j \<longleftrightarrow> i = j" by (metis add_left_cancel)
  then show ?thesis using Addr4 by (simp only: nth_addr.simps addr.inject)
next
  case (Addr6 w)
  then have "push_bit (128 - nat (pBits p)) (drop_bit (128 - nat (pBits p)) w) = w" using masked_prefix [OF v m] by simp
  moreover have "i < 2 ^ (128 - nat (pBits p))" "j < 2 ^ (128 - nat (pBits p))" using Addr6 i j by (simp_all add: host_bits_def)
  ultimately have "unat (w + of_nat i) = unat w + i" "unat (w + of_nat j) = unat w + j" using word_block(1) by force+
  then have "w + of_nat i = w + of_nat j \<longleftrightarrow> i = j" by (metis add_left_cancel)
  then show ?thesis using Addr6 by (simp only: nth_addr.simps addr.inject)
next
  case (NoAddr w)
  then show ?thesis using v by (simp add: prefix_IsValid_def)
qed

lemma word_Suc_not_0:
  fixes w :: "'a::len word"
  assumes "unat (w + of_nat (Suc i)) = unat w + Suc i"
  shows "w + of_nat i + 1 \<noteq> 0"
proof -
  have e: "w + of_nat i + 1 = w + of_nat (Suc i)" by (simp add: algebra_simps)
  show ?thesis unfolding e using assms by (metis add_Suc_right nat.distinct(1) unsigned_0)
qed

lemma Next_nth_addr:
  assumes v: "prefix_IsValid p" and m: "prefix_Masked p = p" and i: "Suc i < 2 ^ host_bits p"
  shows "Next (nth_addr (pAddr p) i) = nth_addr (pAddr p) (Suc i)"
proof (cases "pAddr p")
  case (Addr4 w)
  then have "push_bit (32 - nat (pBits p)) (drop_bit (32 - nat (pBits p)) w) = w" using masked_prefix [OF v m] by simp
  from word_Suc_not_0 [OF word_block(1) [OF this _, of "Suc i"]] show ?thesis
    using Addr4 i by (simp add: host_bits_def algebra_simps)
next
  case (Addr6 w)
  then have "push_bit (128 - nat (pBits p)) (drop_bit (128 - nat (pBits p)) w) = w" using masked_prefix [OF v m] by simp
  from word_Suc_not_0 [OF word_block(1) [OF this _, of "Suc i"]] show ?thesis
    using Addr6 i by (simp add: host_bits_def algebra_simps)
next
  case (NoAddr w)
  then show ?thesis using v by (simp add: prefix_IsValid_def)
qed

lemma Contains_valid: "prefix_Contains p a \<Longrightarrow> addr_IsValid a"
  by (cases "pAddr p"; cases a) (simp_all add: prefix_Contains_def)

lemma Contains_base: "prefix_IsValid p \<Longrightarrow> prefix_Contains p (pAddr p)"
  by (cases "pAddr p") (simp_all add: prefix_Contains_def prefix_IsValid_def)

lemma Next_Prev: "addr_IsValid a \<Longrightarrow> Next (Prev a) = a \<or> \<not> addr_IsValid (Next (Prev a))"
  by (cases a) auto

section \<open>Bytes and back\<close>

lemma word_be_take:
  fixes w :: "'a::len word"
  assumes "LENGTH('a) = 8 * n" "k \<le> n"
  shows "word_be (take k (bytes_be n w)) = drop_bit (8 * (n - k)) w"
  using assms(2)
proof (induction k)
  case 0
  have "drop_bit (8 * n) w = 0" using assms(1) by (intro bit_word_eqI) (simp add: bit_simps)
  then show ?case by (simp add: word_be_def)
next
  case (Suc k)
  have "take (Suc k) (bytes_be n w) = take k (bytes_be n w) @ [ucast (drop_bit (8 * (n - 1 - k)) w)]"
    using Suc.prems by (simp add: take_Suc_conv_app_nth bytes_be_def)
  then have "word_be (take (Suc k) (bytes_be n w)) =
      push_bit 8 (drop_bit (8 * (n - k)) w) OR ucast (ucast (drop_bit (8 * (n - 1 - k)) w) :: u8)"
    using Suc by (simp add: word_be_def)
  also have "\<dots> = drop_bit (8 * (n - Suc k)) w"
  proof (rule bit_word_eqI)
    fix j assume j: "j < LENGTH('a)"
    have e: "8 * (n - k) = 8 * (n - Suc k) + 8" using Suc.prems by simp
    show "bit (push_bit 8 (drop_bit (8 * (n - k)) w) OR ucast (ucast (drop_bit (8 * (n - 1 - k)) w) :: u8)) j =
        bit (drop_bit (8 * (n - Suc k)) w) j"
    proof (cases "j < 8")
      case True
      then show ?thesis using j by (simp add: bit_simps)
    next
      case False
      then have "8 * (n - k) + (j - 8) = 8 * (n - Suc k) + j" using e by simp
      then show ?thesis using False j by (simp add: bit_simps)
    qed
  qed
  finally show ?case .
qed

lemma AddrFromSlice_AsSlice: "addr_IsValid a \<Longrightarrow> AddrFromSlice (AsSlice a) = Some a"
proof (cases a)
  case (Addr4 w)
  then show ?thesis using word_be_take [where n = 4 and k = 4 and w = w] by (simp add: AddrFromSlice_def)
next
  case (Addr6 w)
  then show ?thesis using word_be_take [where n = 16 and k = 16 and w = w] by (simp add: AddrFromSlice_def)
qed simp

end
