(* ===== verification/Fakeip_Pool.thy ===== *)
theory Fakeip_Pool
  imports Netip_Range "HOL-Library.AList"
begin

text \<open>
  The persistent pool of fake addresses of \<^verbatim>\<open>pkg/net/dns/fakeip/sqlite.go\<close>. The state is the memory of
  \<^verbatim>\<open>SQLiteFakeIPPool\<close> together with the rows of the tables \<^verbatim>\<open>fakeip_entries\<close> and \<^verbatim>\<open>fakeip_cursors\<close> under the
  family and prefix of the pool, the only ones its statements read or write. A statement is a function on
  the rows; every statement may fail (\<open>db_ok\<close> says which ones succeed in a call), and a failing
  transaction is rolled back. Rows are listed in the order of insertion, which decides between rows with
  equal times. The time is a parameter; each operation is atomic.
\<close>

section \<open>State\<close>

record fakeip_entry =
  fe_domain :: string
  fe_ip :: bytes
  fe_created_at :: int
  fe_last_used_at :: int

record SQLiteFakeIPPool =
  fp_entries :: "fakeip_entry list"
  fp_cursor :: "(bytes \<times> u64) option"
  fp_current :: addr
  fp_prefix :: netip_prefix
  fp_index :: u64
  fp_maxNum :: u64
  fp_touchDomains :: "(string \<times> int) list"
  fp_touchIPs :: "(addr \<times> int) list"

text \<open>Which statements of one call succeed.\<close>

record db_ok =
  ok_lookup1 :: bool
  ok_delete1 :: bool
  ok_lookup2 :: bool
  ok_delete2 :: bool
  ok_begin :: bool
  ok_count :: bool
  ok_select :: bool
  ok_evict :: bool
  ok_exists :: "addr \<Rightarrow> bool"
  ok_clear :: bool
  ok_insert :: bool
  ok_cursor :: bool
  ok_commit :: bool

definition sqliteFakeIPTouchInterval :: int where
  "sqliteFakeIPTouchInterval = 5 * 60 * 1000000000"

section \<open>Opening\<close>

definition newFakeIPPool :: "netip_prefix \<Rightarrow> int \<Rightarrow> fakeip_entry list \<Rightarrow> (bytes \<times> u64) option \<Rightarrow> SQLiteFakeIPPool" where
  "newFakeIPPool pfx maxNum entries cursor =
     (let maxNum = (if maxNum \<le> 0 then 65536 else maxNum);
          pfx = prefix_Masked pfx;
          hostBits = int (BitLen (pAddr pfx)) - pBits pfx;
          maxNum = (if hostBits < 64 \<and> 2 ^ nat hostBits < maxNum then 2 ^ nat hostBits else maxNum)
      in \<lparr>fp_entries = entries, fp_cursor = cursor, fp_current = Prev (pAddr pfx), fp_prefix = pfx,
          fp_index = 0, fp_maxNum = of_int maxNum, fp_touchDomains = [], fp_touchIPs = []\<rparr>)"

definition loadCursor :: "SQLiteFakeIPPool \<Rightarrow> SQLiteFakeIPPool" where
  "loadCursor p =
     (case fp_cursor p of
        None \<Rightarrow> p
      | Some (ipBytes, idx) \<Rightarrow>
          (case AddrFromSlice ipBytes of
             Some ad \<Rightarrow> if prefix_Contains (fp_prefix p) ad then p\<lparr>fp_index := idx, fp_current := ad\<rparr> else p
           | None \<Rightarrow> p))"

definition newSQLiteFakeIPPool :: "netip_prefix \<Rightarrow> int \<Rightarrow> fakeip_entry list \<Rightarrow> (bytes \<times> u64) option \<Rightarrow> SQLiteFakeIPPool" where
  "newSQLiteFakeIPPool pfx maxNum entries cursor = loadCursor (newFakeIPPool pfx maxNum entries cursor)"

section \<open>Times of use\<close>

definition shouldTouch :: "int \<Rightarrow> int \<Rightarrow> bool" where
  "shouldTouch now lastUsedAt \<longleftrightarrow> sqliteFakeIPTouchInterval \<le> now - lastUsedAt"

definition touchDomain :: "string \<Rightarrow> int \<Rightarrow> int \<Rightarrow> SQLiteFakeIPPool \<Rightarrow> SQLiteFakeIPPool" where
  "touchDomain domain now lastUsedAt p =
     (if \<not> shouldTouch now lastUsedAt then p
      else p\<lparr>fp_touchDomains := AList.update domain now (fp_touchDomains p)\<rparr>)"

definition touchIP :: "addr \<Rightarrow> int \<Rightarrow> int \<Rightarrow> SQLiteFakeIPPool \<Rightarrow> SQLiteFakeIPPool" where
  "touchIP ip now lastUsedAt p =
     (if \<not> shouldTouch now lastUsedAt then p
      else p\<lparr>fp_touchIPs := AList.update ip now (fp_touchIPs p)\<rparr>)"

definition update_domain :: "string \<times> int \<Rightarrow> fakeip_entry list \<Rightarrow> fakeip_entry list" where
  "update_domain t rows = map (\<lambda>e. if fe_domain e = fst t then e\<lparr>fe_last_used_at := snd t\<rparr> else e) rows"

definition update_ip :: "addr \<times> int \<Rightarrow> fakeip_entry list \<Rightarrow> fakeip_entry list" where
  "update_ip t rows = map (\<lambda>e. if fe_ip e = AsSlice (fst t) then e\<lparr>fe_last_used_at := snd t\<rparr> else e) rows"

text \<open>\<open>ok\<close>: the transaction succeeds. The touches are forgotten either way.\<close>

definition flushTouches :: "bool \<Rightarrow> SQLiteFakeIPPool \<Rightarrow> SQLiteFakeIPPool" where
  "flushTouches ok p =
     (if fp_touchDomains p = [] \<and> fp_touchIPs p = [] then p
      else p\<lparr>fp_entries := (if ok then fold update_ip (fp_touchIPs p) (fold update_domain (fp_touchDomains p) (fp_entries p))
                             else fp_entries p),
             fp_touchDomains := [], fp_touchIPs := []\<rparr>)"

section \<open>Lookups\<close>

definition deleteDomain :: "bool \<Rightarrow> string \<Rightarrow> SQLiteFakeIPPool \<Rightarrow> SQLiteFakeIPPool" where
  "deleteDomain ok domain p = (if ok then p\<lparr>fp_entries := filter (\<lambda>e. fe_domain e \<noteq> domain) (fp_entries p)\<rparr> else p)"

definition getIP :: "bool \<Rightarrow> bool \<Rightarrow> string \<Rightarrow> int \<Rightarrow> SQLiteFakeIPPool \<Rightarrow> addr option \<times> SQLiteFakeIPPool" where
  "getIP lookup_ok delete_ok domain now p =
     (if \<not> lookup_ok then (None, p)
      else case find (\<lambda>e. fe_domain e = domain) (fp_entries p) of
          None \<Rightarrow> (None, p)
        | Some e \<Rightarrow>
            (case AddrFromSlice (fe_ip e) of
               Some ip \<Rightarrow>
                 if prefix_Contains (fp_prefix p) ip then (Some ip, touchDomain domain now (fe_last_used_at e) p)
                 else (None, deleteDomain delete_ok domain p)
             | None \<Rightarrow> (None, deleteDomain delete_ok domain p)))"

definition GetDomainFromIP :: "bool \<Rightarrow> int \<Rightarrow> addr \<Rightarrow> SQLiteFakeIPPool \<Rightarrow> (string \<times> bool) \<times> SQLiteFakeIPPool" where
  "GetDomainFromIP lookup_ok now ip p =
     (if \<not> prefix_Contains (fp_prefix p) ip then (([], False), p)
      else if \<not> lookup_ok then (([], False), p)
      else case find (\<lambda>e. fe_ip e = AsSlice ip) (fp_entries p) of
          None \<Rightarrow> (([], False), p)
        | Some e \<Rightarrow> ((fe_domain e, True), touchIP ip now (fe_last_used_at e) p))"

section \<open>Allocation\<close>

definition entryCount :: "SQLiteFakeIPPool \<Rightarrow> u64" where
  "entryCount p = of_nat (length (fp_entries p))"

text \<open>The first row in the order of \<^verbatim>\<open>last_used_at\<close> and \<^verbatim>\<open>created_at\<close>.\<close>

fun oldest :: "fakeip_entry list \<Rightarrow> fakeip_entry option" where
  "oldest [] = None"
| "oldest (e # es) =
     (case oldest es of
        None \<Rightarrow> Some e
      | Some m \<Rightarrow>
          if fe_last_used_at m < fe_last_used_at e \<or>
             fe_last_used_at m = fe_last_used_at e \<and> fe_created_at m < fe_created_at e then Some m else Some e)"

definition evictLRU :: "db_ok \<Rightarrow> SQLiteFakeIPPool \<Rightarrow> addr option \<times> SQLiteFakeIPPool" where
  "evictLRU ok p =
     (if \<not> ok_select ok then (None, p)
      else case oldest (fp_entries p) of
          None \<Rightarrow> (None, p)
        | Some e \<Rightarrow>
            (case AddrFromSlice (fe_ip e) of
               None \<Rightarrow> (None, p)
             | Some ad \<Rightarrow>
                 if \<not> prefix_Contains (fp_prefix p) ad then (None, p)
                 else if \<not> ok_evict ok then (None, p)
                 else (Some ad, deleteDomain True (fe_domain e) p)))"

definition rotateNext :: "SQLiteFakeIPPool \<Rightarrow> addr \<times> SQLiteFakeIPPool" where
  "rotateNext p =
     (let n = Next (fp_current p); p = p\<lparr>fp_index := fp_index p + 1\<rparr> in
      if \<not> prefix_Contains (fp_prefix p) n \<or> fp_maxNum p < fp_index p
      then (pAddr (fp_prefix p), p\<lparr>fp_current := pAddr (fp_prefix p), fp_index := 1\<rparr>)
      else (n, p\<lparr>fp_current := n\<rparr>))"

definition ipExists :: "db_ok \<Rightarrow> addr \<Rightarrow> SQLiteFakeIPPool \<Rightarrow> bool" where
  "ipExists ok ad p \<longleftrightarrow> ok_exists ok ad \<and> (\<exists>e \<in> set (fp_entries p). fe_ip e = AsSlice ad)"

fun next_loop :: "db_ok \<Rightarrow> nat \<Rightarrow> SQLiteFakeIPPool \<Rightarrow> addr option \<times> SQLiteFakeIPPool" where
  "next_loop ok 0 p = evictLRU ok p"
| "next_loop ok (Suc n) p =
     (case rotateNext p of (ad, p) \<Rightarrow> if \<not> ipExists ok ad p then (Some ad, p) else next_loop ok n p)"

definition nextAvailable :: "db_ok \<Rightarrow> SQLiteFakeIPPool \<Rightarrow> addr option \<times> SQLiteFakeIPPool" where
  "nextAvailable ok p = next_loop ok (if fp_maxNum p = 0 then 1 else unat (fp_maxNum p)) p"

text \<open>\<^verbatim>\<open>INSERT ... ON CONFLICT DO UPDATE\<close>: the row of the domain is updated in place or a new row is added.\<close>

definition upsert_entry :: "string \<Rightarrow> bytes \<Rightarrow> int \<Rightarrow> fakeip_entry list \<Rightarrow> fakeip_entry list" where
  "upsert_entry domain ip now rows =
     (if domain \<in> fe_domain ` set rows
      then map (\<lambda>e. if fe_domain e = domain then e\<lparr>fe_ip := ip, fe_last_used_at := now\<rparr> else e) rows
      else rows @ [\<lparr>fe_domain = domain, fe_ip = ip, fe_created_at = now, fe_last_used_at = now\<rparr>])"

definition storeEntry :: "db_ok \<Rightarrow> string \<Rightarrow> addr \<Rightarrow> int \<Rightarrow> SQLiteFakeIPPool \<Rightarrow> SQLiteFakeIPPool option" where
  "storeEntry ok domain ad now p =
     (if \<not> ok_clear ok \<or> \<not> ok_insert ok then None
      else Some (p\<lparr>fp_entries := upsert_entry domain (AsSlice ad) now
                     (filter (\<lambda>e. \<not> (fe_ip e = AsSlice ad \<and> fe_domain e \<noteq> domain)) (fp_entries p))\<rparr>))"

definition saveCursor :: "db_ok \<Rightarrow> SQLiteFakeIPPool \<Rightarrow> SQLiteFakeIPPool option" where
  "saveCursor ok p = (if ok_cursor ok then Some (p\<lparr>fp_cursor := Some (AsSlice (fp_current p), fp_index p)\<rparr>) else None)"

text \<open>A rollback restores the rows, not the cursor in memory.\<close>

definition rollback :: "SQLiteFakeIPPool \<Rightarrow> SQLiteFakeIPPool \<Rightarrow> SQLiteFakeIPPool" where
  "rollback old p = p\<lparr>fp_entries := fp_entries old, fp_cursor := fp_cursor old\<rparr>"

definition allocate :: "db_ok \<Rightarrow> string \<Rightarrow> int \<Rightarrow> SQLiteFakeIPPool \<Rightarrow> addr option \<times> SQLiteFakeIPPool" where
  "allocate ok domain now p =
     (if \<not> ok_begin ok \<or> \<not> ok_count ok then (None, p)
      else case (if fp_maxNum p \<le> entryCount p then evictLRU ok p else nextAvailable ok p) of
          (None, q) \<Rightarrow> (None, rollback p q)
        | (Some ad, q) \<Rightarrow>
            (case Option.bind (storeEntry ok domain ad now q) (saveCursor ok) of
               None \<Rightarrow> (None, rollback p q)
             | Some r \<Rightarrow> if ok_commit ok then (Some ad, r) else (None, rollback p r)))"

text \<open>\<open>now1\<close> and \<open>now2\<close> are the times before and after the lock is taken.\<close>

definition GetFakeIPForDomain :: "db_ok \<Rightarrow> int \<Rightarrow> int \<Rightarrow> string \<Rightarrow> SQLiteFakeIPPool \<Rightarrow> addr \<times> SQLiteFakeIPPool" where
  "GetFakeIPForDomain ok now1 now2 domain p =
     (case getIP (ok_lookup1 ok) (ok_delete1 ok) domain now1 p of
        (Some ip, p) \<Rightarrow> (ip, p)
      | (None, p) \<Rightarrow>
          (case getIP (ok_lookup2 ok) (ok_delete2 ok) domain now2 p of
             (Some ip, p) \<Rightarrow> (ip, p)
           | (None, p) \<Rightarrow>
               (case allocate ok domain now2 p of
                  (Some ip, p) \<Rightarrow> (ip, p)
                | (None, p) \<Rightarrow> (NoAddr 0, p))))"

section \<open>The invariant\<close>

abbreviation fp_base :: "SQLiteFakeIPPool \<Rightarrow> addr" where
  "fp_base p \<equiv> pAddr (fp_prefix p)"

abbreviation fp_num :: "SQLiteFakeIPPool \<Rightarrow> nat" where
  "fp_num p \<equiv> unat (fp_maxNum p)"

text \<open>Where the rotation stands: before the first address, or at the address of its index.\<close>

definition cursor_ok :: "SQLiteFakeIPPool \<Rightarrow> addr \<Rightarrow> u64 \<Rightarrow> bool" where
  "cursor_ok p cur idx \<longleftrightarrow> 0 < unat idx \<and> unat idx \<le> fp_num p \<and> cur = nth_addr (fp_base p) (unat idx - 1)"

definition pool_wf :: "SQLiteFakeIPPool \<Rightarrow> bool" where
  "pool_wf p \<longleftrightarrow> prefix_IsValid (fp_prefix p) \<and> prefix_Masked (fp_prefix p) = fp_prefix p \<and>
     0 < fp_num p \<and> fp_num p \<le> 2 ^ host_bits (fp_prefix p) \<and> fp_num p < 2 ^ 63"

definition entries_ok :: "netip_prefix \<Rightarrow> nat \<Rightarrow> fakeip_entry list \<Rightarrow> bool" where
  "entries_ok pfx n es \<longleftrightarrow> distinct (map fe_domain es) \<and> distinct (map fe_ip es) \<and> length es \<le> n \<and>
     (\<forall>ip \<in> set (map fe_ip es). \<exists>a. ip = AsSlice a \<and> prefix_Contains pfx a)"

definition pool_inv :: "SQLiteFakeIPPool \<Rightarrow> bool" where
  "pool_inv p \<longleftrightarrow> pool_wf p \<and> entries_ok (fp_prefix p) (fp_num p) (fp_entries p) \<and>
     (fp_index p = 0 \<and> fp_current p = Prev (fp_base p) \<and> fp_entries p = [] \<or> cursor_ok p (fp_current p) (fp_index p)) \<and>
     (case fp_cursor p of None \<Rightarrow> fp_entries p = [] | Some (b, idx) \<Rightarrow> \<exists>a. b = AsSlice a \<and> cursor_ok p a idx)"

text \<open>The pool with its rotation at position \<open>j\<close>.\<close>

definition at_slot :: "nat \<Rightarrow> SQLiteFakeIPPool \<Rightarrow> SQLiteFakeIPPool" where
  "at_slot j p = p\<lparr>fp_current := nth_addr (fp_base p) j, fp_index := of_nat (Suc j)\<rparr>"

lemma at_slot_simps [simp]:
  "fp_prefix (at_slot j p) = fp_prefix p" "fp_maxNum (at_slot j p) = fp_maxNum p" "fp_entries (at_slot j p) = fp_entries p"
  "fp_cursor (at_slot j p) = fp_cursor p" "at_slot i (at_slot j p) = at_slot i p" "ipExists ok ad (at_slot j p) = ipExists ok ad p"
  "fp_current (at_slot j p) = nth_addr (fp_base p) j" "fp_index (at_slot j p) = of_nat (Suc j)"
  by (simp_all add: at_slot_def ipExists_def)

lemma slot_unat: "pool_wf p \<Longrightarrow> j < fp_num p \<Longrightarrow> unat (of_nat (Suc j) :: u64) = Suc j"
  by (simp only: unat_of_nat pool_wf_def) (rule mod_less, simp)

lemma slot_cursor_ok: "pool_wf p \<Longrightarrow> j < fp_num p \<Longrightarrow> cursor_ok p (nth_addr (fp_base p) j) (of_nat (Suc j))"
  using slot_unat [of p j] by (simp add: cursor_ok_def del: of_nat_Suc)

lemma slot_Contains: "pool_wf p \<Longrightarrow> j < fp_num p \<Longrightarrow> prefix_Contains (fp_prefix p) (nth_addr (fp_base p) j)"
  by (rule nth_addr_Contains) (simp_all add: pool_wf_def)

lemma Contains_slice: "prefix_Contains pfx a \<Longrightarrow> AddrFromSlice (AsSlice a) = Some a"
  by (rule AddrFromSlice_AsSlice) (rule Contains_valid)

lemma AsSlice_eq: "prefix_Contains pfx a \<Longrightarrow> prefix_Contains pfx b \<Longrightarrow> AsSlice a = AsSlice b \<longleftrightarrow> a = b"
  by (metis Contains_slice option.inject)

section \<open>The rotation\<close>

lemma rotateNext_slot:
  assumes w: "pool_wf p" and c: "fp_index p = 0 \<and> fp_current p = Prev (fp_base p) \<or> cursor_ok p (fp_current p) (fp_index p)"
  shows "rotateNext p = (nth_addr (fp_base p) (unat (fp_index p) mod fp_num p), at_slot (unat (fp_index p) mod fp_num p) p)"
  using c
proof
  assume a: "fp_index p = 0 \<and> fp_current p = Prev (fp_base p)"
  have v: "addr_IsValid (fp_base p)" and m: "\<not> fp_maxNum p < 1" using w by (auto simp: pool_wf_def prefix_IsValid_def word_less_nat_alt)
  then have "\<not> prefix_Contains (fp_prefix p) (Next (Prev (fp_base p))) \<or> Next (Prev (fp_base p)) = fp_base p"
    using Next_Prev Contains_valid by blast
  then show ?thesis using a m by (auto simp: rotateNext_def at_slot_def Let_def)
next
  assume c: "cursor_ok p (fp_current p) (fp_index p)"
  let ?k = "unat (fp_index p)"
  have k: "0 < ?k" "?k \<le> fp_num p" "fp_current p = nth_addr (fp_base p) (?k - 1)" using c by (auto simp: cursor_ok_def)
  have u: "unat (fp_index p + 1) = Suc ?k" using k w by (simp add: unat_word_ariths(1) pool_wf_def)
  show ?thesis
  proof (cases "?k = fp_num p")
    case True
    then have "fp_maxNum p < fp_index p + 1" using u by (simp add: word_less_nat_alt)
    then show ?thesis using True by (simp add: rotateNext_def at_slot_def Let_def)
  next
    case False
    then have l: "?k < fp_num p" using k by simp
    have "Next (fp_current p) = nth_addr (fp_base p) ?k"
      using Next_nth_addr [of "fp_prefix p" "?k - 1"] k l w by (simp add: pool_wf_def)
    moreover have "\<not> fp_maxNum p < fp_index p + 1" using u l by (simp add: word_less_nat_alt)
    moreover have "fp_index p + 1 = of_nat (Suc ?k)" using u by (metis of_nat_unat ucast_id)
    ultimately show ?thesis using slot_Contains [OF w l] l by (simp add: rotateNext_def at_slot_def Let_def del: of_nat_Suc)
  qed
qed

lemma at_slot_ok: "pool_wf p \<Longrightarrow> j < fp_num p \<Longrightarrow> cursor_ok (at_slot j p) (fp_current (at_slot j p)) (fp_index (at_slot j p))"
  using slot_cursor_ok [of p j] by (simp add: cursor_ok_def del: of_nat_Suc)

lemma pool_wf_at_slot [simp]: "pool_wf (at_slot j p) = pool_wf p"
  by (simp add: pool_wf_def)

text \<open>The search for a free address stops at the first free one of the rotation, or after a whole turn.\<close>

lemma next_loop_slot:
  assumes "pool_wf p" "fp_index p = 0 \<and> fp_current p = Prev (fp_base p) \<or> cursor_ok p (fp_current p) (fp_index p)" "0 < n"
  shows "\<exists>j < fp_num p.
    (next_loop ok n p = (Some (nth_addr (fp_base p) j), at_slot j p) \<and> \<not> ipExists ok (nth_addr (fp_base p) j) p) \<or>
    (next_loop ok n p = evictLRU ok (at_slot j p) \<and>
       (\<forall>i < n. ipExists ok (nth_addr (fp_base p) ((unat (fp_index p) + i) mod fp_num p)) p))"
  using assms
proof (induction n arbitrary: p)
  case (Suc n)
  let ?j = "unat (fp_index p) mod fp_num p" and ?m = "fp_num p"
  have j: "?j < ?m" using Suc.prems(1) by (simp add: pool_wf_def)
  note rot = rotateNext_slot [OF Suc.prems(1,2)]
  show ?case
  proof (cases "ipExists ok (nth_addr (fp_base p) ?j) p")
    case False
    then show ?thesis using j rot by (intro exI [of _ ?j]) simp
  next
    case ex: True
    then have step: "next_loop ok (Suc n) p = next_loop ok n (at_slot ?j p)" using rot by simp
    show ?thesis
    proof (cases "n = 0")
      case True
      then show ?thesis using j ex step by (intro exI [of _ ?j]) simp
    next
      case False
      have u: "unat (fp_index (at_slot ?j p)) = Suc ?j" using slot_unat [OF Suc.prems(1) j] by (simp del: of_nat_Suc)
      have e: "(Suc ?j + i) mod ?m = (unat (fp_index p) + Suc i) mod ?m" for i
        by (metis add.commute add_Suc_shift mod_add_left_eq)
      have all: "\<forall>i < Suc n. ipExists ok (nth_addr (fp_base p) ((unat (fp_index p) + i) mod ?m)) p"
        if "\<forall>i < n. ipExists ok (nth_addr (fp_base p) ((Suc ?j + i) mod ?m)) p"
        using that ex e by (metis add.right_neutral less_Suc_eq_0_disj)
      from Suc.IH [of "at_slot ?j p"] Suc.prems(1) at_slot_ok [OF Suc.prems(1) j] False
      obtain l where "l < ?m"
        "(next_loop ok n (at_slot ?j p) = (Some (nth_addr (fp_base p) l), at_slot l p) \<and> \<not> ipExists ok (nth_addr (fp_base p) l) p) \<or>
         (next_loop ok n (at_slot ?j p) = evictLRU ok (at_slot l p) \<and>
           (\<forall>i < n. ipExists ok (nth_addr (fp_base p) ((Suc ?j + i) mod ?m)) p))"
        unfolding u by (auto simp del: at_slot_simps(8))
      then show ?thesis using all step by (intro exI [of _ l]) auto
    qed
  qed
qed simp

section \<open>Rows\<close>

lemma entries_ok_filter: "entries_ok pfx n es \<Longrightarrow> entries_ok pfx n (filter P es)"
  by (auto simp: entries_ok_def distinct_map_filter intro: le_trans [OF length_filter_le])

lemma entries_ok_map:
  assumes "entries_ok pfx n es" "\<And>e. fe_domain (f e) = fe_domain e" "\<And>e. fe_ip (f e) = fe_ip e"
  shows "entries_ok pfx n (map f es)"
  using assms by (simp add: entries_ok_def o_def)

lemma update_keeps [simp]:
  "map fe_domain (update_domain t es) = map fe_domain es" "map fe_ip (update_domain t es) = map fe_ip es"
  "map fe_domain (update_ip u es) = map fe_domain es" "map fe_ip (update_ip u es) = map fe_ip es"
  by (simp_all add: update_domain_def update_ip_def)

lemma fold_update_keeps [simp]:
  "map fe_domain (fold update_domain ts es) = map fe_domain es" "map fe_ip (fold update_domain ts es) = map fe_ip es"
  "map fe_domain (fold update_ip us es) = map fe_domain es" "map fe_ip (fold update_ip us es) = map fe_ip es"
proof -
  show "map fe_domain (fold update_domain ts es) = map fe_domain es" "map fe_ip (fold update_domain ts es) = map fe_ip es"
    by (induction ts arbitrary: es) simp_all
  show "map fe_domain (fold update_ip us es) = map fe_domain es" "map fe_ip (fold update_ip us es) = map fe_ip es"
    by (induction us arbitrary: es) simp_all
qed

lemma entries_ok_cong:
  "map fe_domain es = map fe_domain es' \<Longrightarrow> map fe_ip es = map fe_ip es' \<Longrightarrow> entries_ok pfx n es = entries_ok pfx n es'"
  unfolding entries_ok_def by (simp only: map_eq_imp_length_eq [of fe_ip es fe_ip es'])

lemma entries_ok_upsert:
  assumes e: "entries_ok pfx n es" and a: "prefix_Contains pfx a"
    and u: "\<And>e. e \<in> set es \<Longrightarrow> fe_ip e = AsSlice a \<Longrightarrow> fe_domain e = d" and l: "length es < n"
  shows "entries_ok pfx n (upsert_entry d (AsSlice a) now es)"
proof (cases "d \<in> fe_domain ` set es")
  case True
  let ?f = "\<lambda>e. if fe_domain e = d then e\<lparr>fe_ip := AsSlice a, fe_last_used_at := now\<rparr> else e"
  have dom: "distinct (map fe_domain es)" and ip: "distinct (map fe_ip es)" using e by (auto simp: entries_ok_def)
  have "inj_on (\<lambda>e. fe_ip (?f e)) (set es)"
    using u ip dom by (auto simp: inj_on_def distinct_map)
  then have "distinct (map fe_ip (map ?f es))" using dom by (simp add: distinct_map o_def)
  moreover have "map fe_domain (map ?f es) = map fe_domain es" by simp
  moreover have "\<forall>ip \<in> set (map fe_ip (map ?f es)). \<exists>a. ip = AsSlice a \<and> prefix_Contains pfx a" using e a by (auto simp: entries_ok_def)
  moreover have "upsert_entry d (AsSlice a) now es = map ?f es" using True by (simp add: upsert_entry_def)
  ultimately show ?thesis using dom less_imp_le [OF l] unfolding entries_ok_def by (intro conjI) (simp_all only: length_map)
next
  case False
  then have "AsSlice a \<notin> fe_ip ` set es" using u by (metis image_iff)
  then show ?thesis using False e a l by (auto simp: upsert_entry_def entries_ok_def)
qed

lemma upsert_entry_has: "\<exists>e \<in> set (upsert_entry d ip now es). fe_domain e = d \<and> fe_ip e = ip"
proof (cases "d \<in> fe_domain ` set es")
  case True
  then obtain e where "e \<in> set es" "fe_domain e = d" by blast
  then have "e\<lparr>fe_ip := ip, fe_last_used_at := now\<rparr> \<in> set (upsert_entry d ip now es)"
    using True by (auto simp: upsert_entry_def intro!: image_eqI [of _ _ e])
  then show ?thesis using \<open>fe_domain e = d\<close> by (intro bexI) auto
qed (auto simp: upsert_entry_def)

lemma oldest_in: "oldest es = Some e \<Longrightarrow> e \<in> set es"
  by (induction es arbitrary: e) (auto split: option.splits if_splits)

lemma oldest_None [simp]: "oldest es = None \<longleftrightarrow> es = []"
  by (cases es) (auto split: option.splits)

section \<open>Allocation keeps the invariant\<close>

lemma length_drop_domain:
  "distinct (map fe_domain es) \<Longrightarrow> e \<in> set es \<Longrightarrow> length (filter (\<lambda>x. fe_domain x \<noteq> fe_domain e) es) < length es"
  by (rule length_filter_less [of e]) simp_all

lemma evictLRU_cases:
  assumes "entries_ok (fp_prefix p) (fp_num p) (fp_entries p)"
  shows "evictLRU ok p = (None, p) \<or>
    (\<exists>e a. oldest (fp_entries p) = Some e \<and> fe_ip e = AsSlice a \<and> prefix_Contains (fp_prefix p) a \<and>
      evictLRU ok p = (Some a, p\<lparr>fp_entries := filter (\<lambda>x. fe_domain x \<noteq> fe_domain e) (fp_entries p)\<rparr>))"
proof (cases "oldest (fp_entries p)")
  case (Some e)
  then have "fe_ip e \<in> set (map fe_ip (fp_entries p))" using oldest_in by force
  then obtain a where "fe_ip e = AsSlice a" "prefix_Contains (fp_prefix p) a" using assms unfolding entries_ok_def by blast
  then show ?thesis using Some Contains_slice [of "fp_prefix p" a] by (auto simp: evictLRU_def deleteDomain_def)
qed (simp add: evictLRU_def)

lemma pool_inv_wf: "pool_inv p \<Longrightarrow> pool_wf p"
  by (simp add: pool_inv_def)

lemma pool_inv_rot:
  "pool_inv p \<Longrightarrow> fp_index p = 0 \<and> fp_current p = Prev (fp_base p) \<or> cursor_ok p (fp_current p) (fp_index p)"
  by (auto simp: pool_inv_def)

lemma entryCount_full: "pool_inv p \<Longrightarrow> fp_maxNum p \<le> entryCount p \<longleftrightarrow> length (fp_entries p) = fp_num p"
proof -
  assume "pool_inv p"
  then have l: "length (fp_entries p) \<le> fp_num p" "fp_num p < 2 ^ 63" by (auto simp: pool_inv_def entries_ok_def pool_wf_def)
  then have "unat (entryCount p) = length (fp_entries p)" unfolding entryCount_def by (simp only: unat_of_nat) (rule mod_less, simp)
  then show ?thesis using l by (auto simp: word_le_nat_alt)
qed

text \<open>The choice of an address: the rows it leaves, with room for one more, and where the rotation stands.\<close>

definition pick :: "db_ok \<Rightarrow> SQLiteFakeIPPool \<Rightarrow> addr option \<times> SQLiteFakeIPPool" where
  "pick ok p = (if fp_maxNum p \<le> entryCount p then evictLRU ok p else nextAvailable ok p)"

lemma evict_picks:
  assumes "entries_ok (fp_prefix p) (fp_num p) (fp_entries p)" "fp_entries p' = fp_entries p" "fp_prefix p' = fp_prefix p" "fp_maxNum p' = fp_maxNum p"
  shows "evictLRU ok p' = (None, p') \<or>
    (\<exists>a P. evictLRU ok p' = (Some a, p'\<lparr>fp_entries := filter P (fp_entries p)\<rparr>) \<and> prefix_Contains (fp_prefix p) a \<and>
      length (filter P (fp_entries p)) < fp_num p \<and> fp_entries p \<noteq> [])"
proof -
  have l: "length (fp_entries p) \<le> fp_num p" and d: "distinct (map fe_domain (fp_entries p))" using assms(1) by (auto simp: entries_ok_def)
  have "entries_ok (fp_prefix p') (fp_num p') (fp_entries p')" using assms by simp
  from evictLRU_cases [OF this, of ok] show ?thesis
  proof (elim disjE)
    assume "\<exists>e a. oldest (fp_entries p') = Some e \<and> fe_ip e = AsSlice a \<and> prefix_Contains (fp_prefix p') a \<and>
      evictLRU ok p' = (Some a, p'\<lparr>fp_entries := filter (\<lambda>x. fe_domain x \<noteq> fe_domain e) (fp_entries p')\<rparr>)"
    then obtain e a where e: "oldest (fp_entries p) = Some e" "prefix_Contains (fp_prefix p) a"
      "evictLRU ok p' = (Some a, p'\<lparr>fp_entries := filter (\<lambda>x. fe_domain x \<noteq> fe_domain e) (fp_entries p)\<rparr>)" using assms by auto
    have "length (filter (\<lambda>x. fe_domain x \<noteq> fe_domain e) (fp_entries p)) < fp_num p"
      using length_drop_domain [OF d oldest_in [OF e(1)]] l by simp
    then show ?thesis using e oldest_in [OF e(1)] by fastforce
  qed (use assms in simp_all)
qed

lemma pick_cases:
  assumes i: "pool_inv p"
  shows "\<exists>p'. (p' = p \<or> (\<exists>j < fp_num p. p' = at_slot j p)) \<and>
    (pick ok p = (None, p') \<or>
     (\<exists>a P. pick ok p = (Some a, p'\<lparr>fp_entries := filter P (fp_entries p)\<rparr>) \<and> prefix_Contains (fp_prefix p) a \<and>
       length (filter P (fp_entries p)) < fp_num p \<and> (fp_entries p \<noteq> [] \<or> (\<exists>j < fp_num p. p' = at_slot j p))))"
proof (cases "fp_maxNum p \<le> entryCount p")
  case True
  then show ?thesis using evict_picks [of p p ok] i unfolding pick_def pool_inv_def by auto
next
  case False
  then have l: "length (fp_entries p) < fp_num p" using entryCount_full [OF i] i by (auto simp: pool_inv_def entries_ok_def)
  then have n: "nextAvailable ok p = next_loop ok (fp_num p) p" by (auto simp: nextAvailable_def)
  obtain j where j: "j < fp_num p" "next_loop ok (fp_num p) p = (Some (nth_addr (fp_base p) j), at_slot j p) \<or>
      next_loop ok (fp_num p) p = evictLRU ok (at_slot j p)"
    using next_loop_slot [OF pool_inv_wf [OF i] pool_inv_rot [OF i], of "fp_num p" ok] l by auto
  have e: "entries_ok (fp_prefix p) (fp_num p) (fp_entries p)" using i by (simp add: pool_inv_def)
  from j(2) show ?thesis
  proof
    assume f: "next_loop ok (fp_num p) p = (Some (nth_addr (fp_base p) j), at_slot j p)"
    have "at_slot j p = (at_slot j p)\<lparr>fp_entries := filter (\<lambda>_. True) (fp_entries p)\<rparr>" by (simp add: at_slot_def)
    then show ?thesis using False l n f j(1) slot_Contains [OF pool_inv_wf [OF i] j(1)]
      by (intro exI [of _ "at_slot j p"] conjI disjI2 exI [of _ "nth_addr (fp_base p) j"] exI [of _ "\<lambda>_. True"])
        (auto simp: pick_def)
  next
    assume f: "next_loop ok (fp_num p) p = evictLRU ok (at_slot j p)"
    from evict_picks [OF e, of "at_slot j p" ok] show ?thesis
      using False n f j(1) by (intro exI [of _ "at_slot j p"]) (auto simp: pick_def)
  qed
qed

lemma cursor_ok_cong: "fp_prefix p = fp_prefix q \<Longrightarrow> fp_maxNum p = fp_maxNum q \<Longrightarrow> cursor_ok p a i = cursor_ok q a i"
  by (simp add: cursor_ok_def)

lemma pool_inv_slot: "pool_inv p \<Longrightarrow> j < fp_num p \<Longrightarrow> pool_inv (at_slot j p)"
  using slot_cursor_ok [OF pool_inv_wf, of p j]
  by (auto simp: pool_inv_def cursor_ok_cong [of "at_slot j p" p] simp del: of_nat_Suc split: option.splits)

lemma rollback_slot [simp]: "rollback p (at_slot j p) = at_slot j p" "rollback p p = p"
  "rollback p (q\<lparr>fp_entries := es\<rparr>) = rollback p q" "rollback p (q\<lparr>fp_cursor := c\<rparr>) = rollback p q"
  by (simp_all add: rollback_def at_slot_def)

lemma allocate_pick:
  "allocate ok d now p =
     (if \<not> ok_begin ok \<or> \<not> ok_count ok then (None, p)
      else case pick ok p of
          (None, q) \<Rightarrow> (None, rollback p q)
        | (Some a, q) \<Rightarrow>
            if ok_clear ok \<and> ok_insert ok \<and> ok_cursor ok \<and> ok_commit ok
            then (Some a, q\<lparr>fp_entries := upsert_entry d (AsSlice a) now (filter (\<lambda>e. \<not> (fe_ip e = AsSlice a \<and> fe_domain e \<noteq> d)) (fp_entries q)),
                            fp_cursor := Some (AsSlice (fp_current q), fp_index q)\<rparr>)
            else (None, rollback p q))"
  unfolding allocate_def pick_def [symmetric]
  by (cases "pick ok p"; cases "fst (pick ok p)") (auto simp: storeEntry_def saveCursor_def)

text \<open>What a call of \<^verbatim>\<open>allocate\<close> does: nothing but moving the rotation, or a row for the domain.\<close>

lemma allocate_ok:
  assumes i: "pool_inv p" and r: "allocate ok d now p = (r, q)"
  shows "pool_inv q \<and> fp_prefix q = fp_prefix p \<and> fp_maxNum q = fp_maxNum p \<and>
    (case r of None \<Rightarrow> fp_entries q = fp_entries p
     | Some a \<Rightarrow> prefix_Contains (fp_prefix p) a \<and> (\<exists>e \<in> set (fp_entries q). fe_domain e = d \<and> fe_ip e = AsSlice a))"
proof -
  obtain p' where p': "p' = p \<or> (\<exists>j < fp_num p. p' = at_slot j p)" and c:
    "pick ok p = (None, p') \<or>
     (\<exists>a P. pick ok p = (Some a, p'\<lparr>fp_entries := filter P (fp_entries p)\<rparr>) \<and> prefix_Contains (fp_prefix p) a \<and>
       length (filter P (fp_entries p)) < fp_num p \<and> (fp_entries p \<noteq> [] \<or> (\<exists>j < fp_num p. p' = at_slot j p)))"
    using pick_cases [OF i, of ok] by blast
  have i': "pool_inv p'" "rollback p p' = p'" "fp_prefix p' = fp_prefix p" "fp_maxNum p' = fp_maxNum p"
    "fp_entries p' = fp_entries p" "fp_cursor p' = fp_cursor p"
    using p' i pool_inv_slot by auto
  show ?thesis
  proof (cases "\<exists>a q'. pick ok p = (Some a, q') \<and> ok_begin ok \<and> ok_count ok \<and> ok_clear ok \<and> ok_insert ok \<and> ok_cursor ok \<and> ok_commit ok")
    case False
    then have "r = None \<and> (q = p \<or> q = p')" using r c i'(2) by (auto simp: allocate_pick split: if_splits)
    then show ?thesis using i i' by auto
  next
    case True
    then obtain a P where a: "pick ok p = (Some a, p'\<lparr>fp_entries := filter P (fp_entries p)\<rparr>)" "prefix_Contains (fp_prefix p) a"
      "length (filter P (fp_entries p)) < fp_num p" "fp_entries p \<noteq> [] \<or> (\<exists>j < fp_num p. p' = at_slot j p)"
      using c by auto
    let ?fs = "filter (\<lambda>e. \<not> (fe_ip e = AsSlice a \<and> fe_domain e \<noteq> d)) (filter P (fp_entries p))"
    let ?es = "upsert_entry d (AsSlice a) now ?fs"
    have r': "r = Some a" and q: "q = p'\<lparr>fp_entries := ?es, fp_cursor := Some (AsSlice (fp_current p'), fp_index p')\<rparr>"
      using True a(1) r by (auto simp: allocate_pick)
    have "entries_ok (fp_prefix p) (fp_num p) ?fs" using i by (intro entries_ok_filter) (simp add: pool_inv_def)
    moreover have "length ?fs < fp_num p" using a(3) length_filter_le le_less_trans by blast
    ultimately have e: "entries_ok (fp_prefix p) (fp_num p) ?es" using a(2) by (intro entries_ok_upsert) auto
    have cur: "cursor_ok p' (fp_current p') (fp_index p')"
    proof (cases "\<exists>j < fp_num p. p' = at_slot j p")
      case True
      then show ?thesis using at_slot_ok [OF pool_inv_wf [OF i]] by blast
    next
      case False
      then show ?thesis using a(4) i p' by (auto simp: pool_inv_def)
    qed
    then have "cursor_ok q (fp_current p') (fp_index p')" using cursor_ok_cong [of q p'] q by simp
    then have "pool_inv q" using q e i' cur by (auto simp: pool_inv_def pool_wf_def)
    then show ?thesis using r' q a(2) upsert_entry_has [of d "AsSlice a" now ?fs] i' by auto
  qed
qed

section \<open>The other operations\<close>

lemma entry_address:
  assumes "entries_ok pfx n es" "e \<in> set es"
  obtains a where "fe_ip e = AsSlice a" "prefix_Contains pfx a" "AddrFromSlice (fe_ip e) = Some a"
proof -
  have "fe_ip e \<in> set (map fe_ip es)" using assms(2) by simp
  then obtain a where "fe_ip e = AsSlice a" "prefix_Contains pfx a" using assms(1) unfolding entries_ok_def by blast
  then show thesis using that Contains_slice [of pfx a] by simp
qed

lemma find_domain:
  assumes "entries_ok pfx n es" "e \<in> set es"
  shows "find (\<lambda>x. fe_domain x = fe_domain e) es = Some e" "find (\<lambda>x. fe_ip x = fe_ip e) es = Some e"
proof -
  have "\<And>x. x \<in> set es \<Longrightarrow> fe_domain x = fe_domain e \<Longrightarrow> x = e" "\<And>x. x \<in> set es \<Longrightarrow> fe_ip x = fe_ip e \<Longrightarrow> x = e"
    using assms by (auto simp: entries_ok_def distinct_map inj_on_def)
  moreover have "find P es = Some e" if "P e" "\<And>x. x \<in> set es \<Longrightarrow> P x \<Longrightarrow> x = e" for P
    using that assms(2) by (metis (mono_tags, lifting) find_None_iff find_Some_iff nth_mem option.exhaust)
  ultimately show "find (\<lambda>x. fe_domain x = fe_domain e) es = Some e" "find (\<lambda>x. fe_ip x = fe_ip e) es = Some e" by auto
qed

text \<open>What of a pool the touches leave alone.\<close>

definition same_pool :: "SQLiteFakeIPPool \<Rightarrow> SQLiteFakeIPPool \<Rightarrow> bool" where
  "same_pool p q \<longleftrightarrow> fp_entries p = fp_entries q \<and> fp_cursor p = fp_cursor q \<and> fp_current p = fp_current q \<and>
     fp_prefix p = fp_prefix q \<and> fp_index p = fp_index q \<and> fp_maxNum p = fp_maxNum q"

lemma same_pool_touch [simp]: "same_pool p (touchDomain d now t p)" "same_pool p (touchIP a now t p)" "same_pool p p"
  by (simp_all add: same_pool_def touchDomain_def touchIP_def)

lemma pool_inv_same: "same_pool p q \<Longrightarrow> pool_inv q = pool_inv p"
  by (cases "fp_cursor q") (auto simp: same_pool_def pool_inv_def pool_wf_def cursor_ok_def)

lemma getIP_found:
  assumes i: "pool_inv p"
  shows "getIP lo de d now p = (None, p) \<and> (\<not> lo \<or> d \<notin> fe_domain ` set (fp_entries p)) \<or>
    (\<exists>a e q. getIP lo de d now p = (Some a, q) \<and> same_pool p q \<and> e \<in> set (fp_entries p) \<and> fe_domain e = d \<and>
      fe_ip e = AsSlice a \<and> prefix_Contains (fp_prefix p) a \<and> lo)"
proof (cases "lo \<and> d \<in> fe_domain ` set (fp_entries p)")
  case True
  then obtain e where e: "e \<in> set (fp_entries p)" "fe_domain e = d" by blast
  have eo: "entries_ok (fp_prefix p) (fp_num p) (fp_entries p)" using i by (simp add: pool_inv_def)
  obtain a where a: "fe_ip e = AsSlice a" "prefix_Contains (fp_prefix p) a" "AddrFromSlice (fe_ip e) = Some a"
    using entry_address [OF eo e(1)] by blast
  have "getIP lo de d now p = (Some a, touchDomain d now (fe_last_used_at e) p)"
    using True find_domain(1) [OF eo e(1)] e(2) a by (simp add: getIP_def)
  then show ?thesis using True e a by auto
next
  case False
  then show ?thesis by (auto simp: getIP_def find_None_iff split: option.splits dest: find_Some_iff [THEN iffD1])
qed

text \<open>A call of \<^verbatim>\<open>GetFakeIPForDomain\<close> answers with the row of the domain or allocates.\<close>

lemma GetFakeIP_cases:
  assumes i: "pool_inv p" and that: "fst (GetFakeIPForDomain ok now1 now2 d p) = a"
  shows "(\<exists>q e. GetFakeIPForDomain ok now1 now2 d p = (a, q) \<and> same_pool p q \<and> e \<in> set (fp_entries p) \<and> fe_domain e = d \<and>
      fe_ip e = AsSlice a \<and> prefix_Contains (fp_prefix p) a) \<or>
    (\<exists>r q. allocate ok d now2 p = (r, q) \<and> GetFakeIPForDomain ok now1 now2 d p = (case r of None \<Rightarrow> NoAddr 0 | Some b \<Rightarrow> b, q) \<and>
      (ok_lookup1 ok \<or> ok_lookup2 ok \<longrightarrow> d \<notin> fe_domain ` set (fp_entries p)))"
  using getIP_found [OF i, of "ok_lookup1 ok" "ok_delete1 ok" d now1]
proof
  assume "\<exists>a e q. getIP (ok_lookup1 ok) (ok_delete1 ok) d now1 p = (Some a, q) \<and> same_pool p q \<and> e \<in> set (fp_entries p) \<and>
      fe_domain e = d \<and> fe_ip e = AsSlice a \<and> prefix_Contains (fp_prefix p) a \<and> ok_lookup1 ok"
  then obtain b e q where "getIP (ok_lookup1 ok) (ok_delete1 ok) d now1 p = (Some b, q)" and e: "same_pool p q" "e \<in> set (fp_entries p)"
    "fe_domain e = d" "fe_ip e = AsSlice b" "prefix_Contains (fp_prefix p) b" by blast
  then have "GetFakeIPForDomain ok now1 now2 d p = (b, q)" by (simp add: GetFakeIPForDomain_def)
  then show ?thesis using e that by (intro disjI1 exI [of _ q] exI [of _ e]) simp
next
  assume n1: "getIP (ok_lookup1 ok) (ok_delete1 ok) d now1 p = (None, p) \<and> (\<not> ok_lookup1 ok \<or> d \<notin> fe_domain ` set (fp_entries p))"
  from getIP_found [OF i, of "ok_lookup2 ok" "ok_delete2 ok" d now2] show ?thesis
  proof
    assume "\<exists>a e q. getIP (ok_lookup2 ok) (ok_delete2 ok) d now2 p = (Some a, q) \<and> same_pool p q \<and> e \<in> set (fp_entries p) \<and>
        fe_domain e = d \<and> fe_ip e = AsSlice a \<and> prefix_Contains (fp_prefix p) a \<and> ok_lookup2 ok"
    then obtain b e q where "getIP (ok_lookup2 ok) (ok_delete2 ok) d now2 p = (Some b, q)" and e: "same_pool p q" "e \<in> set (fp_entries p)"
      "fe_domain e = d" "fe_ip e = AsSlice b" "prefix_Contains (fp_prefix p) b" by blast
    then have "GetFakeIPForDomain ok now1 now2 d p = (b, q)" using n1 by (simp add: GetFakeIPForDomain_def)
    then show ?thesis using e that by (intro disjI1 exI [of _ q] exI [of _ e]) simp
  next
    assume n2: "getIP (ok_lookup2 ok) (ok_delete2 ok) d now2 p = (None, p) \<and> (\<not> ok_lookup2 ok \<or> d \<notin> fe_domain ` set (fp_entries p))"
    obtain r q where r: "allocate ok d now2 p = (r, q)" by fastforce
    then have "GetFakeIPForDomain ok now1 now2 d p = (case r of None \<Rightarrow> NoAddr 0 | Some b \<Rightarrow> b, q)"
      using n1 n2 by (cases r) (simp_all add: GetFakeIPForDomain_def)
    then show ?thesis using r n1 n2 by (intro disjI2 exI [of _ r] exI [of _ q]) blast
  qed
qed

lemma GetFakeIP_ok:
  assumes i: "pool_inv p" and r: "GetFakeIPForDomain ok now1 now2 d p = (a, q)"
  shows "pool_inv q \<and> fp_prefix q = fp_prefix p \<and> fp_maxNum q = fp_maxNum p \<and>
    (a = NoAddr 0 \<and> fp_entries q = fp_entries p \<or>
     prefix_Contains (fp_prefix p) a \<and> (\<exists>e \<in> set (fp_entries q). fe_domain e = d \<and> fe_ip e = AsSlice a))"
proof -
  from r have "fst (GetFakeIPForDomain ok now1 now2 d p) = a" by simp
  from GetFakeIP_cases [OF i this] show ?thesis
  proof (elim disjE exE conjE)
    fix q' e
    assume e: "GetFakeIPForDomain ok now1 now2 d p = (a, q')" "same_pool p q'" "e \<in> set (fp_entries p)" "fe_domain e = d"
      "fe_ip e = AsSlice a" "prefix_Contains (fp_prefix p) a"
    have q: "q' = q" using e(1) r by simp
    have "pool_inv q" using e(2) i pool_inv_same q by blast
    then show ?thesis using e q by (auto simp: same_pool_def)
  next
    fix b q'
    assume al: "allocate ok d now2 p = (b, q')" "GetFakeIPForDomain ok now1 now2 d p = (case b of None \<Rightarrow> NoAddr 0 | Some b \<Rightarrow> b, q')"
    have q: "q' = q" "a = (case b of None \<Rightarrow> NoAddr 0 | Some b \<Rightarrow> b)" using al(2) r by simp_all
    show ?thesis using allocate_ok [OF i al(1)] q by (cases b) simp_all
  qed
qed

lemma GetDomainFromIP_same: "same_pool p (snd (GetDomainFromIP lo now a p))"
  by (simp add: GetDomainFromIP_def split: option.split)

lemma flushTouches_ok:
  assumes "pool_inv p"
  shows "pool_inv (flushTouches ok p) \<and> fp_prefix (flushTouches ok p) = fp_prefix p \<and> fp_maxNum (flushTouches ok p) = fp_maxNum p \<and>
    fp_cursor (flushTouches ok p) = fp_cursor p"
proof -
  let ?es = "fp_entries (flushTouches ok p)"
  have m: "map fe_domain ?es = map fe_domain (fp_entries p)" "map fe_ip ?es = map fe_ip (fp_entries p)"
    by (simp_all add: flushTouches_def)
  have n: "?es = [] \<longleftrightarrow> fp_entries p = []" using m(1) by (metis map_is_Nil_conv)
  have k: "fp_prefix (flushTouches ok p) = fp_prefix p" "fp_maxNum (flushTouches ok p) = fp_maxNum p"
    "fp_cursor (flushTouches ok p) = fp_cursor p" "fp_current (flushTouches ok p) = fp_current p" "fp_index (flushTouches ok p) = fp_index p"
    by (simp_all add: flushTouches_def)
  have c: "cursor_ok (flushTouches ok p) = cursor_ok p" using k cursor_ok_cong by blast
  show ?thesis using assms entries_ok_cong [OF m] unfolding pool_inv_def pool_wf_def k n c by simp
qed

section \<open>Opening keeps the invariant\<close>

definition pool_config :: "netip_prefix \<Rightarrow> int \<Rightarrow> SQLiteFakeIPPool \<Rightarrow> bool" where
  "pool_config pfx n p \<longleftrightarrow> fp_prefix p = prefix_Masked pfx \<and> fp_maxNum p = fp_maxNum (newFakeIPPool pfx n [] None)"

lemma push_drop_twice: "push_bit n (drop_bit n (push_bit n (drop_bit n w))) = push_bit n (drop_bit n w)" for w :: "'a::len word"
  by (rule bit_word_eqI) (auto simp: bit_simps)

lemma mask_twice: "mask_addr n (mask_addr n a) = mask_addr n a"
  by (cases a) (simp_all only: mask_addr.simps push_drop_twice)

lemma mask_valid: "addr_IsValid (mask_addr n a) = addr_IsValid a" "BitLen (mask_addr n a) = BitLen a"
  by (cases a; simp)+

lemma masked_wf: "prefix_IsValid pfx \<Longrightarrow> prefix_IsValid (prefix_Masked pfx) \<and> prefix_Masked (prefix_Masked pfx) = prefix_Masked pfx"
  by (simp add: prefix_Masked_def prefix_IsValid_def mask_twice mask_valid)

lemma new_maxNum:
  assumes v: "prefix_IsValid pfx" and n: "n < 2 ^ 63"
  shows "0 < unat (fp_maxNum (newFakeIPPool pfx n es c))" "unat (fp_maxNum (newFakeIPPool pfx n es c)) \<le> 2 ^ host_bits (prefix_Masked pfx)"
    "unat (fp_maxNum (newFakeIPPool pfx n es c)) < 2 ^ 63"
proof -
  let ?h = "int (BitLen (pAddr (prefix_Masked pfx))) - pBits (prefix_Masked pfx)"
  define m where "m = (if n \<le> 0 then 65536 else n)"
  define m' where "m' = (if ?h < 64 \<and> 2 ^ nat ?h < m then 2 ^ nat ?h else m)"
  have h: "nat ?h = host_bits (prefix_Masked pfx)" using masked_wf [OF v] by (simp add: host_bits_def prefix_IsValid_def nat_diff_distrib)
  have m: "0 < m" "m < 2 ^ 63" using n by (auto simp: m_def)
  then have m': "0 < m'" "m' < 2 ^ 63" by (auto simp: m'_def)
  have "m' \<le> 2 ^ nat ?h"
  proof (cases "?h < 64")
    case False
    then have "(2 :: int) ^ 63 \<le> 2 ^ nat ?h" by (intro power_increasing) auto
    then show ?thesis using m' by linarith
  qed (auto simp: m'_def)
  then have "nat m' \<le> 2 ^ host_bits (prefix_Masked pfx)" unfolding h by (simp add: nat_le_iff)
  moreover have "fp_maxNum (newFakeIPPool pfx n es c) = of_int m'" by (simp add: newFakeIPPool_def m'_def m_def Let_def)
  moreover have "unat (of_int m' :: u64) = nat m'" using m' by (simp add: unsigned_of_int take_bit_int_eq_self)
  ultimately show "0 < unat (fp_maxNum (newFakeIPPool pfx n es c))" "unat (fp_maxNum (newFakeIPPool pfx n es c)) \<le> 2 ^ host_bits (prefix_Masked pfx)"
    "unat (fp_maxNum (newFakeIPPool pfx n es c)) < 2 ^ 63" using m' by (simp_all add: nat_less_iff)
qed

lemma newFakeIPPool_simps [simp]:
  "fp_prefix (newFakeIPPool pfx n es c) = prefix_Masked pfx" "fp_entries (newFakeIPPool pfx n es c) = es"
  "fp_cursor (newFakeIPPool pfx n es c) = c" "fp_index (newFakeIPPool pfx n es c) = 0"
  "fp_current (newFakeIPPool pfx n es c) = Prev (pAddr (prefix_Masked pfx))"
  by (simp_all add: newFakeIPPool_def Let_def)

lemma newFakeIPPool_maxNum: "fp_maxNum (newFakeIPPool pfx n es c) = fp_maxNum (newFakeIPPool pfx n [] None)"
  by (simp add: newFakeIPPool_def Let_def)

lemma loadCursor_simps [simp]:
  "fp_prefix (loadCursor p) = fp_prefix p" "fp_entries (loadCursor p) = fp_entries p" "fp_cursor (loadCursor p) = fp_cursor p"
  "fp_maxNum (loadCursor p) = fp_maxNum p"
  by (simp_all add: loadCursor_def split: option.split)

text \<open>Opening the pool again on its own tables, also after a crash that lost the cursor in memory.\<close>

lemma pool_inv_reopen:
  assumes i: "pool_inv p" and c: "pool_config pfx n p"
  shows "pool_inv (newSQLiteFakeIPPool pfx n (fp_entries p) (fp_cursor p)) \<and>
    pool_config pfx n (newSQLiteFakeIPPool pfx n (fp_entries p) (fp_cursor p))"
proof -
  let ?old = "newFakeIPPool pfx n (fp_entries p) (fp_cursor p)" and ?q = "newSQLiteFakeIPPool pfx n (fp_entries p) (fp_cursor p)"
  have k: "fp_prefix ?q = fp_prefix p" "fp_maxNum ?q = fp_maxNum p" "fp_prefix ?old = fp_prefix p" "fp_maxNum ?old = fp_maxNum p"
    "fp_entries ?q = fp_entries p" "fp_cursor ?q = fp_cursor p"
    using c newFakeIPPool_maxNum [of pfx n "fp_entries p" "fp_cursor p"] by (simp_all add: pool_config_def newSQLiteFakeIPPool_def)
  have co: "cursor_ok ?q = cursor_ok p" using k cursor_ok_cong by blast
  have "fp_index ?q = 0 \<and> fp_current ?q = Prev (fp_base ?q) \<and> fp_entries ?q = [] \<or> cursor_ok p (fp_current ?q) (fp_index ?q)"
  proof (cases "fp_cursor p")
    case None
    then have "fp_entries p = []" using i by (simp add: pool_inv_def)
    then show ?thesis using None by (simp add: newSQLiteFakeIPPool_def loadCursor_def)
  next
    case (Some x)
    then obtain a idx where a: "fp_cursor p = Some (AsSlice a, idx)" "cursor_ok p a idx" using i by (cases x) (auto simp: pool_inv_def)
    have "prefix_Contains (fp_prefix p) a" using a(2) slot_Contains [OF pool_inv_wf [OF i], of "unat idx - 1"] by (auto simp: cursor_ok_def)
    then have "?q = ?old\<lparr>fp_index := idx, fp_current := a\<rparr>" using a(1) c Contains_slice [of "fp_prefix p" a]
      by (simp add: pool_config_def newSQLiteFakeIPPool_def loadCursor_def)
    then show ?thesis using a(2) by simp
  qed
  then have "pool_inv ?q" using i unfolding pool_inv_def pool_wf_def k co by auto
  then show ?thesis using c k by (simp add: pool_config_def)
qed

lemma pool_inv_new:
  assumes "prefix_IsValid pfx" "n < 2 ^ 63"
  shows "pool_inv (newSQLiteFakeIPPool pfx n [] None)" "pool_config pfx n (newSQLiteFakeIPPool pfx n [] None)"
proof -
  show "pool_inv (newSQLiteFakeIPPool pfx n [] None)"
    using new_maxNum [OF assms, of "[]" None] masked_wf [OF assms(1)]
    by (simp add: pool_inv_def pool_wf_def newSQLiteFakeIPPool_def loadCursor_def entries_ok_def)
  show "pool_config pfx n (newSQLiteFakeIPPool pfx n [] None)"
    by (simp add: pool_config_def newSQLiteFakeIPPool_def)
qed

section \<open>Histories\<close>

text \<open>A call, a run of the touch worker, or a restart of the program, after a last flush or without one.\<close>

datatype fp_op = FpGetIP db_ok int int string | FpGetDomain bool int addr | FpFlush bool | FpRestart bool

fun fp_step :: "netip_prefix \<Rightarrow> int \<Rightarrow> SQLiteFakeIPPool \<Rightarrow> fp_op \<Rightarrow> SQLiteFakeIPPool" where
  "fp_step pfx n p (FpGetIP ok now1 now2 d) = snd (GetFakeIPForDomain ok now1 now2 d p)"
| "fp_step pfx n p (FpGetDomain lo now a) = snd (GetDomainFromIP lo now a p)"
| "fp_step pfx n p (FpFlush ok) = flushTouches ok p"
| "fp_step pfx n p (FpRestart flushed) =
     newSQLiteFakeIPPool pfx n (fp_entries (if flushed then flushTouches True p else p)) (fp_cursor p)"

abbreviation fp_run :: "netip_prefix \<Rightarrow> int \<Rightarrow> fp_op list \<Rightarrow> SQLiteFakeIPPool" where
  "fp_run pfx n ops \<equiv> foldl (fp_step pfx n) (newSQLiteFakeIPPool pfx n [] None) ops"

lemma fp_step_inv: "pool_inv p \<and> pool_config pfx n p \<Longrightarrow> pool_inv (fp_step pfx n p op) \<and> pool_config pfx n (fp_step pfx n p op)"
proof (cases op)
  case (FpGetIP ok t1 t2 d)
  assume "pool_inv p \<and> pool_config pfx n p"
  moreover obtain a q where q: "GetFakeIPForDomain ok t1 t2 d p = (a, q)" by fastforce
  ultimately have "pool_inv q" "pool_config pfx n q" using GetFakeIP_ok [OF _ q] by (auto simp only: pool_config_def)
  then show ?thesis using FpGetIP q by simp
next
  case (FpGetDomain lo t a)
  assume "pool_inv p \<and> pool_config pfx n p"
  then show ?thesis using FpGetDomain pool_inv_same [OF GetDomainFromIP_same [of p lo t a]] GetDomainFromIP_same [of p lo t a]
    by (simp add: pool_config_def same_pool_def)
next
  case (FpFlush ok)
  assume "pool_inv p \<and> pool_config pfx n p"
  then show ?thesis using FpFlush flushTouches_ok [of p ok] by (simp add: pool_config_def)
next
  case (FpRestart fl)
  assume a: "pool_inv p \<and> pool_config pfx n p"
  let ?p = "if fl then flushTouches True p else p"
  have "pool_inv ?p" "pool_config pfx n ?p" "fp_cursor ?p = fp_cursor p" using a flushTouches_ok [of p True] by (auto simp: pool_config_def)
  then show ?thesis using FpRestart pool_inv_reopen [of ?p pfx n] by simp
qed

lemma fp_run_inv:
  assumes "prefix_IsValid pfx" "n < 2 ^ 63"
  shows "pool_inv (fp_run pfx n ops)" "pool_config pfx n (fp_run pfx n ops)"
proof -
  have "pool_inv (foldl (fp_step pfx n) p ops) \<and> pool_config pfx n (foldl (fp_step pfx n) p ops)"
    if "pool_inv p \<and> pool_config pfx n p" for p
    using that by (induction ops arbitrary: p) (simp_all add: fp_step_inv)
  then show "pool_inv (fp_run pfx n ops)" "pool_config pfx n (fp_run pfx n ops)" using pool_inv_new [OF assms] by blast+
qed

section \<open>Properties\<close>

text \<open>C5: After any history of calls, flushes, restarts and crashes, with any statements of the database failing,
  the table is a bijection between at most \<^verbatim>\<open>maxNum\<close> domains and addresses, and every address is in the
  prefix.\<close>

theorem fakeip_table_bijective:
  assumes "prefix_IsValid pfx" and "n < 2 ^ 63"
  shows "distinct (map fe_domain (fp_entries (fp_run pfx n ops))) \<and> distinct (map fe_ip (fp_entries (fp_run pfx n ops))) \<and>
    length (fp_entries (fp_run pfx n ops)) \<le> unat (fp_maxNum (newFakeIPPool pfx n [] None)) \<and>
    (\<forall>e \<in> set (fp_entries (fp_run pfx n ops)). \<exists>a. AddrFromSlice (fe_ip e) = Some a \<and> prefix_Contains (prefix_Masked pfx) a)"
proof -
  note r = fp_run_inv [OF assms, of ops]
  then have e: "entries_ok (prefix_Masked pfx) (unat (fp_maxNum (newFakeIPPool pfx n [] None))) (fp_entries (fp_run pfx n ops))"
    by (simp add: pool_inv_def pool_config_def)
  then show ?thesis using entry_address [OF e] unfolding entries_ok_def by metis
qed

definition demo_prefix :: netip_prefix where
  "demo_prefix = \<lparr>pAddr = Addr4 0x0A000000, pBits = 30\<rparr>"

definition all_ok :: db_ok where
  "all_ok = \<lparr>ok_lookup1 = True, ok_delete1 = True, ok_lookup2 = True, ok_delete2 = True, ok_begin = True, ok_count = True,
     ok_select = True, ok_evict = True, ok_exists = (\<lambda>_. True), ok_clear = True, ok_insert = True, ok_cursor = True, ok_commit = True\<rparr>"

lemma demo_prefix_valid: "prefix_IsValid demo_prefix"
  by (simp add: demo_prefix_def prefix_IsValid_def)

theorem fakeip_table_bijective_witness:
  "distinct (map fe_ip (fp_entries (fp_run demo_prefix 4 [FpGetIP all_ok 1 1 ''a.com'', FpRestart False, FpGetIP all_ok 2 2 ''b.com''])))"
  using fakeip_table_bijective [OF demo_prefix_valid, of 4 "[FpGetIP all_ok 1 1 ''a.com'', FpRestart False, FpGetIP all_ok 2 2 ''b.com'']"]
  by simp

text \<open>The address given out for a domain is in the prefix and leads back to the domain; asked again, the pool gives
  the same address.\<close>

theorem fakeip_roundtrip:
  assumes "prefix_IsValid pfx" and "n < 2 ^ 63" and "GetFakeIPForDomain ok now1 now2 d (fp_run pfx n ops) = (a, q)" and "a \<noteq> NoAddr 0"
  shows "prefix_Contains (prefix_Masked pfx) a \<and> fst (GetDomainFromIP True now a q) = (d, True) \<and>
    (ok_lookup1 ok' \<longrightarrow> fst (GetFakeIPForDomain ok' now1' now2' d q) = a)"
proof -
  note r = fp_run_inv [OF assms(1,2), of ops]
  have pf: "fp_prefix (fp_run pfx n ops) = prefix_Masked pfx" using r(2) by (simp add: pool_config_def)
  from GetFakeIP_ok [OF r(1) assms(3)] assms(4) obtain e where i: "pool_inv q" and c: "prefix_Contains (prefix_Masked pfx) a"
    and q: "fp_prefix q = prefix_Masked pfx" and e: "e \<in> set (fp_entries q)" "fe_domain e = d" "fe_ip e = AsSlice a"
    unfolding pf by blast
  have eo: "entries_ok (fp_prefix q) (fp_num q) (fp_entries q)" using i by (simp add: pool_inv_def)
  note f = find_domain [OF eo e(1)]
  have "fst (GetDomainFromIP True now a q) = (d, True)" using f(2) e c q by (simp add: GetDomainFromIP_def)
  moreover have "fst (GetFakeIPForDomain ok' now1' now2' d q) = a" if "ok_lookup1 ok'"
    using that f(1) e c q Contains_slice [OF c] by (simp add: GetFakeIPForDomain_def getIP_def)
  ultimately show ?thesis using c by blast
qed

lemma demo_first:
  "GetFakeIPForDomain all_ok 1 1 ''a.com'' (fp_run demo_prefix 1 []) = (Addr4 0x0A000000,
     (fp_run demo_prefix 1 [])\<lparr>fp_current := Addr4 0x0A000000, fp_index := 1, fp_cursor := Some (AsSlice (Addr4 0x0A000000), 1),
       fp_entries := [\<lparr>fe_domain = ''a.com'', fe_ip = AsSlice (Addr4 0x0A000000), fe_created_at = 1, fe_last_used_at = 1\<rparr>]\<rparr>)"
proof -
  let ?p = "fp_run demo_prefix 1 []"
  have w: "fp_maxNum (newFakeIPPool demo_prefix 1 [] None) = 1" "prefix_Masked demo_prefix = demo_prefix"
    "pAddr demo_prefix = Addr4 0x0A000000"
    by (simp_all add: demo_prefix_def newFakeIPPool_def prefix_Masked_def prefix_IsValid_def Let_def)
  note r = fp_run_inv [OF demo_prefix_valid, of 1 "[]"]
  have "rotateNext ?p = (Addr4 0x0A000000, ?p\<lparr>fp_current := Addr4 0x0A000000, fp_index := 1\<rparr>)"
    using rotateNext_slot [OF pool_inv_wf pool_inv_rot, OF r(1) r(1)]
    by (simp add: w newSQLiteFakeIPPool_def loadCursor_def at_slot_def)
  then have "pick all_ok ?p = (Some (Addr4 0x0A000000), ?p\<lparr>fp_current := Addr4 0x0A000000, fp_index := 1\<rparr>)"
    by (simp add: pick_def entryCount_def nextAvailable_def newSQLiteFakeIPPool_def loadCursor_def w ipExists_def)
  then have "allocate all_ok ''a.com'' 1 ?p = (Some (Addr4 0x0A000000),
     ?p\<lparr>fp_current := Addr4 0x0A000000, fp_index := 1, fp_cursor := Some (AsSlice (Addr4 0x0A000000), 1),
       fp_entries := [\<lparr>fe_domain = ''a.com'', fe_ip = AsSlice (Addr4 0x0A000000), fe_created_at = 1, fe_last_used_at = 1\<rparr>]\<rparr>)"
    by (simp add: allocate_pick all_ok_def upsert_entry_def newSQLiteFakeIPPool_def loadCursor_def del: AsSlice.simps)
  then show ?thesis
    by (simp add: GetFakeIPForDomain_def getIP_def newSQLiteFakeIPPool_def loadCursor_def del: AsSlice.simps)
qed

theorem fakeip_roundtrip_witness:
  "\<exists>q. GetFakeIPForDomain all_ok 1 1 ''a.com'' (fp_run demo_prefix 1 []) = (Addr4 0x0A000000, q) \<and>
    fst (GetDomainFromIP True 2 (Addr4 0x0A000000) q) = (''a.com'', True)"
  using fakeip_roundtrip [OF demo_prefix_valid _ demo_first] demo_first by fastforce

text \<open>All addresses of the rotation in use means that the table is full.\<close>

lemma rotation_full:
  assumes i: "pool_inv p" and all: "\<forall>l < fp_num p. ipExists ok (nth_addr (fp_base p) ((k + l) mod fp_num p)) p"
  shows "fp_num p \<le> length (fp_entries p)"
proof -
  let ?m = "fp_num p" and ?f = "\<lambda>j. AsSlice (nth_addr (fp_base p) j)"
  have w: "pool_wf p" and m: "0 < ?m" using i by (auto simp: pool_inv_def pool_wf_def)
  have used: "?f j \<in> set (map fe_ip (fp_entries p))" if j: "j < ?m" for j
  proof -
    have "(k + (j + ?m - k mod ?m) mod ?m) mod ?m = (k mod ?m + (j + ?m - k mod ?m)) mod ?m" by (metis mod_add_eq mod_mod_trivial)
    also have "k mod ?m + (j + ?m - k mod ?m) = j + ?m" using mod_less_divisor [OF m, of k] by linarith
    also have "(j + ?m) mod ?m = j" using j by simp
    finally show ?thesis using all [rule_format, of "(j + ?m - k mod ?m) mod ?m"] m by (auto simp: ipExists_def) (metis image_eqI)
  qed
  have "inj_on ?f {..<?m}"
  proof (rule inj_onI)
    fix x y assume "x \<in> {..<?m}" "y \<in> {..<?m}" and e: "?f x = ?f y"
    then have l: "x < ?m" "y < ?m" by auto
    have "nth_addr (fp_base p) x = nth_addr (fp_base p) y" using e AsSlice_eq [OF slot_Contains [OF w l(1)] slot_Contains [OF w l(2)]] by simp
    then show "x = y" using nth_addr_inject [of "fp_prefix p" x y] l w by (simp add: pool_wf_def)
  qed
  then have "?m = card (?f ` {..<?m})" by (simp add: card_image)
  also have "\<dots> \<le> card (set (map fe_ip (fp_entries p)))" using used by (intro card_mono) auto
  also have "\<dots> \<le> length (fp_entries p)" by (metis card_length length_map)
  finally show ?thesis .
qed

lemma pick_free:
  assumes i: "pool_inv p" and l: "length (fp_entries p) < fp_num p" and ok: "\<And>a. ok_exists ok a"
  obtains j where "j < fp_num p" "pick ok p = (Some (nth_addr (fp_base p) j), at_slot j p)"
    "AsSlice (nth_addr (fp_base p) j) \<notin> fe_ip ` set (fp_entries p)"
proof -
  have n: "pick ok p = next_loop ok (fp_num p) p" using l entryCount_full [OF i] by (auto simp: pick_def nextAvailable_def)
  obtain j where j: "j < fp_num p" "(next_loop ok (fp_num p) p = (Some (nth_addr (fp_base p) j), at_slot j p) \<and> \<not> ipExists ok (nth_addr (fp_base p) j) p) \<or>
      (\<forall>i < fp_num p. ipExists ok (nth_addr (fp_base p) ((unat (fp_index p) + i) mod fp_num p)) p)"
    using next_loop_slot [OF pool_inv_wf [OF i] pool_inv_rot [OF i], of "fp_num p" ok] l by auto
  then have "next_loop ok (fp_num p) p = (Some (nth_addr (fp_base p) j), at_slot j p)" "\<not> ipExists ok (nth_addr (fp_base p) j) p"
    using rotation_full [OF i] l by fastforce+
  moreover from this have "AsSlice (nth_addr (fp_base p) j) \<notin> fe_ip ` set (fp_entries p)" using ok by (metis ipExists_def imageE)
  ultimately show thesis using that [OF j(1)] n by simp
qed

lemma allocate_new:
  assumes "pick all_ok p = (Some a, q')" "d \<notin> fe_domain ` set (fp_entries q')" "AsSlice a \<notin> fe_ip ` set (fp_entries q')"
  obtains q where "allocate all_ok d now p = (Some a, q)"
    "fp_entries q = fp_entries q' @ [\<lparr>fe_domain = d, fe_ip = AsSlice a, fe_created_at = now, fe_last_used_at = now\<rparr>]"
proof -
  have f: "filter (\<lambda>e. \<not> (fe_ip e = AsSlice a \<and> fe_domain e \<noteq> d)) (fp_entries q') = fp_entries q'"
    using assms(3) by (intro filter_True ballI) (metis image_eqI)
  have ok: "ok_begin all_ok" "ok_count all_ok" "ok_clear all_ok" "ok_insert all_ok" "ok_cursor all_ok" "ok_commit all_ok"
    by (simp_all add: all_ok_def)
  have u: "upsert_entry d (AsSlice a) now (fp_entries q') =
      fp_entries q' @ [\<lparr>fe_domain = d, fe_ip = AsSlice a, fe_created_at = now, fe_last_used_at = now\<rparr>]"
    using assms(2) by (simp add: upsert_entry_def)
  have "allocate all_ok d now p = (Some a, q'\<lparr>fp_entries := upsert_entry d (AsSlice a) now
      (filter (\<lambda>e. \<not> (fe_ip e = AsSlice a \<and> fe_domain e \<noteq> d)) (fp_entries q')), fp_cursor := Some (AsSlice (fp_current q'), fp_index q')\<rparr>)"
    using assms(1) ok by (simp add: allocate_pick)
  then show thesis unfolding f u by (rule that) simp
qed

text \<open>C19: As long as the table has room, a new domain gets a fresh address, and no other domain loses its own: when the
  database works, the search for a free address ends with one.\<close>

theorem fakeip_fresh_while_room:
  assumes "prefix_IsValid pfx" and "n < 2 ^ 63"
    and "length (fp_entries (fp_run pfx n ops)) < unat (fp_maxNum (newFakeIPPool pfx n [] None))"
    and "d \<notin> fe_domain ` set (fp_entries (fp_run pfx n ops))"
  shows "\<exists>a q. GetFakeIPForDomain all_ok now1 now2 d (fp_run pfx n ops) = (a, q) \<and> prefix_Contains (prefix_Masked pfx) a \<and>
    AsSlice a \<notin> fe_ip ` set (fp_entries (fp_run pfx n ops)) \<and>
    fp_entries q = fp_entries (fp_run pfx n ops) @
      [\<lparr>fe_domain = d, fe_ip = AsSlice a, fe_created_at = now2, fe_last_used_at = now2\<rparr>]"
proof -
  let ?p = "fp_run pfx n ops"
  note r = fp_run_inv [OF assms(1,2), of ops]
  have k: "fp_prefix ?p = prefix_Masked pfx" "fp_maxNum ?p = fp_maxNum (newFakeIPPool pfx n [] None)" using r(2) by (auto simp: pool_config_def)
  obtain j where j: "j < fp_num ?p" "pick all_ok ?p = (Some (nth_addr (fp_base ?p) j), at_slot j ?p)"
    "AsSlice (nth_addr (fp_base ?p) j) \<notin> fe_ip ` set (fp_entries ?p)"
    using pick_free [OF r(1), of all_ok] assms(3) k by (auto simp: all_ok_def)
  let ?a = "nth_addr (fp_base ?p) j"
  have c: "prefix_Contains (prefix_Masked pfx) ?a" using slot_Contains [OF pool_inv_wf [OF r(1)] j(1)] k by simp
  obtain q where q: "allocate all_ok d now2 ?p = (Some ?a, q)" and
    e: "fp_entries q = fp_entries ?p @ [\<lparr>fe_domain = d, fe_ip = AsSlice ?a, fe_created_at = now2, fe_last_used_at = now2\<rparr>]"
    using allocate_new [OF j(2), of d now2] assms(4) j(3) by (metis at_slot_simps(3))
  from GetFakeIP_cases [OF r(1) refl, of all_ok now1 now2 d] have "GetFakeIPForDomain all_ok now1 now2 d ?p = (?a, q)"
    using assms(4) q by auto
  then show ?thesis using c j(3) e by blast
qed

lemma demo_maxNum: "unat (fp_maxNum (newFakeIPPool demo_prefix 1 [] None)) = 1"
  by (simp add: demo_prefix_def newFakeIPPool_def prefix_Masked_def prefix_IsValid_def Let_def)

theorem fakeip_fresh_while_room_witness:
  "\<exists>a q. GetFakeIPForDomain all_ok 1 1 ''a.com'' (fp_run demo_prefix 1 []) = (a, q) \<and> prefix_Contains (prefix_Masked demo_prefix) a \<and>
    fp_entries q = [\<lparr>fe_domain = ''a.com'', fe_ip = AsSlice a, fe_created_at = 1, fe_last_used_at = 1\<rparr>]"
proof -
  have e: "fp_entries (fp_run demo_prefix 1 []) = []" by (simp add: newSQLiteFakeIPPool_def)
  show ?thesis using fakeip_fresh_while_room [OF demo_prefix_valid, of 1 "[]" "''a.com''" 1 1] demo_maxNum unfolding e by auto
qed

lemma oldest_least:
  "oldest es = Some e \<Longrightarrow> x \<in> set es \<Longrightarrow>
    fe_last_used_at e < fe_last_used_at x \<or> fe_last_used_at e = fe_last_used_at x \<and> fe_created_at e \<le> fe_created_at x"
proof (induction es arbitrary: e)
  case (Cons y es)
  show ?case
  proof (cases "oldest es")
    case None
    then show ?thesis using Cons.prems by simp
  next
    case (Some m)
    have "x = y \<or> (fe_last_used_at m < fe_last_used_at x \<or> fe_last_used_at m = fe_last_used_at x \<and> fe_created_at m \<le> fe_created_at x)"
      using Cons.IH [OF Some] Cons.prems(2) by auto
    then show ?thesis using Cons.prems(1) Some by (auto split: if_splits)
  qed
qed simp

text \<open>C20: When the table is full, a new domain takes over the address of a row that was least recently used, of the
  oldest among those, and every other row stays.\<close>

theorem fakeip_evicts_least_recent:
  assumes "prefix_IsValid pfx" and "n < 2 ^ 63"
    and "length (fp_entries (fp_run pfx n ops)) = unat (fp_maxNum (newFakeIPPool pfx n [] None))"
    and "d \<notin> fe_domain ` set (fp_entries (fp_run pfx n ops))"
  shows "\<exists>e a q. GetFakeIPForDomain all_ok now1 now2 d (fp_run pfx n ops) = (a, q) \<and>
    e \<in> set (fp_entries (fp_run pfx n ops)) \<and> fe_ip e = AsSlice a \<and>
    (\<forall>x \<in> set (fp_entries (fp_run pfx n ops)). fe_last_used_at e < fe_last_used_at x \<or>
      fe_last_used_at e = fe_last_used_at x \<and> fe_created_at e \<le> fe_created_at x) \<and>
    fp_entries q = remove1 e (fp_entries (fp_run pfx n ops)) @
      [\<lparr>fe_domain = d, fe_ip = AsSlice a, fe_created_at = now2, fe_last_used_at = now2\<rparr>]"
proof -
  let ?p = "fp_run pfx n ops" and ?es = "fp_entries (fp_run pfx n ops)"
  note r = fp_run_inv [OF assms(1,2), of ops]
  have k: "fp_prefix ?p = prefix_Masked pfx" "fp_maxNum ?p = fp_maxNum (newFakeIPPool pfx n [] None)" using r(2) by (auto simp: pool_config_def)
  have eo: "entries_ok (fp_prefix ?p) (fp_num ?p) ?es" using r(1) by (simp add: pool_inv_def)
  have "0 < length ?es" using r(1) assms(3) k by (simp add: pool_inv_def pool_wf_def)
  then obtain e where e: "oldest ?es = Some e" by (metis length_greater_0_conv not_Some_eq oldest_None)
  note ein = oldest_in [OF e]
  obtain a where a: "fe_ip e = AsSlice a" "prefix_Contains (fp_prefix ?p) a" "AddrFromSlice (fe_ip e) = Some a"
    using entry_address [OF eo ein] by blast
  let ?fs = "filter (\<lambda>x. fe_domain x \<noteq> fe_domain e) ?es"
  have inj: "\<And>x. x \<in> set ?es \<Longrightarrow> fe_domain x = fe_domain e \<longleftrightarrow> x = e" "\<And>x. x \<in> set ?es \<Longrightarrow> fe_ip x = fe_ip e \<longleftrightarrow> x = e"
    using eo ein by (auto simp: entries_ok_def distinct_map inj_on_def)
  have "?fs = filter (\<lambda>x. x \<noteq> e) ?es" using inj(1) by (intro filter_cong) auto
  also have "\<dots> = remove1 e ?es" using eo by (simp add: entries_ok_def distinct_map distinct_remove1_removeAll removeAll_filter_not_eq) (metis)
  finally have fs: "?fs = remove1 e ?es" .
  have "AsSlice a \<notin> fe_ip ` set ?fs" using inj a(1) by fastforce
  moreover have "d \<notin> fe_domain ` set ?fs" using assms(4) by auto
  moreover have pe: "fp_entries (?p\<lparr>fp_entries := ?fs\<rparr>) = ?fs" by simp
  moreover have pk: "pick all_ok ?p = (Some a, ?p\<lparr>fp_entries := ?fs\<rparr>)"
    using entryCount_full [OF r(1)] assms(3) k e a by (simp add: pick_def evictLRU_def all_ok_def deleteDomain_def)
  ultimately obtain q where q: "allocate all_ok d now2 ?p = (Some a, q)" and
    qe: "fp_entries q = ?fs @ [\<lparr>fe_domain = d, fe_ip = AsSlice a, fe_created_at = now2, fe_last_used_at = now2\<rparr>]"
    using allocate_new [OF pk, of d now2] unfolding pe by blast
  from GetFakeIP_cases [OF r(1) refl, of all_ok now1 now2 d] have "GetFakeIPForDomain all_ok now1 now2 d ?p = (a, q)"
    using assms(4) q by auto
  then show ?thesis using ein a(1) qe fs oldest_least [OF e] by (intro exI [of _ e] exI [of _ a] exI [of _ q]) auto
qed

theorem fakeip_evicts_least_recent_witness:
  "\<exists>a q. GetFakeIPForDomain all_ok 2 2 ''b.com'' (fp_run demo_prefix 1 [FpGetIP all_ok 1 1 ''a.com'']) = (a, q) \<and>
    AsSlice (Addr4 0x0A000000) = AsSlice a \<and>
    fp_entries q = [\<lparr>fe_domain = ''b.com'', fe_ip = AsSlice a, fe_created_at = 2, fe_last_used_at = 2\<rparr>]"
proof -
  let ?ops = "[FpGetIP all_ok 1 1 ''a.com'']"
  have e: "fp_entries (fp_run demo_prefix 1 ?ops) =
      [\<lparr>fe_domain = ''a.com'', fe_ip = AsSlice (Addr4 0x0A000000), fe_created_at = 1, fe_last_used_at = 1\<rparr>]"
    using demo_first by (simp del: AsSlice.simps)
  then have "length (fp_entries (fp_run demo_prefix 1 ?ops)) = unat (fp_maxNum (newFakeIPPool demo_prefix 1 [] None))"
    "''b.com'' \<notin> fe_domain ` set (fp_entries (fp_run demo_prefix 1 ?ops))" unfolding e demo_maxNum by simp_all
  from fakeip_evicts_least_recent [OF demo_prefix_valid _ this, of 2 2] show ?thesis unfolding e
    by (auto simp del: AsSlice.simps foldl_Cons fp_step.simps)
qed

end
