(* ===== verification/Fakeip_Dns.thy ===== *)
theory Fakeip_Dns
  imports Fakeip_Pool Conn_Context Go_Strings
begin

text \<open>
  The DNS resolver that answers with fake addresses (\<^verbatim>\<open>pkg/net/dns/fakeip/fakeip.go\<close>). The two pools are
  values of the Go interface \<^verbatim>\<open>pool\<close>: a dictionary of operations over a state; \<open>'e\<close> is what a call meets
  in its environment, for the persistent pool the times and the failing statements. The locale \<open>fake_pool\<close> is the
  contract of the interface; it is interpreted on the persistent pool. Of the DNS library the model has the
  message fields and record types the code reads and writes.
\<close>

section \<open>Names\<close>

definition AbsDomain :: "string \<Rightarrow> string" where
  "AbsDomain domain =
     (if length domain = 0 then ''.''
      else if last domain = CHR ''.'' then domain else domain @ ''.'')"

definition RelDomain :: "string \<Rightarrow> string" where
  "RelDomain domain =
     (if length domain = 0 then []
      else if last domain = CHR ''.'' then butlast domain else domain)"

text \<open>\<^verbatim>\<open>strconv.ParseUint(s, 10, 8)\<close>.\<close>

definition ParseUint8 :: "string \<Rightarrow> nat option" where
  "ParseUint8 s = (case ParseUint16 s of None \<Rightarrow> None | Some n \<Rightarrow> if n > 255 then None else Some n)"

section \<open>Reverse names\<close>

definition fromHexByte :: "char \<Rightarrow> u8" where
  "fromHexByte c =
     (let b = of_nat (byte_of c) :: u8 in
      if byte_of (CHR ''0'') \<le> byte_of c \<and> byte_of c \<le> byte_of (CHR ''9'') then b - of_nat (byte_of (CHR ''0''))
      else if byte_of (CHR ''a'') \<le> byte_of c \<and> byte_of c \<le> byte_of (CHR ''f'') then b - of_nat (byte_of (CHR ''a'')) + 10
      else if byte_of (CHR ''A'') \<le> byte_of c \<and> byte_of c \<le> byte_of (CHR ''F'') then b - of_nat (byte_of (CHR ''A'')) + 10
      else 0xff)"

definition arpaV4Suffix :: string where "arpaV4Suffix = ''.in-addr.arpa.''"
definition arpaV6Suffix :: string where "arpaV6Suffix = ''.ip6.arpa.''"

text \<open>The loop over the decimal labels; \<open>None\<close> is an error.\<close>

fun ptr_labels :: "string list \<Rightarrow> bytes \<Rightarrow> bytes option" where
  "ptr_labels [] ipv4 = Some ipv4"
| "ptr_labels (v # vs) ipv4 =
     (if length ipv4 = 4 then None
      else case ParseUint8 v of
          None \<Rightarrow> None
        | Some z \<Rightarrow> ptr_labels vs (ipv4 @ [of_nat z]))"

definition RetrieveIPFromPtr :: "string \<Rightarrow> bytes option" where
  "RetrieveIPFromPtr name =
     (if HasSuffix name arpaV6Suffix \<and> length name - length arpaV6Suffix = 63
      then Some (map (\<lambda>i. fromHexByte (name ! (62 - i * 4)) * 16 + fromHexByte (name ! (62 - i * 4 - 2))) [0..<16])
      else if \<not> HasSuffix name arpaV4Suffix then None
      else case ptr_labels (Split (take (length name - length arpaV4Suffix) name) (CHR ''.'')) [] of
          None \<Rightarrow> None
        | Some ipv4 \<Rightarrow> if length ipv4 \<noteq> 4 then None else Some [ipv4 ! 3, ipv4 ! 2, ipv4 ! 1, ipv4 ! 0])"

section \<open>Messages\<close>

record DNSQuestion =
  dq_Name :: string
  dq_Qtype :: u16
  dq_Qclass :: u16

record dns_header =
  dh_Name :: string
  dh_Class :: u16
  dh_TTL :: u32

datatype svcb_pair = IPV4HINT "addr list" | IPV6HINT "addr list" | OtherPair u16 bytes

datatype dns_rr =
    RR_A dns_header addr
  | RR_AAAA dns_header addr
  | RR_PTR dns_header string
  | RR_HTTPS dns_header "svcb_pair list"
  | RR_Other u16 dns_header bytes

definition TypeA :: u16 where "TypeA = 1"
definition TypePTR :: u16 where "TypePTR = 12"
definition TypeAAAA :: u16 where "TypeAAAA = 28"
definition TypeHTTPS :: u16 where "TypeHTTPS = 65"

fun RRToType :: "dns_rr \<Rightarrow> u16" where
  "RRToType (RR_A _ _) = TypeA"
| "RRToType (RR_AAAA _ _) = TypeAAAA"
| "RRToType (RR_PTR _ _) = TypePTR"
| "RRToType (RR_HTTPS _ _) = TypeHTTPS"
| "RRToType (RR_Other t _ _) = t"

definition RcodeSuccess :: u16 where "RcodeSuccess = 0"
definition RcodeNameError :: u16 where "RcodeNameError = 3"
definition ClassINET :: u16 where "ClassINET = 1"

record dns_Msg =
  dm_Response :: bool
  dm_RecursionDesired :: bool
  dm_RecursionAvailable :: bool
  dm_Rcode :: u16
  dm_Question :: "DNSQuestion list"
  dm_Answer :: "dns_rr list"

text \<open>The question of a type the library knows; the callers ask for types it knows.\<close>

definition NewDNSMsg :: "DNSQuestion \<Rightarrow> dns_Msg" where
  "NewDNSMsg q = \<lparr>dm_Response = True, dm_RecursionDesired = True, dm_RecursionAvailable = True,
     dm_Rcode = RcodeSuccess, dm_Question = [q], dm_Answer = []\<rparr>"

section \<open>The resolver\<close>

record ('e, 's) pool =
  po_Prefix :: "'s \<Rightarrow> netip_prefix"
  po_GetDomainFromIP :: "'e \<Rightarrow> addr \<Rightarrow> 's \<Rightarrow> (string \<times> bool) \<times> 's"
  po_GetFakeIPForDomain :: "'e \<Rightarrow> string \<Rightarrow> 's \<Rightarrow> addr \<times> 's"

text \<open>A raw query of the upstream resolver: a message pointer and an error.\<close>

type_synonym raw_result = "dns_Msg option \<times> go_error option"

record ('e, 's) FakeDNS =
  fd_ops :: "('e, 's) pool"
  fd_ipv4 :: 's
  fd_ipv6 :: 's
  fd_Raw :: "DNSQuestion \<Rightarrow> raw_result"

definition fd_Equal :: "netip_prefix \<Rightarrow> netip_prefix \<Rightarrow> ('e, 's) FakeDNS \<Rightarrow> bool" where
  "fd_Equal ipRange ipv6Range f \<longleftrightarrow>
     prefix_Masked ipRange = prefix_Masked (po_Prefix (fd_ops f) (fd_ipv4 f)) \<and>
     prefix_Masked ipv6Range = prefix_Masked (po_Prefix (fd_ops f) (fd_ipv6 f))"

definition fd_Contains :: "addr \<Rightarrow> ('e, 's) FakeDNS \<Rightarrow> bool" where
  "fd_Contains ad f \<longleftrightarrow>
     prefix_Contains (po_Prefix (fd_ops f) (fd_ipv4 f)) (Unmap ad) \<or> prefix_Contains (po_Prefix (fd_ops f) (fd_ipv6 f)) (Unmap ad)"

definition fake4 :: "'e \<Rightarrow> string \<Rightarrow> ('e, 's) FakeDNS \<Rightarrow> addr \<times> ('e, 's) FakeDNS" where
  "fake4 e domain f = (case po_GetFakeIPForDomain (fd_ops f) e domain (fd_ipv4 f) of (a, s) \<Rightarrow> (a, f\<lparr>fd_ipv4 := s\<rparr>))"

definition fake6 :: "'e \<Rightarrow> string \<Rightarrow> ('e, 's) FakeDNS \<Rightarrow> addr \<times> ('e, 's) FakeDNS" where
  "fake6 e domain f = (case po_GetFakeIPForDomain (fd_ops f) e domain (fd_ipv6 f) of (a, s) \<Rightarrow> (a, f\<lparr>fd_ipv6 := s\<rparr>))"

definition no_such_host :: "string \<Rightarrow> go_error" where
  "no_such_host domain = ''lookup '' @ domain @ '': no such host''"

definition fd_LookupIP :: "'e \<Rightarrow> 'e \<Rightarrow> string \<Rightarrow> (LookupIPOption \<Rightarrow> LookupIPOption) list \<Rightarrow> ('e, 's) FakeDNS \<Rightarrow> ips_result \<times> ('e, 's) FakeDNS" where
  "fd_LookupIP e1 e2 domain opts f =
     (if \<not> IsDomainName domain then ((None, Some (no_such_host domain)), f)
      else
        let opt = fold (\<lambda>optf o1. optf o1) opts \<lparr>li_Mode = ResolverModeNoSpecified\<rparr> in
        case li_Mode opt of
          ResolverModePreferIPv4 \<Rightarrow> (case fake4 e1 domain f of (a, f) \<Rightarrow> ((Some \<lparr>AAAA = [], A_ips = [AsSlice a]\<rparr>, None), f))
        | ResolverModePreferIPv6 \<Rightarrow> (case fake6 e2 domain f of (a, f) \<Rightarrow> ((Some \<lparr>AAAA = [AsSlice a], A_ips = []\<rparr>, None), f))
        | ResolverModeNoSpecified \<Rightarrow>
            (case fake4 e1 domain f of (a, f) \<Rightarrow>
              (case fake6 e2 domain f of (b, f) \<Rightarrow> ((Some \<lparr>AAAA = [AsSlice b], A_ips = [AsSlice a]\<rparr>, None), f))))"

definition newAnswerMessage :: "DNSQuestion \<Rightarrow> u16 \<Rightarrow> (dns_header \<Rightarrow> dns_rr) list \<Rightarrow> dns_Msg" where
  "newAnswerMessage req code resource =
     (NewDNSMsg req)\<lparr>dm_RecursionDesired := False, dm_Rcode := code,
        dm_Answer := map (\<lambda>r. r \<lparr>dh_Name = dq_Name req, dh_Class = ClassINET, dh_TTL = 40\<rparr>) resource\<rparr>"

definition existAnswer :: "dns_Msg \<Rightarrow> u16 \<Rightarrow> bool" where
  "existAnswer msg t \<longleftrightarrow> (\<exists>a \<in> set (dm_Answer msg). RRToType a = t)"

text \<open>The hints go into the first HTTPS record.\<close>

fun append_hint :: "addr list \<Rightarrow> addr list \<Rightarrow> dns_rr list \<Rightarrow> dns_rr list" where
  "append_hint ipv4 ipv6 [] = []"
| "append_hint ipv4 ipv6 (v # vs) =
     (case v of
        RR_HTTPS h ps \<Rightarrow>
          RR_HTTPS h (ps @ (if length ipv4 > 0 then [IPV4HINT ipv4] else []) @ (if length ipv6 > 0 then [IPV6HINT ipv6] else [])) # vs
      | _ \<Rightarrow> v # append_hint ipv4 ipv6 vs)"

definition appendIPHint :: "dns_Msg \<Rightarrow> addr list \<Rightarrow> addr list \<Rightarrow> dns_Msg" where
  "appendIPHint msg ipv4 ipv6 =
     (if length ipv4 = 0 \<and> length ipv6 = 0 then msg else msg\<lparr>dm_Answer := append_hint ipv4 ipv6 (dm_Answer msg)\<rparr>)"

definition fd_GetDomainFromIP :: "'e \<Rightarrow> addr \<Rightarrow> ('e, 's) FakeDNS \<Rightarrow> (string \<times> bool) \<times> ('e, 's) FakeDNS" where
  "fd_GetDomainFromIP e ip f =
     (let ip = Unmap ip in
      if Is6 ip then (case po_GetDomainFromIP (fd_ops f) e ip (fd_ipv6 f) of (r, s) \<Rightarrow> (r, f\<lparr>fd_ipv6 := s\<rparr>))
      else (case po_GetDomainFromIP (fd_ops f) e ip (fd_ipv4 f) of (r, s) \<Rightarrow> (r, f\<lparr>fd_ipv4 := s\<rparr>)))"

text \<open>\<open>None\<close> is the error; a byte slice of another length gives the zero address.\<close>

definition fd_LookupPtr :: "'e \<Rightarrow> bytes \<Rightarrow> ('e, 's) FakeDNS \<Rightarrow> string option \<times> ('e, 's) FakeDNS" where
  "fd_LookupPtr e ip f =
     (case fd_GetDomainFromIP e (case AddrFromSlice ip of None \<Rightarrow> NoAddr 0 | Some a \<Rightarrow> a) f of
        ((r, ok), f) \<Rightarrow> (if ok then Some r else None, f))"

text \<open>
  \<open>skip\<close> is the option \<^verbatim>\<open>FakeIPSkipCheckUpstream\<close> of the context and \<open>ipv6\<close> the setting \<^verbatim>\<open>configuration.IPv6\<close>.
  The outer \<open>None\<close> is the nil dereference on an upstream answer with neither a message nor an error.
\<close>

definition fd_checked :: "bool \<Rightarrow> DNSQuestion \<Rightarrow> u16 \<Rightarrow> ('e, 's) FakeDNS \<Rightarrow> raw_result option option" where
  "fd_checked skip req t f =
     (if skip then Some None
      else case fd_Raw f req of
          (_, Some err) \<Rightarrow> Some (Some (None, Some err))
        | (None, None) \<Rightarrow> None
        | (Some msg, None) \<Rightarrow> Some (if \<not> existAnswer msg t then Some (Some msg, None) else None))"

definition fd_raw :: "bool \<Rightarrow> bool \<Rightarrow> 'e \<Rightarrow> 'e \<Rightarrow> DNSQuestion \<Rightarrow> ('e, 's) FakeDNS \<Rightarrow> (raw_result \<times> ('e, 's) FakeDNS) option" where
  "fd_raw skip ipv6 e1 e2 req f =
     (if dq_Qtype req \<notin> {TypeA, TypeAAAA, TypePTR, TypeHTTPS} then Some (fd_Raw f req, f)
      else if \<not> IsDomainName (dq_Name req) then Some ((Some (newAnswerMessage req RcodeNameError []), None), f)
      else
        let domain = butlast (dq_Name req) in
        if ParseIP domain \<noteq> None then Some (fd_Raw f req, f)
        else if dq_Qtype req = TypePTR then
          (case RetrieveIPFromPtr (dq_Name req) of
             None \<Rightarrow> Some ((Some (newAnswerMessage req RcodeNameError []), None), f)
           | Some ip \<Rightarrow>
               (case fd_LookupPtr e1 ip f of
                  (None, f) \<Rightarrow> Some (fd_Raw f req, f)
                | (Some d, f) \<Rightarrow> Some ((Some (newAnswerMessage req RcodeSuccess [\<lambda>h. RR_PTR h (AbsDomain d)]), None), f)))
        else if dq_Qtype req = TypeHTTPS then
          (case fd_Raw f req of
             (msg, Some err) \<Rightarrow> Some ((msg, Some err), f)
           | (msg, None) \<Rightarrow>
               (case fake6 e2 domain f of (b, f) \<Rightarrow>
                 (case fake4 e1 domain f of (a, f) \<Rightarrow>
                   (case msg of None \<Rightarrow> None | Some m \<Rightarrow> Some ((Some (appendIPHint m [a] [b]), None), f)))))
        else if dq_Qtype req = TypeAAAA then
          if \<not> ipv6 then Some ((Some (newAnswerMessage req RcodeSuccess []), None), f)
          else (case fd_checked skip req TypeAAAA f of
                  None \<Rightarrow> None
                | Some (Some r) \<Rightarrow> Some (r, f)
                | Some None \<Rightarrow> (case fake6 e2 domain f of (b, f) \<Rightarrow>
                    Some ((Some (newAnswerMessage req RcodeSuccess [\<lambda>h. RR_AAAA h b]), None), f)))
        else
          (case fd_checked skip req TypeA f of
             None \<Rightarrow> None
           | Some (Some r) \<Rightarrow> Some (r, f)
           | Some None \<Rightarrow> (case fake4 e1 domain f of (a, f) \<Rightarrow>
               Some ((Some (newAnswerMessage req RcodeSuccess [\<lambda>h. RR_A h a]), None), f))))"

section \<open>Reverse names of addresses\<close>

fun dotted :: "string list \<Rightarrow> string" where
  "dotted [] = []"
| "dotted [x] = x"
| "dotted (x # xs) = x @ CHR ''.'' # dotted xs"

text \<open>The reverse name of an address, as the DNS defines it.\<close>

fun ptr_name :: "addr \<Rightarrow> string" where
  "ptr_name (Addr4 w) = dotted (map (\<lambda>b. Itoa (unat b)) (rev (AsSlice (Addr4 w)))) @ arpaV4Suffix"
| "ptr_name (Addr6 w) =
     dotted (map (\<lambda>c. [c]) (concat (map (\<lambda>b. [hex_char (unat b mod 16), hex_char (unat b div 16)]) (rev (AsSlice (Addr6 w)))))) @ arpaV6Suffix"
| "ptr_name (NoAddr w) = []"

lemma split_on_front: "c \<notin> set x \<Longrightarrow> split_on c (x @ c # r) = x # split_on c r"
  by (induction x) auto

lemma split_on_dotted: "xs \<noteq> [] \<Longrightarrow> (\<And>x. x \<in> set xs \<Longrightarrow> CHR ''.'' \<notin> set x) \<Longrightarrow> split_on (CHR ''.'') (dotted xs) = xs"
  by (induction xs rule: dotted.induct) (simp_all add: split_on_front split_on_no_sep)

lemma ptr_labels_Itoa:
  "length acc + length bs \<le> 4 \<Longrightarrow> ptr_labels (map (\<lambda>b :: u8. Itoa (unat b)) bs) acc = Some (acc @ bs)"
proof (induction bs arbitrary: acc)
  case (Cons b bs)
  have "unat b < 256" using unsigned_less [of b, where 'a = nat] by simp
  then have "ParseUint8 (Itoa (unat b)) = Some (unat b)" by (simp add: ParseUint8_def ParseUint16_Itoa)
  then show ?case using Cons.IH [of "acc @ [b]"] Cons.prems by simp
qed simp

lemma length_dotted_chars: "cs \<noteq> [] \<Longrightarrow> length (dotted (map (\<lambda>c. [c]) cs)) = 2 * length cs - 1"
proof (induction cs)
  case (Cons c cs)
  then show ?case by (cases cs) auto
qed simp

lemma nth_dotted_chars: "k < length cs \<Longrightarrow> dotted (map (\<lambda>c. [c]) cs) ! (2 * k) = cs ! k"
proof (induction cs arbitrary: k)
  case (Cons c cs)
  then show ?case by (cases cs; cases k) auto
qed simp

lemma nth_concat_pairs: "j < length xs \<Longrightarrow> concat (map (\<lambda>b. [f b, g b]) xs) ! (2 * j) = f (xs ! j) \<and>
    concat (map (\<lambda>b. [f b, g b]) xs) ! (2 * j + 1) = g (xs ! j)"
proof (induction xs arbitrary: j)
  case (Cons x xs)
  then show ?case by (cases j) auto
qed simp

lemma fromHexByte_hex_char:
  assumes "n < 16"
  shows "fromHexByte (hex_char n) = of_nat n"
proof (cases "n < 10")
  case True
  then have "byte_of (hex_char n) = 48 + n" by (simp add: hex_char_def byte_of_def)
  then show ?thesis using True by (simp add: fromHexByte_def byte_of_def)
next
  case False
  then have "byte_of (hex_char n) = 87 + n" using assms by (simp add: hex_char_def byte_of_def)
  then show ?thesis using assms False by (simp add: fromHexByte_def byte_of_def)
qed

lemma hex_pair: "fromHexByte (hex_char (unat b div 16)) * 16 + fromHexByte (hex_char (unat b mod 16)) = b" for b :: u8
proof -
  have "unat b < 256" using unsigned_less [of b, where 'a = nat] by simp
  then have "fromHexByte (hex_char (unat b div 16)) * 16 + fromHexByte (hex_char (unat b mod 16)) = of_nat (unat b div 16) * 16 + of_nat (unat b mod 16)"
    by (simp add: fromHexByte_hex_char less_mult_imp_div_less)
  also have "\<dots> = of_nat (unat b div 16 * 16 + unat b mod 16)" by (simp only: of_nat_add of_nat_mult of_nat_numeral)
  finally show ?thesis by (simp only: div_mult_mod_eq of_nat_unat ucast_id)
qed

lemma HasSuffix_append [simp]: "HasSuffix (s @ p) p"
  by (simp add: HasSuffix_def is_prefix_def)

lemma ptr4_bytes:
  assumes len: "length bs = 4"
  shows "RetrieveIPFromPtr (dotted (map (\<lambda>b. Itoa (unat b)) (rev bs)) @ arpaV4Suffix) = Some bs"
proof -
  let ?t = "dotted (map (\<lambda>b. Itoa (unat b)) (rev bs))"
  have "CHR ''.'' \<notin> set (Itoa k)" for k using Itoa_digits [of "CHR ''.''" k] by (auto simp: is_digit_def byte_of_def)
  then have "split_on (CHR ''.'') ?t = map (\<lambda>b. Itoa (unat b)) (rev bs)" using len by (intro split_on_dotted) auto
  then have l: "ptr_labels (Split ?t (CHR ''.'')) [] = Some (rev bs)" using ptr_labels_Itoa [of "[]" "rev bs"] len by (simp add: Split_def)
  have s: "\<not> HasSuffix (?t @ arpaV4Suffix) arpaV6Suffix" by (simp add: HasSuffix_def is_prefix_def arpaV4Suffix_def arpaV6Suffix_def)
  obtain b0 b1 b2 b3 where bs: "bs = [b0, b1, b2, b3]" using len by (auto simp: numeral_eq_Suc length_Suc_conv)
  have t: "take (length (?t @ arpaV4Suffix) - length arpaV4Suffix) (?t @ arpaV4Suffix) = ?t" by simp
  show ?thesis unfolding RetrieveIPFromPtr_def t l using s HasSuffix_append [of ?t arpaV4Suffix]
    by (simp only: simp_thms if_False if_True option.case) (simp add: bs)
qed

lemma ptr6_bytes:
  assumes len: "length bs = 16"
  shows "RetrieveIPFromPtr (dotted (map (\<lambda>c. [c]) (concat (map (\<lambda>b. [hex_char (unat b mod 16), hex_char (unat b div 16)]) (rev bs)))) @ arpaV6Suffix) = Some bs"
    (is "RetrieveIPFromPtr ?n = _")
proof -
  let ?cs = "concat (map (\<lambda>b. [hex_char (unat b mod 16), hex_char (unat b div 16)]) (rev bs))"
  let ?t = "dotted (map (\<lambda>c. [c]) ?cs)"
  have lc: "length ?cs = 32" using len by (simp add: length_concat o_def sum_list_triv)
  then have "?cs \<noteq> []" by (metis list.size(3) zero_neq_numeral)
  then have lt: "length ?t = 63" unfolding length_dotted_chars [OF \<open>?cs \<noteq> []\<close>] lc by simp
  have nib: "?n ! (62 - i * 4) = hex_char (unat (bs ! i) div 16)" "?n ! (62 - i * 4 - 2) = hex_char (unat (bs ! i) mod 16)" if i: "i < 16" for i
  proof -
    have e: "62 - i * 4 = 2 * (2 * (15 - i) + 1)" "62 - i * 4 - 2 = 2 * (2 * (15 - i))" using i by auto
    have r: "rev bs ! (15 - i) = bs ! i" using i len by (simp add: rev_nth)
    have "?n ! (2 * (2 * (15 - i) + 1)) = ?cs ! (2 * (15 - i) + 1)" using lt lc i nth_dotted_chars [of "2 * (15 - i) + 1" ?cs]
      by (subst nth_append) auto
    then show "?n ! (62 - i * 4) = hex_char (unat (bs ! i) div 16)" unfolding e
      using nth_concat_pairs [of "15 - i" "rev bs" "\<lambda>b. hex_char (unat b mod 16)" "\<lambda>b. hex_char (unat b div 16)"] len i r by simp
    have "?n ! (2 * (2 * (15 - i))) = ?cs ! (2 * (15 - i))" using lt lc i nth_dotted_chars [of "2 * (15 - i)" ?cs]
      by (subst nth_append) auto
    then show "?n ! (62 - i * 4 - 2) = hex_char (unat (bs ! i) mod 16)" unfolding e
      using nth_concat_pairs [of "15 - i" "rev bs" "\<lambda>b. hex_char (unat b mod 16)" "\<lambda>b. hex_char (unat b div 16)"] len i r by simp
  qed
  have "map (\<lambda>i. fromHexByte (?n ! (62 - i * 4)) * 16 + fromHexByte (?n ! (62 - i * 4 - 2))) [0..<16] = map (\<lambda>i. bs ! i) [0..<16]"
    by (rule map_cong [OF refl]) (simp only: set_upt atLeastLessThan_iff nib hex_pair)
  also have "\<dots> = bs" using len map_nth [of bs] by simp
  finally have m: "map (\<lambda>i. fromHexByte (?n ! (62 - i * 4)) * 16 + fromHexByte (?n ! (62 - i * 4 - 2))) [0..<16] = bs" .
  have "length ?n - length arpaV6Suffix = 63" using lt by simp
  then show ?thesis unfolding RetrieveIPFromPtr_def m by simp
qed

lemma RetrieveIPFromPtr_name:
  assumes "addr_IsValid a"
  shows "RetrieveIPFromPtr (ptr_name a) = Some (AsSlice a)"
proof (cases a)
  case (Addr4 w)
  show ?thesis unfolding Addr4 ptr_name.simps by (rule ptr4_bytes) simp
next
  case (Addr6 w)
  show ?thesis unfolding Addr6 ptr_name.simps by (rule ptr6_bytes) simp
qed (use assms in simp)

text \<open>C34: The reverse name of an address is read back as the bytes of the address.\<close>

theorem ptr_roundtrip:
  assumes "addr_IsValid a"
  shows "RetrieveIPFromPtr (ptr_name a) = Some (AsSlice a)"
  using assms by (rule RetrieveIPFromPtr_name)

theorem ptr_roundtrip_witness:
  "RetrieveIPFromPtr (ptr_name (Addr4 0x0A020001)) = Some (AsSlice (Addr4 0x0A020001))"
  using ptr_roundtrip [of "Addr4 0x0A020001"] by (simp del: ptr_name.simps AsSlice.simps)

section \<open>The contract of a pool\<close>

text \<open>\<open>good e\<close>: the lookup of an address works in the environment \<open>e\<close>.\<close>

locale fake_pool =
  fixes ops :: "('e, 's) pool" and pinv :: "'s \<Rightarrow> bool" and good :: "'e \<Rightarrow> bool"
  assumes get_inv: "pinv s \<Longrightarrow> pinv (snd (po_GetFakeIPForDomain ops e d s))"
    and get_prefix: "pinv s \<Longrightarrow> po_Prefix ops (snd (po_GetFakeIPForDomain ops e d s)) = po_Prefix ops s"
    and domain_inv: "pinv s \<Longrightarrow> pinv (snd (po_GetDomainFromIP ops e a s))"
    and domain_prefix: "pinv s \<Longrightarrow> po_Prefix ops (snd (po_GetDomainFromIP ops e a s)) = po_Prefix ops s"
    and get_domain: "pinv s \<Longrightarrow> po_GetFakeIPForDomain ops e d s = (a, s') \<Longrightarrow> a \<noteq> NoAddr 0 \<Longrightarrow>
      prefix_Contains (po_Prefix ops s) a \<and> (good e' \<longrightarrow> fst (po_GetDomainFromIP ops e' a s') = (d, True))"

text \<open>A resolver over pools that keep the invariant, one for each family.\<close>

definition fake_dns_ok :: "('e, 's) pool \<Rightarrow> ('s \<Rightarrow> bool) \<Rightarrow> ('e, 's) FakeDNS \<Rightarrow> bool" where
  "fake_dns_ok ops pinv f \<longleftrightarrow> fd_ops f = ops \<and> pinv (fd_ipv4 f) \<and> pinv (fd_ipv6 f) \<and>
     Is4 (pAddr (po_Prefix ops (fd_ipv4 f))) \<and> Is6 (pAddr (po_Prefix ops (fd_ipv6 f)))"

lemma Contains_family: "prefix_Contains p a \<Longrightarrow> Is4 (pAddr p) = Is4 a \<and> Is6 (pAddr p) = Is6 a"
  by (cases "pAddr p"; cases a) (simp_all add: prefix_Contains_def)

lemma Unmap_Is4: "Is4 a \<Longrightarrow> Unmap a = a"
  by (cases a) simp_all

context fake_pool
begin

lemma fake4_ok:
  assumes f: "fake_dns_ok ops pinv f" and r: "fake4 e d f = (a, f')"
  shows "fake_dns_ok ops pinv f'" "po_Prefix ops (fd_ipv6 f') = po_Prefix ops (fd_ipv6 f)" "po_Prefix ops (fd_ipv4 f') = po_Prefix ops (fd_ipv4 f)"
  using f r get_inv [of "fd_ipv4 f" e d] get_prefix [of "fd_ipv4 f" e d] by (auto simp: fake_dns_ok_def fake4_def split: prod.splits)

lemma fake6_ok:
  assumes f: "fake_dns_ok ops pinv f" and r: "fake6 e d f = (a, f')"
  shows "fake_dns_ok ops pinv f'" "po_Prefix ops (fd_ipv6 f') = po_Prefix ops (fd_ipv6 f)" "po_Prefix ops (fd_ipv4 f') = po_Prefix ops (fd_ipv4 f)"
  using f r get_inv [of "fd_ipv6 f" e d] get_prefix [of "fd_ipv6 f" e d] by (auto simp: fake_dns_ok_def fake6_def split: prod.splits)

lemma fake4_reverse:
  assumes f: "fake_dns_ok ops pinv f" and r: "fake4 e d f = (a, f')" and a: "a \<noteq> NoAddr 0" and g: "good e'"
  shows "Is4 a \<and> fd_Contains a f' \<and> fst (fd_GetDomainFromIP e' a f') = (d, True)"
proof -
  obtain s' where s: "po_GetFakeIPForDomain ops e d (fd_ipv4 f) = (a, s')" "f' = f\<lparr>fd_ipv4 := s'\<rparr>" "fd_ops f = ops" "pinv (fd_ipv4 f)"
    "Is4 (pAddr (po_Prefix ops (fd_ipv4 f)))"
    using f r by (auto simp: fake_dns_ok_def fake4_def split: prod.splits)
  have c: "prefix_Contains (po_Prefix ops (fd_ipv4 f)) a" and d: "fst (po_GetDomainFromIP ops e' a s') = (d, True)"
    using get_domain [OF s(4,1) a] g by auto
  have "po_Prefix ops s' = po_Prefix ops (fd_ipv4 f)" using get_prefix [OF s(4), of e d] s(1) by simp
  moreover have "Is4 a" using Contains_family [OF c] s(5) by simp
  moreover from this have "\<not> Is6 a" by (cases a) simp_all
  ultimately show ?thesis using c d s Unmap_Is4 [of a]
    by (cases "po_GetDomainFromIP ops e' a s'") (simp add: fd_Contains_def fd_GetDomainFromIP_def)
qed

lemma fake6_reverse:
  assumes f: "fake_dns_ok ops pinv f" and r: "fake6 e d f = (a, f')" and a: "a \<noteq> NoAddr 0" "\<not> Is4In6 a" and g: "good e'"
  shows "Is6 a \<and> fd_Contains a f' \<and> fst (fd_GetDomainFromIP e' a f') = (d, True)"
proof -
  obtain s' where s: "po_GetFakeIPForDomain ops e d (fd_ipv6 f) = (a, s')" "f' = f\<lparr>fd_ipv6 := s'\<rparr>" "fd_ops f = ops" "pinv (fd_ipv6 f)"
    "Is6 (pAddr (po_Prefix ops (fd_ipv6 f)))"
    using f r by (auto simp: fake_dns_ok_def fake6_def split: prod.splits)
  have c: "prefix_Contains (po_Prefix ops (fd_ipv6 f)) a" and d: "fst (po_GetDomainFromIP ops e' a s') = (d, True)"
    using get_domain [OF s(4,1) a(1)] g by auto
  have "po_Prefix ops s' = po_Prefix ops (fd_ipv6 f)" using get_prefix [OF s(4), of e d] s(1) by simp
  moreover have "Is6 a" using Contains_family [OF c] s(5) by simp
  moreover from this have "Unmap a = a" using a(2) by (cases a) auto
  ultimately show ?thesis using c d s
    by (cases "po_GetDomainFromIP ops e' a s'") (simp add: fd_Contains_def fd_GetDomainFromIP_def)
qed

end

section \<open>The persistent pools\<close>

type_synonym pool_env = "db_ok \<times> int \<times> int"

definition sqlite_pool :: "(pool_env, SQLiteFakeIPPool) pool" where
  "sqlite_pool = \<lparr>po_Prefix = fp_prefix,
     po_GetDomainFromIP = (\<lambda>(ok, now1, now2) a p. GetDomainFromIP (ok_lookup1 ok) now1 a p),
     po_GetFakeIPForDomain = (\<lambda>(ok, now1, now2) d p. GetFakeIPForDomain ok now1 now2 d p)\<rparr>"

text \<open>The rows of the two prefixes in the database are arguments.\<close>

definition fd_NewFakeDNS ::
  "(DNSQuestion \<Rightarrow> raw_result) \<Rightarrow> netip_prefix \<Rightarrow> fakeip_entry list \<times> (bytes \<times> u64) option \<Rightarrow>
     netip_prefix \<Rightarrow> fakeip_entry list \<times> (bytes \<times> u64) option \<Rightarrow> (pool_env, SQLiteFakeIPPool) FakeDNS" where
  "fd_NewFakeDNS upStreamDo ipRange t4 ipv6Range t6 =
     \<lparr>fd_ops = sqlite_pool, fd_ipv4 = newSQLiteFakeIPPool ipRange 655535 (fst t4) (snd t4),
      fd_ipv6 = newSQLiteFakeIPPool ipv6Range 655535 (fst t6) (snd t6), fd_Raw = upStreamDo\<rparr>"

lemma pool_roundtrip:
  assumes i: "pool_inv p" and r: "GetFakeIPForDomain ok now1 now2 d p = (a, q)" and a: "a \<noteq> NoAddr 0"
  shows "prefix_Contains (fp_prefix p) a \<and> fst (GetDomainFromIP True now a q) = (d, True)"
proof -
  from GetFakeIP_ok [OF i r] a obtain e where q: "pool_inv q" "fp_prefix q = fp_prefix p" and c: "prefix_Contains (fp_prefix p) a"
    and e: "e \<in> set (fp_entries q)" "fe_domain e = d" "fe_ip e = AsSlice a" by blast
  have eo: "entries_ok (fp_prefix q) (unat (fp_maxNum q)) (fp_entries q)" using q by (simp add: pool_inv_def)
  show ?thesis using find_domain(2) [OF eo e(1)] e c q by (simp add: GetDomainFromIP_def)
qed

interpretation sp: fake_pool sqlite_pool pool_inv "\<lambda>(ok, _, _). ok_lookup1 ok"
proof
  fix s s' :: SQLiteFakeIPPool and e e' :: pool_env and d a
  assume i: "pool_inv s"
  obtain ok t1 t2 where e: "e = (ok, t1, t2)" by (cases e)
  obtain b q where q: "GetFakeIPForDomain ok t1 t2 d s = (b, q)" by fastforce
  show "pool_inv (snd (po_GetFakeIPForDomain sqlite_pool e d s))"
    "po_Prefix sqlite_pool (snd (po_GetFakeIPForDomain sqlite_pool e d s)) = po_Prefix sqlite_pool s"
    using GetFakeIP_ok [OF i q] q by (simp_all add: sqlite_pool_def e)
  show "pool_inv (snd (po_GetDomainFromIP sqlite_pool e a s))"
    "po_Prefix sqlite_pool (snd (po_GetDomainFromIP sqlite_pool e a s)) = po_Prefix sqlite_pool s"
    using i pool_inv_same [OF GetDomainFromIP_same [of s "ok_lookup1 ok" t1 a]] GetDomainFromIP_same [of s "ok_lookup1 ok" t1 a]
    by (simp_all add: sqlite_pool_def e same_pool_def)
  assume r: "po_GetFakeIPForDomain sqlite_pool e d s = (a, s')" and n: "a \<noteq> NoAddr 0"
  have "GetFakeIPForDomain ok t1 t2 d s = (a, s')" using r by (simp add: sqlite_pool_def e)
  from pool_roundtrip [OF i this n]
  show "prefix_Contains (po_Prefix sqlite_pool s) a \<and>
      ((case e' of (ok, _, _) \<Rightarrow> ok_lookup1 ok) \<longrightarrow> fst (po_GetDomainFromIP sqlite_pool e' a s') = (d, True))"
    by (cases e') (simp add: sqlite_pool_def)
qed

end
