(* ===== verification/Domain_Trie_V1.thy ===== *)
theory Domain_Trie_V1
  imports Domain_Trie
begin

text \<open>
  The domain trie of the first version (\<^verbatim>\<open>pkg/net/trie/domain\<close>: \<^verbatim>\<open>trie.go\<close>, \<^verbatim>\<open>domain.go\<close>), which the fake DNS
  resolver uses for its white lists and the TLS and reverse proxies for their host tables. A node has one
  symbol: none, the end of a name, or a wildcard for the names below it. The label reader has the
  operations of the reader of the second version, and \<^verbatim>\<open>last\<close>.
\<close>

section \<open>Nodes\<close>

datatype symbol = NoSymbol | Last | Wildcard

datatype 'a strie = STrie (st_Value: "'a option") (st_Child: "(string \<times> 'a strie) list") (st_Symbol: symbol)

definition st_empty :: "'a strie" where
  "st_empty = STrie None [] NoSymbol"

definition rd_last :: "fqdnReader \<Rightarrow> bool" where
  "rd_last z \<longleftrightarrow> pre z = 0"

definition st_child :: "string \<Rightarrow> 'a strie \<Rightarrow> 'a strie option" where
  "st_child s d = map_of (st_Child d) s"

definition st_child_insert :: "string \<Rightarrow> 'a strie \<Rightarrow> 'a strie" where
  "st_child_insert s d = (case st_child s d of None \<Rightarrow> st_empty | Some c \<Rightarrow> c)"

definition st_put :: "string \<Rightarrow> 'a strie \<Rightarrow> 'a strie \<Rightarrow> 'a strie" where
  "st_put s c d = STrie (st_Value d) (AList.update s c (st_Child d)) (st_Symbol d)"

definition st_delete :: "string \<Rightarrow> 'a strie \<Rightarrow> 'a strie" where
  "st_delete s d = STrie (st_Value d) (AList.delete s (st_Child d)) (st_Symbol d)"

definition st_mark :: "symbol \<Rightarrow> 'a \<Rightarrow> 'a strie \<Rightarrow> 'a strie" where
  "st_mark y mark d = STrie (Some mark) (st_Child d) y"

section \<open>Search, insert and remove\<close>

text \<open>The result is \<open>None\<close> when \<^verbatim>\<open>ok\<close> is false.\<close>

function st_search :: "'a strie \<Rightarrow> fqdnReader \<Rightarrow> bool \<Rightarrow> bool \<Rightarrow> 'a option \<Rightarrow> 'a option" where
  "st_search root z first asterisk t =
     (if rd_hasNext z then
        case st_child (rd_str z) root of
          None \<Rightarrow>
            if \<not> first then t
            else if asterisk then st_search root (snd (rd_next z)) first asterisk t
            else (case st_child star root of
                    None \<Rightarrow> t
                  | Some w \<Rightarrow> st_search w z first True t)
        | Some r \<Rightarrow>
            (case st_Symbol r of
               Wildcard \<Rightarrow> st_search r (snd (rd_next z)) False asterisk (st_Value r)
             | Last \<Rightarrow> if rd_last z then st_Value r else st_search r (snd (rd_next z)) False asterisk t
             | NoSymbol \<Rightarrow> st_search r (snd (rd_next z)) False asterisk t)
      else t)"
  by auto
termination
  by (relation "measures [\<lambda>(_, z, _, _, _). rd_left z, \<lambda>(_, _, _, asterisk, _). if asterisk then 0 else 1]") auto

declare st_search.simps [simp del]

function st_insert :: "'a strie \<Rightarrow> fqdnReader \<Rightarrow> 'a \<Rightarrow> 'a strie" where
  "st_insert node z mark =
     (if rd_hasNext z then
        if rd_last z \<and> rd_str z = star then st_mark Wildcard mark node
        else
          let c = st_child_insert (rd_str z) node;
              c = (if rd_last z then st_mark Last mark c else c)
          in st_put (rd_str z) (st_insert c (snd (rd_next z)) mark) node
      else node)"
  by auto
termination by (relation "measure (\<lambda>(_, z, _). rd_left z)") auto

declare st_insert.simps [simp del]

text \<open>
  The removal; \<open>None\<close> is an early return. \<open>st_unmark\<close> is what happens at the node reached: a node without
  children keeps its symbol, since the loop that follows only unlinks such nodes. The loop goes up from
  it and unlinks every node without children from its parent, except from the root; it stops at the first
  node with children, whose ancestors have children too.
\<close>

definition st_unmark :: "'a strie \<Rightarrow> 'a strie option" where
  "st_unmark node =
     (if st_Symbol node = NoSymbol then None
      else if st_Child node \<noteq> [] then Some (STrie (st_Value node) (st_Child node) NoSymbol)
      else Some node)"

function st_remove :: "nat \<Rightarrow> 'a strie \<Rightarrow> fqdnReader \<Rightarrow> 'a strie option" where
  "st_remove depth node z =
     (if rd_hasNext z then
        case st_child (rd_str z) node of
          None \<Rightarrow> if rd_str z = star \<and> st_Symbol node = Wildcard then st_unmark node else None
        | Some c \<Rightarrow>
            (case st_remove (Suc depth) c (snd (rd_next z)) of
               None \<Rightarrow> None
             | Some c' \<Rightarrow>
                 Some (if st_Child c' = [] \<and> 0 < depth then st_delete (rd_str z) node else st_put (rd_str z) c' node))
      else st_unmark node)"
  by auto
termination by (relation "measure (\<lambda>(_, _, z). rd_left z)") auto

declare st_remove.simps [simp del]

section \<open>The matcher\<close>

record 'a sfqdn =
  sRoot :: "'a strie"
  sseparate :: char

definition sq_NewTrie :: "'a sfqdn" where
  "sq_NewTrie = \<lparr>sRoot = st_empty, sseparate = CHR ''.''\<rparr>"

definition sq_Insert :: "string \<Rightarrow> 'a \<Rightarrow> 'a sfqdn \<Rightarrow> 'a sfqdn" where
  "sq_Insert domain mark d =
     (if length domain = 0 then d
      else d\<lparr>sRoot := st_insert (sRoot d) (newReader domain (sseparate d)) mark\<rparr>)"

definition sq_SearchString :: "'a sfqdn \<Rightarrow> string \<Rightarrow> 'a option" where
  "sq_SearchString d domain = st_search (sRoot d) (newReader domain (sseparate d)) True False None"

definition sq_Remove :: "string \<Rightarrow> 'a sfqdn \<Rightarrow> 'a sfqdn" where
  "sq_Remove domain d =
     (if length domain = 0 then d
      else case st_remove 0 (sRoot d) (newReader domain (sseparate d)) of
          None \<Rightarrow> d
        | Some r \<Rightarrow> d\<lparr>sRoot := r\<rparr>)"

definition sq_Clear :: "'a sfqdn \<Rightarrow> 'a sfqdn" where
  "sq_Clear d = d\<lparr>sRoot := st_empty\<rparr>"

definition sq_SetSeparate :: "char \<Rightarrow> 'a sfqdn \<Rightarrow> 'a sfqdn" where
  "sq_SetSeparate b d = d\<lparr>sseparate := b\<rparr>"

section \<open>The operations on lists of labels\<close>

fun walk :: "'a strie \<Rightarrow> string list \<Rightarrow> 'a option \<Rightarrow> 'a option" where
  "walk t [] best = best"
| "walk t (l # ls) best =
     (case st_child l t of
        None \<Rightarrow> best
      | Some r \<Rightarrow>
          if st_Symbol r = Last \<and> ls = [] then st_Value r
          else walk r ls (if st_Symbol r = Wildcard then st_Value r else best))"

fun skip_walk :: "'a strie \<Rightarrow> string list \<Rightarrow> 'a option" where
  "skip_walk w [] = None"
| "skip_walk w (l # ls) = (case st_child l w of None \<Rightarrow> skip_walk w ls | Some _ \<Rightarrow> walk w (l # ls) None)"

fun sins :: "'a strie \<Rightarrow> string list \<Rightarrow> 'a \<Rightarrow> 'a strie" where
  "sins t [] m = t"
| "sins t (l # ls) m =
     (if ls = [] then
        if l = star then st_mark Wildcard m t else st_put l (st_mark Last m (st_child_insert l t)) t
      else st_put l (sins (st_child_insert l t) ls m) t)"

lemma rd_pre_next: "0 \<le> pre z \<Longrightarrow> 0 \<le> pre (snd (rd_next z))"
  using LastIndexByte_bounds(1) by (auto simp: rd_next_def Let_def) (smt (verit))

lemma rd_last_iff: "0 \<le> pre z \<Longrightarrow> rd_last z \<longleftrightarrow> rd_labels (snd (rd_next z)) = []"
  by (subst rd_labels.simps) (auto simp: rd_last_def rd_next_def rd_hasNext_def Let_def)

lemma st_search_walk: "0 \<le> pre z \<Longrightarrow> st_search t z False a best = walk t (rd_labels z) best"
proof (induction t z "False" a best rule: st_search.induct)
  case (1 root z a t)
  show ?case
  proof (cases "rd_hasNext z")
    case True
    then have l: "rd_labels z = rd_str z # rd_labels (snd (rd_next z))" by (rule rd_labels_Cons)
    note p = rd_pre_next [OF 1(6)]
    show ?thesis
    proof (cases "st_child (rd_str z) root")
      case None
      then show ?thesis using True l by (simp add: st_search.simps [of root z])
    next
      case (Some r)
      then show ?thesis using True l 1(3-5) p rd_last_iff [OF 1(6)]
        by (cases "st_Symbol r") (simp_all add: st_search.simps [of root z])
    qed
  qed (simp add: st_search.simps [of root z] rd_labels_Nil)
qed

lemma st_search_found:
  assumes "0 \<le> pre z" "rd_hasNext z" "st_child (rd_str z) t = Some r"
  shows "st_search t z f a best = walk t (rd_labels z) best"
  using assms(2,3) rd_labels_Cons [OF assms(2)] rd_last_iff [OF assms(1)]
  by (cases "st_Symbol r") (simp_all add: st_search.simps [of t z] st_search_walk [OF rd_pre_next [OF assms(1)]])

lemma st_search_skip: "0 \<le> pre z \<Longrightarrow> st_search w z True True None = skip_walk w (rd_labels z)"
proof (induction "rd_left z" arbitrary: z rule: less_induct)
  case less
  show ?case
  proof (cases "rd_hasNext z")
    case True
    have l: "rd_labels z = rd_str z # rd_labels (snd (rd_next z))" using True by (rule rd_labels_Cons)
    show ?thesis
    proof (cases "st_child (rd_str z) w")
      case None
      then show ?thesis using True l less.hyps [OF rd_next_decreases [OF True] rd_pre_next [OF less.prems]]
        by (simp add: st_search.simps [of w z])
    next
      case (Some r)
      then show ?thesis using st_search_found [OF less.prems True Some] l by simp
    qed
  qed (simp add: st_search.simps [of w z] rd_labels_Nil)
qed

definition st_find :: "'a strie \<Rightarrow> string list \<Rightarrow> 'a option" where
  "st_find t ls =
     (if st_child (hd ls) t \<noteq> None then walk t ls None
      else case st_child star t of None \<Rightarrow> None | Some w \<Rightarrow> skip_walk w ls)"

lemma newReader_pre: "0 \<le> pre (newReader d c)" "rd_hasNext (newReader d c)"
  using LastIndexByte_bounds(1) [of d c] by (simp_all add: newReader_def rd_hasNext_def)

lemma st_search_find: "st_search t (newReader d c) True False None = st_find t (labels c d)"
proof -
  let ?z = "newReader d c"
  note n = newReader_pre [of d c]
  have l: "labels c d = rd_str ?z # rd_labels (snd (rd_next ?z))" using rd_labels_Cons [OF n(2)] by simp
  show ?thesis
  proof (cases "st_child (rd_str ?z) t")
    case None
    then show ?thesis using n l by (simp add: st_search.simps [of t ?z] st_find_def st_search_skip split: option.splits)
  next
    case (Some r)
    then show ?thesis using st_search_found [OF n Some] l by (simp add: st_find_def)
  qed
qed

lemma st_insert_sins: "0 \<le> pre z \<Longrightarrow> st_insert t z m = sins t (rd_labels z) m"
proof (induction t z m rule: st_insert.induct)
  case (1 t z m)
  show ?case
  proof (cases "rd_hasNext z")
    case True
    note l = rd_labels_Cons [OF True]
    show ?thesis
    proof (cases "rd_last z")
      case last: True
      then have "\<not> rd_hasNext (snd (rd_next z))" using rd_last_iff [OF 1(2)] rd_labels_Cons by fastforce
      then show ?thesis using True last l rd_last_iff [OF 1(2)]
        by (simp add: st_insert.simps [of t z] st_insert.simps [of _ "snd (rd_next z)"] Let_def)
    next
      case False
      then show ?thesis using True l rd_last_iff [OF 1(2)] 1(1) [OF True _ refl refl] rd_pre_next [OF 1(2)]
        by (simp add: st_insert.simps [of t z] Let_def)
    qed
  qed (simp add: st_insert.simps [of t z] rd_labels_Nil)
qed

section \<open>Nodes by label path\<close>

fun st_at :: "'a strie \<Rightarrow> string list \<Rightarrow> (symbol \<times> 'a option) option" where
  "st_at t [] = Some (st_Symbol t, st_Value t)"
| "st_at t (l # ls) = (case st_child l t of None \<Rightarrow> None | Some c \<Rightarrow> st_at c ls)"

lemma st_simps [simp]:
  "st_child l' (st_put l c t) = (if l' = l then Some c else st_child l' t)"
  "st_child l' (st_delete l t) = (if l' = l then None else st_child l' t)"
  "st_Symbol (st_put l c t) = st_Symbol t" "st_Value (st_put l c t) = st_Value t"
  "st_child l (st_mark y m t) = st_child l t" "st_Symbol (st_mark y m t) = y" "st_Value (st_mark y m t) = Some m"
  "st_child l st_empty = None" "st_Symbol st_empty = NoSymbol" "st_Value st_empty = None"
  by (auto simp: st_child_def st_put_def st_delete_def st_empty_def st_mark_def update_conv delete_conv)

text \<open>The path and the symbol of an inserted name.\<close>

definition entry_path :: "string list \<Rightarrow> string list" where
  "entry_path ls = (if last ls = star then butlast ls else ls)"

definition entry_symbol :: "string list \<Rightarrow> symbol" where
  "entry_symbol ls = (if last ls = star then Wildcard else Last)"

lemma entry_simps [simp]:
  "entry_path [l] = (if l = star then [] else [l])" "entry_symbol [l] = (if l = star then Wildcard else Last)"
  "ls \<noteq> [] \<Longrightarrow> entry_path (l # ls) = l # entry_path ls" "ls \<noteq> [] \<Longrightarrow> entry_symbol (l # ls) = entry_symbol ls"
  by (auto simp: entry_path_def entry_symbol_def)

lemma st_at_child_insert [simp]:
  "st_at (st_child_insert l t) q = (case st_at t (l # q) of None \<Rightarrow> if q = [] then Some (NoSymbol, None) else None | Some x \<Rightarrow> Some x)"
  if "st_child l t = None \<or> st_at t (l # q) \<noteq> None \<or> q \<noteq> []"
  using that by (cases q) (auto simp: st_child_insert_def split: option.splits)

lemma st_at_sins:
  "ls \<noteq> [] \<Longrightarrow> st_at (sins t ls m) q =
     (if q = entry_path ls then Some (entry_symbol ls, Some m)
      else if st_at t q = None \<and> prefix q (entry_path ls) then Some (NoSymbol, None) else st_at t q)"
proof (induction ls arbitrary: t q)
  case (Cons l ls)
  show ?case
  proof (cases q)
    case Nil
    then show ?thesis by (cases "ls = []") auto
  next
    case q: (Cons x xs)
    show ?thesis
    proof (cases "ls = []")
      case True
      then show ?thesis using q by (cases xs) (auto simp: st_child_insert_def split: option.splits)
    next
      case False
      show ?thesis
      proof (cases "x = l")
        case x: True
        then show ?thesis using q False Cons.IH [of "st_child_insert l t" xs]
          by (cases "st_child l t"; cases xs) (auto simp: st_child_insert_def)
      next
        case x: False
        then show ?thesis using q False by simp
      qed
    qed
  qed
qed simp

section \<open>The specification\<close>

text \<open>
  The wildcards on the way to a path, from the top, for any assignment of symbols to paths.
\<close>

definition wildcards :: "(string list \<Rightarrow> (symbol \<times> 'b) option) \<Rightarrow> string list \<Rightarrow> 'b list" where
  "wildcards f ls = List.map_filter (\<lambda>k. case f (take k ls) of Some (Wildcard, v) \<Rightarrow> Some v | _ \<Rightarrow> None) [1..<Suc (length ls)]"

lemma wildcards_Nil [simp]: "wildcards f [] = []"
  by (simp add: wildcards_def)

lemma wildcards_Cons:
  "wildcards f (l # ls) = (case f [l] of Some (Wildcard, v) \<Rightarrow> [v] | _ \<Rightarrow> []) @ wildcards (\<lambda>q. f (l # q)) ls"
proof -
  have "[1..<Suc (length (l # ls))] = 1 # map Suc [1..<Suc (length ls)]" by (simp add: upt_conv_Cons map_Suc_upt del: upt_Suc)
  then show ?thesis by (simp add: wildcards_def map_filter_simps List.map_filter_def filter_map o_def split: option.splits prod.splits symbol.splits)
qed

lemma wildcards_none: "(\<And>q. q \<noteq> [] \<Longrightarrow> f q = None) \<Longrightarrow> wildcards f ls = []"
  by (induction ls arbitrary: f) (simp_all add: wildcards_Cons)

lemma walk_spec:
  "walk t ls best = (case st_at t ls of
      Some (Last, v) \<Rightarrow> if ls = [] then best else v
    | _ \<Rightarrow> last (best # wildcards (st_at t) ls))"
proof (induction ls arbitrary: t best)
  case (Cons l ls)
  show ?case
  proof (cases "st_child l t")
    case None
    then have "wildcards (st_at t) (l # ls) = []" by (simp add: wildcards_Cons wildcards_none)
    then show ?thesis using None by simp
  next
    case (Some r)
    then have w: "wildcards (st_at t) (l # ls) = (if st_Symbol r = Wildcard then [st_Value r] else []) @ wildcards (st_at r) ls"
      by (simp add: wildcards_Cons split: symbol.splits)
    show ?thesis using Some Cons.IH [of r] w by (cases "ls = []"; cases "st_Symbol r") (auto split: option.splits prod.splits symbol.splits)
  qed
qed (simp split: symbol.splits)

text \<open>
  The table after a sequence of insertions: the last entry written at a path counts; there are nodes at the
  paths above an entry.
\<close>

type_synonym 'a table = "(string \<times> 'a) list"

definition table_mark :: "'a table \<Rightarrow> string list \<Rightarrow> (symbol \<times> 'a) option" where
  "table_mark es q = map_of (rev (map (\<lambda>(d, m). (entry_path (labels (CHR ''.'') d), (entry_symbol (labels (CHR ''.'') d), m)))
     (filter (\<lambda>(d, m). d \<noteq> []) es))) q"

definition table_node :: "'a table \<Rightarrow> string list \<Rightarrow> bool" where
  "table_node es q \<longleftrightarrow> (\<exists>(d, m) \<in> set es. d \<noteq> [] \<and> prefix q (entry_path (labels (CHR ''.'') d)))"

text \<open>The best entry for the labels below a path: an entry for the very name, or the longest wildcard.\<close>

definition table_best :: "'a table \<Rightarrow> string list \<Rightarrow> string list \<Rightarrow> 'a option" where
  "table_best es base ls =
     (case table_mark es (base @ ls) of
        Some (Last, m) \<Rightarrow> Some m
      | _ \<Rightarrow> (let ws = wildcards (\<lambda>q. table_mark es (base @ q)) ls in if ws = [] then None else Some (last ws)))"

definition table_match :: "'a table \<Rightarrow> string list \<Rightarrow> 'a option" where
  "table_match es ls =
     (if table_node es [hd ls] then table_best es [] ls
      else
        let rest = dropWhile (\<lambda>l. \<not> table_node es [star, l]) ls in
        if rest = [] then None else table_best es [star] rest)"

definition sq_run :: "'a table \<Rightarrow> 'a sfqdn" where
  "sq_run es = foldl (\<lambda>t (d, m). sq_Insert d m t) sq_NewTrie es"

definition represents :: "'a strie \<Rightarrow> 'a table \<Rightarrow> bool" where
  "represents t es \<longleftrightarrow> (\<forall>q. st_at t q = (case table_mark es q of
      Some (y, m) \<Rightarrow> Some (y, Some m)
    | None \<Rightarrow> if q = [] \<or> table_node es q then Some (NoSymbol, None) else None))"

lemma labels_not_Nil [simp]: "labels c d \<noteq> []"
  by (simp add: labels_def)

lemma sq_run_snoc: "sq_run (es @ [(d, m)]) = sq_Insert d m (sq_run es)"
  by (simp add: sq_run_def)

lemma table_mark_snoc:
  "table_mark (es @ [(d, m)]) q =
     (if d \<noteq> [] \<and> q = entry_path (labels (CHR ''.'') d) then Some (entry_symbol (labels (CHR ''.'') d), m) else table_mark es q)"
  by (simp add: table_mark_def)

lemma table_node_snoc:
  "table_node (es @ [(d, m)]) q \<longleftrightarrow> table_node es q \<or> d \<noteq> [] \<and> prefix q (entry_path (labels (CHR ''.'') d))"
  by (auto simp: table_node_def)

lemma st_at_empty [simp]: "st_at st_empty q = (if q = [] then Some (NoSymbol, None) else None)"
  by (cases q) simp_all

lemma sq_run_represents: "represents (sRoot (sq_run es)) es \<and> sseparate (sq_run es) = CHR ''.''"
proof (induction es rule: rev_induct)
  case Nil
  show ?case by (simp add: represents_def sq_run_def sq_NewTrie_def table_mark_def table_node_def)
next
  case (snoc e es)
  obtain d m where e: "e = (d, m)" by (cases e)
  show ?case
  proof (cases "d = []")
    case True
    then show ?thesis using snoc e by (simp add: represents_def sq_run_snoc sq_Insert_def table_mark_snoc table_node_snoc)
  next
    case False
    let ?t = "sRoot (sq_run es)" and ?ls = "labels (CHR ''.'') d"
    have r: "sRoot (sq_run (es @ [(d, m)])) = sins ?t ?ls m" "sseparate (sq_run (es @ [(d, m)])) = CHR ''.''"
      using snoc False st_insert_sins [OF newReader_pre(1)] by (simp_all add: sq_run_snoc sq_Insert_def)
    have "st_at (sins ?t ?ls m) q = (case table_mark (es @ [(d, m)]) q of Some (y, m) \<Rightarrow> Some (y, Some m)
        | None \<Rightarrow> if q = [] \<or> table_node (es @ [(d, m)]) q then Some (NoSymbol, None) else None)" for q
    proof -
      have "st_at ?t q = (case table_mark es q of Some (y, m) \<Rightarrow> Some (y, Some m)
          | None \<Rightarrow> if q = [] \<or> table_node es q then Some (NoSymbol, None) else None)"
        using snoc by (simp add: represents_def)
      then show ?thesis unfolding st_at_sins [OF labels_not_Nil] table_mark_snoc table_node_snoc
        using False by (cases "table_mark es q") auto
    qed
    then show ?thesis unfolding e using r by (simp add: represents_def)
  qed
qed

lemma wildcards_map:
  assumes "\<And>q. q \<noteq> [] \<Longrightarrow> f q = (case g q of Some (y, m) \<Rightarrow> Some (y, Some m) | None \<Rightarrow> h q)"
    and "\<And>q v. h q \<noteq> Some (Wildcard, v)"
  shows "wildcards f ls = map Some (wildcards g ls)"
  using assms
proof (induction ls arbitrary: f g h)
  case (Cons l ls)
  have "wildcards (\<lambda>q. f (l # q)) ls = map Some (wildcards (\<lambda>q. g (l # q)) ls)"
    using Cons.prems by (intro Cons.IH [where h = "\<lambda>q. h (l # q)"]) auto
  moreover have "(case f [l] of Some (Wildcard, v) \<Rightarrow> [v] | _ \<Rightarrow> []) = map Some (case g [l] of Some (Wildcard, v) \<Rightarrow> [v] | _ \<Rightarrow> [])"
    using Cons.prems(1) [of "[l]"] Cons.prems(2) [of "[l]"] by (auto split: option.splits prod.splits symbol.splits)
  ultimately show ?case by (simp add: wildcards_Cons)
qed simp

lemma st_child_at: "st_child l t = None \<longleftrightarrow> st_at t [l] = None"
  by (simp split: option.splits)

lemma st_at_sub: "st_child l t = Some w \<Longrightarrow> st_at w q = st_at t (l # q)"
  by simp

lemma walk_table:
  assumes a: "\<And>q. st_at t q = (case table_mark es (base @ q) of
      Some (y, m) \<Rightarrow> Some (y, Some m) | None \<Rightarrow> if base @ q = [] \<or> table_node es (base @ q) then Some (NoSymbol, None) else None)"
    and "ls \<noteq> []"
  shows "walk t ls None = table_best es base ls"
proof -
  have w: "wildcards (st_at t) ls = map Some (wildcards (\<lambda>q. table_mark es (base @ q)) ls)"
    by (rule wildcards_map [where h = "\<lambda>q. if base @ q = [] \<or> table_node es (base @ q) then Some (NoSymbol, None) else None"])
      (use a in auto)
  have l: "last (None # map Some ws) = (if ws = [] then None else Some (last ws))" for ws :: "'a list" by (simp add: last_map)
  show ?thesis unfolding walk_spec w l table_best_def Let_def using a [of ls] assms(2)
    by (auto split: option.splits symbol.splits)
qed

lemma skip_walk_drop: "skip_walk w ls = (let rest = dropWhile (\<lambda>l. st_child l w = None) ls in if rest = [] then None else walk w rest None)"
  by (induction ls) (auto simp: Let_def split: option.splits)

text \<open>C21: Search after any sequence of insertions: names whose last label is known are matched below it; other names
  below the top-level wildcard, from the first label known there. There an entry for the very name counts,
  or else the longest wildcard; of several entries with one path the last one inserted counts.\<close>

theorem v1_search_history: "sq_SearchString (sq_run es) d = table_match es (labels (CHR ''.'') d)"
proof -
  let ?t = "sRoot (sq_run es)" and ?ls = "labels (CHR ''.'') d"
  have r: "st_at ?t q = (case table_mark es q of Some (y, m) \<Rightarrow> Some (y, Some m)
      | None \<Rightarrow> if q = [] \<or> table_node es q then Some (NoSymbol, None) else None)" for q
    using sq_run_represents [of es] by (simp add: represents_def)
  have node: "st_at ?t q = None \<longleftrightarrow> \<not> table_node es q" if "q \<noteq> []" for q
  proof -
    have "table_node es q" if "table_mark es q = Some (y, m)" for y m
      using that map_of_SomeD by (fastforce simp: table_mark_def table_node_def)
    then show ?thesis using that r [of q] by (cases "table_mark es q") auto
  qed
  have "st_find ?t ?ls = table_match es ?ls"
  proof (cases "st_child (hd ?ls) ?t")
    case (Some c)
    then have "table_node es [hd ?ls]" using node [of "[hd ?ls]"] by simp
    then show ?thesis using Some walk_table [where t = ?t and es = es and base = "[]" and ls = ?ls] r by (simp add: st_find_def table_match_def)
  next
    case None
    then have n: "\<not> table_node es [hd ?ls]" using node [of "[hd ?ls]"] by simp
    show ?thesis
    proof (cases "st_child star ?t")
      case c: None
      have "\<not> table_node es [star, l]" for l using node [of "[star, l]"] c by simp
      then show ?thesis using None c n by (simp add: st_find_def table_match_def)
    next
      case (Some w)
      have at: "st_at w q = st_at ?t (star # q)" for q using Some by simp
      have cl: "st_child l w = None \<longleftrightarrow> \<not> table_node es [star, l]" for l using node [of "[star, l]"] at [of "[l]"] st_child_at [of l w] by simp
      have "st_at w q = (case table_mark es ([star] @ q) of Some (y, m) \<Rightarrow> Some (y, Some m)
          | None \<Rightarrow> if [star] @ q = [] \<or> table_node es ([star] @ q) then Some (NoSymbol, None) else None)" for q
        using at [of q] r [of "star # q"] by (simp del: st_at.simps)
      then have "walk w rest None = table_best es [star] rest" if "rest \<noteq> []" for rest
        using that by (rule walk_table)
      then show ?thesis using None n Some by (simp add: st_find_def table_match_def skip_walk_drop cl Let_def)
    qed
  qed
  then show ?thesis using sq_run_represents [of es] by (simp add: sq_SearchString_def st_search_find)
qed

text \<open>A name inserted after the wildcard for the names below it takes the node of the wildcard: the names below
  are no longer matched, although both entries are in the table.\<close>

theorem v1_name_disables_wildcard:
  "sq_SearchString (sq_run [(''*.x.com'', a)]) ''www.x.com'' = Some a \<and>
   sq_SearchString (sq_run [(''*.x.com'', a), (''x.com'', b)]) ''www.x.com'' = None \<and>
   sq_SearchString (sq_run [(''x.com'', b), (''*.x.com'', a)]) ''www.x.com'' = Some a"
  unfolding sq_SearchString_def st_search_find sq_run_def sq_NewTrie_def
  by (simp add: sq_Insert_def st_insert_sins [OF newReader_pre(1)] labels_def label_of_def star_def st_find_def
      st_child_insert_def)

fun srem :: "nat \<Rightarrow> 'a strie \<Rightarrow> string list \<Rightarrow> 'a strie option" where
  "srem n t [] = st_unmark t"
| "srem n t (l # ls) =
     (case st_child l t of
        None \<Rightarrow> if l = star \<and> st_Symbol t = Wildcard then st_unmark t else None
      | Some c \<Rightarrow>
          (case srem (Suc n) c ls of
             None \<Rightarrow> None
           | Some c' \<Rightarrow> Some (if st_Child c' = [] \<and> 0 < n then st_delete l t else st_put l c' t)))"

lemma st_remove_eq: "st_remove n t z = srem n t (rd_labels z)"
  by (induction n t z rule: st_remove.induct)
    (subst st_remove.simps, auto simp: rd_labels_Cons rd_labels_Nil split: option.splits)

text \<open>Removing a name of one label has no effect, and removing a name also removes the entry of its parent name
  when the parent has no other names below it.\<close>

theorem v1_remove_flaws:
  "sq_SearchString (sq_Remove ''localhost'' (sq_run [(''localhost'', a)])) ''localhost'' = Some a \<and>
   sq_SearchString (sq_run [(''x.com'', a), (''www.x.com'', b)]) ''x.com'' = Some a \<and>
   sq_SearchString (sq_Remove ''www.x.com'' (sq_run [(''x.com'', a), (''www.x.com'', b)])) ''x.com'' = None"
  unfolding sq_SearchString_def st_search_find sq_run_def sq_NewTrie_def
  by (simp add: sq_Insert_def sq_Remove_def st_insert_sins [OF newReader_pre(1)] st_remove_eq labels_def label_of_def star_def
      st_find_def st_child_insert_def st_unmark_def st_put_def st_delete_def st_mark_def st_empty_def st_child_def)

end
