(* ===== verification/Fakedns.thy ===== *)
theory Fakedns
  imports Fakeip_Dns Domain_Trie_V1
begin

text \<open>
  The fake address layer of the proxy chain (\<^verbatim>\<open>pkg/resolver/fakeip.go\<close>): which questions are answered with fake
  addresses, and the way back of a connection to a fake address. The database behind \<^verbatim>\<open>fakeip.NewFakeDNS\<close> is the
  argument \<open>open_fake\<close> of \<open>fk_Apply\<close>; the upstream resolver is a value. The DNS server that feeds the layer is left
  out, and so is the metrics counter. The connection context is threaded: the accessors allocate its option records
  on first use.
\<close>

section \<open>The state\<close>

record contract_FakeDNS =
  cf_Enabled :: bool
  cf_IPv4Range :: string
  cf_IPv6Range :: string
  cf_Whitelist :: "string list"
  cf_SkipCheckList :: "string list"

text \<open>\<^verbatim>\<open>f.upstream.Raw\<close> is \<open>fd_Raw (fk_fake f)\<close>: the fake resolver embeds the same upstream.\<close>

record ('e, 's) Fakedns =
  fk_upstream :: resolver
  fk_fake :: "('e, 's) FakeDNS"
  fk_whitelist :: "unit sfqdn"
  fk_skipCheck :: "unit sfqdn"
  fk_whitelistSlice :: "string list"
  fk_skipCheckSlice :: "string list"
  fk_enabled :: bool

definition GetFakeIPRange :: "string \<Rightarrow> bool \<Rightarrow> netip_prefix" where
  "GetFakeIPRange ipRange ipv6 =
     (case ParsePrefix ipRange of
        Some ipf \<Rightarrow> ipf
      | None \<Rightarrow>
          if ipv6 then \<lparr>pAddr = Addr6 0xfc000000000000000000000000000000, pBits = 64\<rparr>
          else \<lparr>pAddr = Addr4 0x0a020001, pBits = 24\<rparr>)"

text \<open>The value \<^verbatim>\<open>configuration.FakeIPEnabled\<close> starts with; no code stores another.\<close>

definition FakeIPEnabled :: bool where
  "FakeIPEnabled = False"

definition fk_NewFakeDNS ::
  "(netip_prefix \<Rightarrow> netip_prefix \<Rightarrow> ('e, 's) FakeDNS option) \<Rightarrow> resolver \<Rightarrow> contract_FakeDNS option \<Rightarrow> ('e, 's) Fakedns option" where
  "fk_NewFakeDNS open_fake upstream initial =
     (let ranges = (case initial of
          None \<Rightarrow> (\<lparr>pAddr = Addr4 0x0a020001, pBits = 24\<rparr>, \<lparr>pAddr = Addr6 0xfc000000000000000000000000000000, pBits = 64\<rparr>)
        | Some c \<Rightarrow> (GetFakeIPRange (cf_IPv4Range c) False, GetFakeIPRange (cf_IPv6Range c) True))
      in case open_fake (fst ranges) (snd ranges) of
          None \<Rightarrow> None
        | Some fake \<Rightarrow> Some \<lparr>fk_upstream = upstream, fk_fake = fake, fk_whitelist = sq_NewTrie, fk_skipCheck = sq_NewTrie,
            fk_whitelistSlice = [], fk_skipCheckSlice = [], fk_enabled = False\<rparr>)"

definition name_trie :: "string list \<Rightarrow> unit sfqdn" where
  "name_trie vs = foldl (\<lambda>d v. sq_Insert v () d) sq_NewTrie vs"

definition fk_Apply ::
  "(netip_prefix \<Rightarrow> netip_prefix \<Rightarrow> ('e, 's) FakeDNS option) \<Rightarrow> contract_FakeDNS \<Rightarrow> ('e, 's) Fakedns \<Rightarrow> ('e, 's) Fakedns" where
  "fk_Apply open_fake c f =
     (let f = f\<lparr>fk_enabled := cf_Enabled c\<rparr>;
          f = (if cf_SkipCheckList c \<noteq> fk_skipCheckSlice f then
                 f\<lparr>fk_skipCheck := name_trie (cf_SkipCheckList c), fk_skipCheckSlice := cf_SkipCheckList c\<rparr>
               else f);
          f = (if cf_Whitelist c \<noteq> fk_whitelistSlice f then
                 f\<lparr>fk_whitelist := name_trie (cf_Whitelist c), fk_whitelistSlice := cf_Whitelist c\<rparr>
               else f);
          ipRange = GetFakeIPRange (cf_IPv4Range c) False;
          ipv6Range = GetFakeIPRange (cf_IPv6Range c) True
      in if fd_Equal ipRange ipv6Range (fk_fake f) then f
         else case open_fake ipRange ipv6Range of
             None \<Rightarrow> f
           | Some next \<Rightarrow> f\<lparr>fk_fake := next\<rparr>)"

section \<open>Questions\<close>

definition cx_Resolver :: "Context \<Rightarrow> ResolverOptions \<times> Context" where
  "cx_Resolver ctx =
     (case cx_ConnOptions ctx of (co, ctx) \<Rightarrow>
        (case co_Resolver co of (r, co) \<Rightarrow> (r, ctx\<lparr>cx_connOptions := Some co\<rparr>)))"

text \<open>Whether the fake resolver takes the question; otherwise the upstream does.\<close>

definition fk_resolver :: "Context \<Rightarrow> string \<Rightarrow> ('e, 's) Fakedns \<Rightarrow> bool \<times> Context" where
  "fk_resolver ctx domain f =
     (let (use, ctx) = (if fk_enabled f then (True, ctx)
                        else case cx_Resolver ctx of (r, ctx) \<Rightarrow> (ro_useFakeIP r, ctx))
      in if use then (sq_SearchString (fk_whitelist f) (RelDomain domain) = None, ctx)
         else (False, ctx))"

definition fk_mark_skip :: "Context \<Rightarrow> string \<Rightarrow> ('e, 's) Fakedns \<Rightarrow> Context" where
  "fk_mark_skip ctx domain f =
     (if sq_SearchString (fk_skipCheck f) (RelDomain domain) \<noteq> None
      then cx_update_ConnOptions (co_update_Resolver (ro_SetFakeIPSkipCheckUpstream True)) ctx
      else ctx)"

definition fk_LookupIP ::
  "'e \<Rightarrow> 'e \<Rightarrow> Context \<Rightarrow> string \<Rightarrow> (LookupIPOption \<Rightarrow> LookupIPOption) list \<Rightarrow> ('e, 's) Fakedns \<Rightarrow>
     ips_result \<times> Context \<times> ('e, 's) Fakedns" where
  "fk_LookupIP e1 e2 ctx domain opts f =
     (case fk_resolver (fk_mark_skip ctx domain f) domain f of
        (True, ctx) \<Rightarrow> (case fd_LookupIP e1 e2 domain opts (fk_fake f) of (r, fake) \<Rightarrow> (r, ctx, f\<lparr>fk_fake := fake\<rparr>))
      | (False, ctx) \<Rightarrow> (res_LookupIP (fk_upstream f) domain opts, ctx, f))"

text \<open>
  \<open>ipv6\<close> is the setting \<^verbatim>\<open>configuration.IPv6\<close>; \<open>None\<close> is the panic of the fake resolver. The fake resolver only
  reads the context; an option record it allocates on the way reads as the absent one.
\<close>

definition fk_Raw ::
  "bool \<Rightarrow> 'e \<Rightarrow> 'e \<Rightarrow> Context \<Rightarrow> DNSQuestion \<Rightarrow> ('e, 's) Fakedns \<Rightarrow> (raw_result \<times> Context \<times> ('e, 's) Fakedns) option" where
  "fk_Raw ipv6 e1 e2 ctx req f =
     (let ctx = (if dq_Qtype req = TypeAAAA \<or> dq_Qtype req = TypeA then fk_mark_skip ctx (dq_Name req) f else ctx) in
      case fk_resolver ctx (dq_Name req) f of
        (True, ctx) \<Rightarrow>
          (case fd_raw (ro_fakeIPSkipCheckUpstream (fst (cx_Resolver ctx))) ipv6 e1 e2 req (fk_fake f) of
             None \<Rightarrow> None
           | Some (a, fake) \<Rightarrow> Some (a, ctx, f\<lparr>fk_fake := fake\<rparr>))
      | (False, ctx) \<Rightarrow> Some (fd_Raw (fk_fake f) req, ctx, f))"

section \<open>Connections\<close>

text \<open>
  \<^verbatim>\<open>Prefix.Contains\<close> is false for an address with a zone; unmapping drops the zone of a mapped address. \<open>enabled\<close>
  is the value of \<^verbatim>\<open>configuration.FakeIPEnabled\<close>.
\<close>

definition fk_dispatchAddr ::
  "bool \<Rightarrow> 'e \<Rightarrow> Context \<Rightarrow> address \<Rightarrow> ('e, 's) Fakedns \<Rightarrow> address \<times> Context \<times> ('e, 's) Fakedns" where
  "fk_dispatchAddr enabled e ctx ad f =
     (case ad of
        DomainAddr _ _ _ \<Rightarrow> (ad, ctx, f)
      | IPAddr addrPort net \<Rightarrow>
          if ap_Zone addrPort \<noteq> [] \<and> Is6 (Unmap (ap_Addr addrPort)) \<or> \<not> fd_Contains (ap_Addr addrPort) (fk_fake f)
          then (ad, ctx, f)
          else
            (case fd_GetDomainFromIP e (ap_Addr addrPort) (fk_fake f) of ((t, ok), fake) \<Rightarrow>
              let f = f\<lparr>fk_fake := fake\<rparr>;
                  ctx = (if ok then cx_SetFakeIP (Some (SysAddress ad)) ctx else ctx)
              in case (if ok then ParseAddressPort (Network net) t (Port ad) else None) of
                  Some z \<Rightarrow> (z, ctx, f)
                | None \<Rightarrow> (ad, if enabled then cx_update_ConnOptions (co_SetRouteMode ''block'') ctx else ctx, f)))"

section \<open>The way back of a fake address\<close>

abbreviation fakedns_ok :: "(pool_env, SQLiteFakeIPPool) Fakedns \<Rightarrow> bool" where
  "fakedns_ok f \<equiv> fake_dns_ok sqlite_pool pool_inv (fk_fake f)"

lemma existAnswer_records:
  "\<not> existAnswer m TypeA \<Longrightarrow> RR_A h a \<notin> set (dm_Answer m)" "\<not> existAnswer m TypeAAAA \<Longrightarrow> RR_AAAA h a \<notin> set (dm_Answer m)"
  by (force simp: existAnswer_def)+

lemma checked_message:
  "fd_checked skip req t f = Some (Some (Some m, None)) \<Longrightarrow> \<not> existAnswer m t"
  by (auto simp: fd_checked_def split: if_splits option.splits prod.splits)

lemma raw_A_record:
  assumes r: "fd_raw skip v6 e1 e2 req f = Some ((Some m, None), f')" and t: "dq_Qtype req = TypeA" and q: "dq_Name req = d @ ''.''"
    and n: "IsDomainName d" "IsDomainName (d @ ''.'')" and a: "RR_A h a \<in> set (dm_Answer m)"
  shows "fake4 e1 d f = (a, f')"
proof -
  have "ParseAddr d = None" using IsDomainName_not_addr [OF n(1)] .
  then have "ParseIP d = None" by (simp add: ParseIP_def)
  then have s: "fd_raw skip v6 e1 e2 req f = (case fd_checked skip req TypeA f of
             None \<Rightarrow> None
           | Some (Some r) \<Rightarrow> Some (r, f)
           | Some None \<Rightarrow> (case fake4 e1 d f of (a, f) \<Rightarrow>
               Some ((Some (newAnswerMessage req RcodeSuccess [\<lambda>h. RR_A h a]), None), f)))"
    using t q n by (simp add: fd_raw_def TypeA_def TypeAAAA_def TypePTR_def TypeHTTPS_def Let_def)
  show ?thesis using r a checked_message [of skip req TypeA f m] existAnswer_records(1) [of m h a]
    by (auto simp: s newAnswerMessage_def split: option.splits prod.splits)
qed

lemma raw_AAAA_record:
  assumes r: "fd_raw skip v6 e1 e2 req f = Some ((Some m, None), f')" and t: "dq_Qtype req = TypeAAAA" and q: "dq_Name req = d @ ''.''"
    and n: "IsDomainName d" "IsDomainName (d @ ''.'')" and a: "RR_AAAA h a \<in> set (dm_Answer m)"
  shows "fake6 e2 d f = (a, f')"
proof -
  have "ParseAddr d = None" using IsDomainName_not_addr [OF n(1)] .
  then have "ParseIP d = None" by (simp add: ParseIP_def)
  then have s: "fd_raw skip v6 e1 e2 req f = (if \<not> v6 then Some ((Some (newAnswerMessage req RcodeSuccess []), None), f)
          else case fd_checked skip req TypeAAAA f of
             None \<Rightarrow> None
           | Some (Some r) \<Rightarrow> Some (r, f)
           | Some None \<Rightarrow> (case fake6 e2 d f of (b, f) \<Rightarrow>
               Some ((Some (newAnswerMessage req RcodeSuccess [\<lambda>h. RR_AAAA h b]), None), f)))"
    using t q n by (simp add: fd_raw_def TypeA_def TypeAAAA_def TypePTR_def TypeHTTPS_def Let_def)
  show ?thesis using r a checked_message [of skip req TypeAAAA f m] existAnswer_records(2) [of m h a]
    by (auto simp: s newAnswerMessage_def split: option.splits prod.splits if_splits)
qed

lemma fk_Raw_fake:
  assumes "fk_Raw v6 e1 e2 c req f = Some ((Some m, None), c', f')"
    and "fk_enabled f" and "sq_SearchString (fk_whitelist f) (RelDomain (dq_Name req)) = None"
  obtains skip fake where "fd_raw skip v6 e1 e2 req (fk_fake f) = Some ((Some m, None), fake)" "f' = f\<lparr>fk_fake := fake\<rparr>"
  using assms by (auto simp: fk_Raw_def fk_resolver_def Let_def split: option.splits prod.splits)

lemma dispatch_known:
  assumes "fd_Contains a (fk_fake f)" and "fst (fd_GetDomainFromIP e a (fk_fake f)) = (d, True)" and "IsDomainName d"
  shows "\<exists>f'. fk_dispatchAddr en e c (IPAddr \<lparr>ap_Addr = a, ap_Zone = [], ap_Port = p\<rparr> n) f =
      (DomainAddr d p n, cx_SetFakeIP (Some (SysAddress (IPAddr \<lparr>ap_Addr = a, ap_Zone = [], ap_Port = p\<rparr> n))) c, f')"
proof (cases "fd_GetDomainFromIP e a (fk_fake f)")
  case (Pair r g)
  then show ?thesis using assms IsDomainName_not_addr [OF assms(3)]
    by (simp add: fk_dispatchAddr_def ParseAddressPort_def ParseDomainPort_def)
qed

lemma fake_answer_dispatch:
  assumes ok: "fakedns_ok f" and en: "fk_enabled f"
    and wl: "sq_SearchString (fk_whitelist f) (RelDomain (dq_Name req)) = None"
    and q: "dq_Name req = d @ ''.''" and n: "IsDomainName d" "IsDomainName (d @ ''.'')"
    and r: "fk_Raw v6 e1 e2 c req f = Some ((Some m, None), c', f')"
    and a: "dq_Qtype req = TypeA \<and> RR_A h a \<in> set (dm_Answer m) \<or>
      dq_Qtype req = TypeAAAA \<and> RR_AAAA h a \<in> set (dm_Answer m) \<and> \<not> Is4In6 a"
    and v: "a \<noteq> NoAddr 0" and e: "ok_lookup1 (fst e3)"
  shows "\<exists>f''. fk_dispatchAddr en' e3 k (IPAddr \<lparr>ap_Addr = a, ap_Zone = [], ap_Port = p\<rparr> net) f' =
      (DomainAddr d p net, cx_SetFakeIP (Some (SysAddress (IPAddr \<lparr>ap_Addr = a, ap_Zone = [], ap_Port = p\<rparr> net))) k, f'')"
proof -
  obtain skip fake where f: "fd_raw skip v6 e1 e2 req (fk_fake f) = Some ((Some m, None), fake)" "f' = f\<lparr>fk_fake := fake\<rparr>"
    using fk_Raw_fake [OF r en wl] .
  have e': "case e3 of (ok, _, _) \<Rightarrow> ok_lookup1 ok" using e by (cases e3) simp
  have "fd_Contains a fake \<and> fst (fd_GetDomainFromIP e3 a fake) = (d, True)"
    using a
  proof
    assume "dq_Qtype req = TypeA \<and> RR_A h a \<in> set (dm_Answer m)"
    then have "fake4 e1 d (fk_fake f) = (a, fake)" using raw_A_record [OF f(1) _ q n] by blast
    from sp.fake4_reverse [OF ok this v e'] show ?thesis by simp
  next
    assume b: "dq_Qtype req = TypeAAAA \<and> RR_AAAA h a \<in> set (dm_Answer m) \<and> \<not> Is4In6 a"
    then have "fake6 e2 d (fk_fake f) = (a, fake)" using raw_AAAA_record [OF f(1) _ q n] by blast
    from sp.fake6_reverse [OF ok this v _ e'] b show ?thesis by simp
  qed
  then show ?thesis using dispatch_known [of a f' e3 d] n(1) f(2) by simp
qed

text \<open>C3: A fake address leads back to its name: every address record in an answer to an address question for a name the
  layer answers itself, when a client connects to it, is turned into that name, with the port and network of the
  connection, and the fake address is noted in the connection context.\<close>

theorem fake_answer_leads_back:
  assumes ok: "fakedns_ok f" and en: "fk_enabled f"
    and wl: "sq_SearchString (fk_whitelist f) (RelDomain (dq_Name req)) = None"
    and q: "dq_Name req = d @ ''.''" and n: "IsDomainName d" "IsDomainName (d @ ''.'')"
    and r: "fk_Raw v6 e1 e2 c req f = Some ((Some m, None), c', f')"
    and a: "dq_Qtype req = TypeA \<and> RR_A h a \<in> set (dm_Answer m) \<or>
      dq_Qtype req = TypeAAAA \<and> RR_AAAA h a \<in> set (dm_Answer m) \<and> \<not> Is4In6 a"
    and v: "a \<noteq> NoAddr 0" and e: "ok_lookup1 (fst e3)"
  shows "\<exists>f''. fk_dispatchAddr en' e3 k (IPAddr \<lparr>ap_Addr = a, ap_Zone = [], ap_Port = p\<rparr> net) f' =
      (DomainAddr d p net, cx_SetFakeIP (Some (SysAddress (IPAddr \<lparr>ap_Addr = a, ap_Zone = [], ap_Port = p\<rparr> net))) k, f'')"
  by (rule fake_answer_dispatch [OF assms])

definition demo_prefix6 :: netip_prefix where
  "demo_prefix6 = \<lparr>pAddr = Addr6 0xfc000000000000000000000000000000, pBits = 126\<rparr>"

lemma demo_prefix6_valid: "prefix_IsValid demo_prefix6"
  by (simp add: demo_prefix6_def prefix_IsValid_def)

definition demo_fakedns :: "(pool_env, SQLiteFakeIPPool) Fakedns" where
  "demo_fakedns = \<lparr>fk_upstream = \<lparr>res_Name = ''up'', res_LookupIP = (\<lambda>_ _. (None, None))\<rparr>,
     fk_fake = \<lparr>fd_ops = sqlite_pool, fd_ipv4 = fp_run demo_prefix 1 [], fd_ipv6 = fp_run demo_prefix6 1 [],
       fd_Raw = (\<lambda>q. (Some ((NewDNSMsg q)\<lparr>dm_Answer := [RR_A \<lparr>dh_Name = dq_Name q, dh_Class = ClassINET, dh_TTL = 1\<rparr> (Addr4 0x08080808)]\<rparr>), None))\<rparr>,
     fk_whitelist = sq_NewTrie, fk_skipCheck = sq_NewTrie, fk_whitelistSlice = [], fk_skipCheckSlice = [], fk_enabled = True\<rparr>"

lemma demo_fakedns_ok: "fakedns_ok demo_fakedns"
proof -
  have "Is4 (pAddr (prefix_Masked demo_prefix))" "Is6 (pAddr (prefix_Masked demo_prefix6))"
    by (simp_all add: demo_prefix_def demo_prefix6_def prefix_Masked_def prefix_IsValid_def)
  then show ?thesis
    using fp_run_inv [OF demo_prefix_valid, of 1 "[]"] fp_run_inv [OF demo_prefix6_valid, of 1 "[]"]
    unfolding fake_dns_ok_def demo_fakedns_def sqlite_pool_def pool_config_def by simp
qed

definition demo_question :: DNSQuestion where
  "demo_question = \<lparr>dq_Name = ''a.com.'', dq_Qtype = TypeA, dq_Qclass = ClassINET\<rparr>"

lemma demo_name: "IsDomainName ''a.com''" "IsDomainName ''a.com.''" "ParseIP ''a.com'' = None" "IsDomainName (''a.com'' @ ''.'')"
  by code_simp+

lemma demo_whitelist: "sq_SearchString (fk_whitelist demo_fakedns) (RelDomain (dq_Name demo_question)) = None"
  unfolding demo_fakedns_def demo_question_def by code_simp

lemma demo_answer:
  "\<exists>m c f. fk_Raw True (all_ok, 1, 1) (all_ok, 1, 1) WithContext demo_question demo_fakedns = Some ((Some m, None), c, f) \<and>
     RR_A \<lparr>dh_Name = ''a.com.'', dh_Class = ClassINET, dh_TTL = 40\<rparr> (Addr4 0x0A000000) \<in> set (dm_Answer m)"
proof -
  have "sq_SearchString sq_NewTrie ''a.com'' = (None :: unit option)" "RelDomain ''a.com.'' = ''a.com''" by code_simp+
  then show ?thesis using demo_first demo_name
    by (auto simp: fk_Raw_def fk_resolver_def fk_mark_skip_def demo_fakedns_def demo_question_def fd_raw_def fd_checked_def fake4_def sqlite_pool_def
      newAnswerMessage_def NewDNSMsg_def existAnswer_def TypeA_def TypeAAAA_def TypePTR_def TypeHTTPS_def simp del: AsSlice.simps)
qed

theorem fake_answer_leads_back_witness:
  "\<exists>m c f'. fk_Raw True (all_ok, 1, 1) (all_ok, 1, 1) WithContext demo_question demo_fakedns = Some ((Some m, None), c, f') \<and>
     (\<exists>f''. fk_dispatchAddr False (all_ok, 2, 2) WithContext (IPAddr \<lparr>ap_Addr = Addr4 0x0A000000, ap_Zone = [], ap_Port = 443\<rparr> TCP) f' =
       (DomainAddr ''a.com'' 443 TCP,
        cx_SetFakeIP (Some (SysAddress (IPAddr \<lparr>ap_Addr = Addr4 0x0A000000, ap_Zone = [], ap_Port = 443\<rparr> TCP))) WithContext, f''))"
proof -
  obtain m c f where r: "fk_Raw True (all_ok, 1, 1) (all_ok, 1, 1) WithContext demo_question demo_fakedns = Some ((Some m, None), c, f)"
    and a: "RR_A \<lparr>dh_Name = ''a.com.'', dh_Class = ClassINET, dh_TTL = 40\<rparr> (Addr4 0x0A000000) \<in> set (dm_Answer m)"
    using demo_answer by blast
  have "fk_enabled demo_fakedns" "dq_Name demo_question = ''a.com'' @ ''.''" "dq_Qtype demo_question = TypeA" "ok_lookup1 (fst (all_ok, 2 :: int, 2 :: int))"
    by (simp_all add: demo_fakedns_def demo_question_def all_ok_def)
  then show ?thesis using fake_answer_leads_back [OF demo_fakedns_ok _ demo_whitelist _ demo_name(1,4) r] a r by blast
qed

section \<open>Unknown fake addresses\<close>

text \<open>A fake address without an entry stays as it is; its connection is routed to the block mode when the setting
  \<^verbatim>\<open>FakeIPEnabled\<close> is on and no mode was set before.\<close>

theorem fake_unknown_dispatch:
  assumes "fd_Contains (ap_Addr ap) (fk_fake f)" and "ap_Zone ap = []" and "fst (fd_GetDomainFromIP e (ap_Addr ap) (fk_fake f)) = (t, False)"
  shows "\<exists>c' f'. fk_dispatchAddr en e c (IPAddr ap n) f = (IPAddr ap n, c', f') \<and> (\<not> en \<longrightarrow> c' = c) \<and>
    (en \<and> co_RouteMode (fst (cx_ConnOptions c)) = ''bypass'' \<longrightarrow> co_RouteMode (fst (cx_ConnOptions c')) = ''block'')"
proof (cases "fd_GetDomainFromIP e (ap_Addr ap) (fk_fake f)")
  case (Pair r g)
  then show ?thesis using assms
    by (cases "cx_connOptions c")
      (auto simp: fk_dispatchAddr_def cx_update_ConnOptions_def cx_ConnOptions_def co_SetRouteMode_def co_RouteMode_def)
qed

lemma demo_unknown:
  "fd_Contains (Addr4 0x0A000001) (fk_fake demo_fakedns) \<and> fst (fd_GetDomainFromIP (all_ok, 1, 1) (Addr4 0x0A000001) (fk_fake demo_fakedns)) = ([], False)"
proof -
  have "prefix_Masked demo_prefix = demo_prefix" "prefix_Contains demo_prefix (Addr4 0x0A000001)"
    by (simp_all add: demo_prefix_def prefix_Masked_def prefix_IsValid_def prefix_Contains_def)
  moreover have "fp_prefix (fp_run demo_prefix 1 []) = prefix_Masked demo_prefix"
    using fp_run_inv [OF demo_prefix_valid, of 1 "[]"] by (simp add: pool_config_def)
  ultimately show ?thesis
    by (simp add: demo_fakedns_def fd_Contains_def fd_GetDomainFromIP_def sqlite_pool_def GetDomainFromIP_def all_ok_def
      newSQLiteFakeIPPool_def loadCursor_def del: AsSlice.simps)
qed

theorem fake_unknown_dispatch_witness:
  "\<exists>c' f'. fk_dispatchAddr True (all_ok, 1, 1) WithContext (IPAddr \<lparr>ap_Addr = Addr4 0x0A000001, ap_Zone = [], ap_Port = 80\<rparr> TCP) demo_fakedns =
      (IPAddr \<lparr>ap_Addr = Addr4 0x0A000001, ap_Zone = [], ap_Port = 80\<rparr> TCP, c', f') \<and> co_RouteMode (fst (cx_ConnOptions c')) = ''block''"
proof -
  have "co_RouteMode (fst (cx_ConnOptions WithContext)) = ''bypass''"
    by (simp add: WithContext_def cx_ConnOptions_def co_RouteMode_def new_ConnOptions_def)
  then show ?thesis
    using fake_unknown_dispatch [of "\<lparr>ap_Addr = Addr4 0x0A000001, ap_Zone = [], ap_Port = 80\<rparr>" demo_fakedns "(all_ok, 1, 1)" "[]" True WithContext TCP]
      demo_unknown by auto
qed

text \<open>With the value the setting has, the context of a connection to an unknown fake address is never touched: such
  a connection is not blocked, whatever the configuration of the layer.\<close>

theorem fake_unknown_never_blocked:
  "fst (snd (fk_dispatchAddr FakeIPEnabled e c (IPAddr ap n) f)) = c \<or> snd (fst (fd_GetDomainFromIP e (ap_Addr ap) (fk_fake f)))"
  by (auto simp: fk_dispatchAddr_def FakeIPEnabled_def split: prod.splits option.splits)

section \<open>Configuration\<close>

definition fk_lists_ok :: "('e, 's) Fakedns \<Rightarrow> bool" where
  "fk_lists_ok f \<longleftrightarrow> fk_whitelist f = name_trie (fk_whitelistSlice f) \<and> fk_skipCheck f = name_trie (fk_skipCheckSlice f)"

lemma fk_Apply_lists:
  assumes "fk_lists_ok f"
  shows "fk_lists_ok (fk_Apply o1 c f)" "fk_whitelistSlice (fk_Apply o1 c f) = cf_Whitelist c"
    "fk_skipCheckSlice (fk_Apply o1 c f) = cf_SkipCheckList c" "fk_enabled (fk_Apply o1 c f) = cf_Enabled c"
  using assms by (auto simp: fk_lists_ok_def fk_Apply_def Let_def split: option.splits)

lemma fk_New_lists: "fk_NewFakeDNS o1 up i = Some f \<Longrightarrow> fk_lists_ok f"
  by (auto simp: fk_NewFakeDNS_def fk_lists_ok_def name_trie_def Let_def split: option.splits)

lemma name_trie_run: "name_trie vs = sq_run (map (\<lambda>v. (v, ())) vs)"
proof -
  have "foldl (\<lambda>d v. sq_Insert v () d) t vs = foldl (\<lambda>t (d, m). sq_Insert d m t) t (map (\<lambda>v. (v, ())) vs)" for t
    by (induction vs arbitrary: t) auto
  then show ?thesis by (simp add: name_trie_def sq_run_def)
qed

text \<open>After any sequence of configurations the layer is enabled as the last one says, and its lists of exempted
  names are those of the last one.\<close>

theorem fake_lists_last_config:
  assumes "fk_NewFakeDNS o1 up i = Some f0"
  shows "let f = foldl (\<lambda>f c. fk_Apply o1 c f) f0 (cs @ [c]) in
    fk_enabled f = cf_Enabled c \<and> fk_whitelist f = sq_run (map (\<lambda>v. (v, ())) (cf_Whitelist c)) \<and>
    fk_skipCheck f = sq_run (map (\<lambda>v. (v, ())) (cf_SkipCheckList c))"
proof -
  have "fk_lists_ok (foldl (\<lambda>f c. fk_Apply o1 c f) f0 cs)"
    using fk_New_lists [OF assms] by (induction cs rule: rev_induct) (simp_all add: fk_Apply_lists)
  from fk_Apply_lists [OF this, of o1 c] show ?thesis by (simp add: fk_lists_ok_def name_trie_run)
qed

theorem fake_lists_last_config_witness:
  "let f = foldl (\<lambda>f c. fk_Apply (\<lambda>r4 r6. Some (fd_NewFakeDNS (\<lambda>_. (None, None)) r4 ([], None) r6 ([], None))) c f)
      (the (fk_NewFakeDNS (\<lambda>r4 r6. Some (fd_NewFakeDNS (\<lambda>_. (None, None)) r4 ([], None) r6 ([], None))) (fk_upstream demo_fakedns) None))
      [\<lparr>cf_Enabled = False, cf_IPv4Range = [], cf_IPv6Range = [], cf_Whitelist = [], cf_SkipCheckList = [''b'']\<rparr>,
       \<lparr>cf_Enabled = True, cf_IPv4Range = [], cf_IPv6Range = [], cf_Whitelist = [''a''], cf_SkipCheckList = []\<rparr>] in
    fk_enabled f \<and> fk_whitelist f = sq_run [(''a'', ())] \<and> fk_skipCheck f = sq_run []"
proof -
  let ?o = "\<lambda>r4 r6. Some (fd_NewFakeDNS (\<lambda>_. (None, None)) r4 ([], None) r6 ([], None))"
  obtain f0 where f0: "fk_NewFakeDNS ?o (fk_upstream demo_fakedns) None = Some f0" by (simp add: fk_NewFakeDNS_def)
  show ?thesis
    using fake_lists_last_config [OF f0, of
        "[\<lparr>cf_Enabled = False, cf_IPv4Range = [], cf_IPv6Range = [], cf_Whitelist = [], cf_SkipCheckList = [''b'']\<rparr>]"
        "\<lparr>cf_Enabled = True, cf_IPv4Range = [], cf_IPv6Range = [], cf_Whitelist = [''a''], cf_SkipCheckList = []\<rparr>"]
    unfolding f0 by (simp add: Let_def)
qed

end
