(* ===== verification/Hosts.thy ===== *)
theory Hosts
  imports Fakeip_Dns
begin

text \<open>
  The hosts layer of the proxy chain (\<^verbatim>\<open>pkg/resolver/hosts.go\<close>) and the system's hosts file
  (\<^verbatim>\<open>pkg/utils/system/hosts.go\<close>). A \<^verbatim>\<open>netip.Addr\<close> is an address with its zone. The order in which Go visits the
  configured map is the order of a list; the lines of the hosts file, its modification time and the clock are
  arguments. The lock that lets one goroutine refresh the file is left out.
\<close>

section \<open>The system's hosts file\<close>

type_synonym zaddr = "addr \<times> string"

definition lower_char :: "char \<Rightarrow> char" where
  "lower_char c = (if 65 \<le> byte_of c \<and> byte_of c \<le> 90 then char_of (byte_of c + 32) else c)"

text \<open>\<^verbatim>\<open>strings.ToLower\<close> on the names the code passes: they went through \<open>IsDomainName\<close> and are ASCII.\<close>

definition ToLower :: "string \<Rightarrow> string" where
  "ToLower s = map lower_char s"

record byName =
  bn_canonicalName :: string
  bn_addrs :: "zaddr list"

record system_Hosts =
  sh_ByAddr :: "zaddr \<Rightarrow> string list"
  sh_ByName :: "string \<Rightarrow> byName option"

definition no_hosts :: system_Hosts where
  "no_hosts = \<lparr>sh_ByAddr = (\<lambda>_. []), sh_ByName = (\<lambda>_. None)\<rparr>"

text \<open>\<^verbatim>\<open>slice.RangeReaderByLine\<close>: a comment that starts a line is not cut.\<close>

definition range_line :: "string \<Rightarrow> string" where
  "range_line l = (case index_of (CHR ''#'') l of Some i \<Rightarrow> if i > 0 then take i l else l | None \<Rightarrow> l)"

definition add_name :: "zaddr \<Rightarrow> string \<Rightarrow> system_Hosts \<Rightarrow> system_Hosts" where
  "add_name ad name hosts =
     (if \<not> IsDomainName name then hosts
      else
        let name = ToLower name;
            hosts = hosts\<lparr>sh_ByAddr := (sh_ByAddr hosts)(ad := sh_ByAddr hosts ad @ [name])\<rparr>
        in case sh_ByName hosts name of
            Some v \<Rightarrow> hosts\<lparr>sh_ByName := (sh_ByName hosts)(name \<mapsto> \<lparr>bn_canonicalName = bn_canonicalName v, bn_addrs = bn_addrs v @ [ad]\<rparr>)\<rparr>
          | None \<Rightarrow> hosts\<lparr>sh_ByName := (sh_ByName hosts)(name \<mapsto> \<lparr>bn_canonicalName = name, bn_addrs = [ad]\<rparr>)\<rparr>)"

definition add_line :: "string \<Rightarrow> system_Hosts \<Rightarrow> system_Hosts" where
  "add_line line hosts =
     (let v = range_line line; f = Fields v in
      if v = [] \<or> length f < 2 then hosts
      else case ParseAddr (hd f) of
          None \<Rightarrow> hosts
        | Some ad \<Rightarrow> foldl (\<lambda>h n. add_name ad n h) hosts (tl f))"

text \<open>A file that cannot be opened has no lines.\<close>

definition readHosts :: "string list \<Rightarrow> system_Hosts" where
  "readHosts file = foldl (\<lambda>h l. add_line l h) no_hosts file"

record hosts_cache =
  hc_hosts :: system_Hosts
  hc_expire :: int
  hc_modTime :: int

definition hostsFileUnchangedCacheDuration :: int where "hostsFileUnchangedCacheDuration = 5000000000"
definition hostsFileCacheDuration :: int where "hostsFileCacheDuration = 180000000000"

text \<open>\<open>stat\<close> is the modification time of the file, \<open>None\<close> the error; \<open>now1\<close> and \<open>now2\<close> are the two readings of the
  clock.\<close>

definition maybeRefresh :: "bool \<Rightarrow> int \<Rightarrow> int \<Rightarrow> int option \<Rightarrow> string list \<Rightarrow> hosts_cache \<Rightarrow> hosts_cache" where
  "maybeRefresh android now1 now2 stat file c =
     (if android \<and> hc_expire c \<noteq> 0 then c
      else if now1 \<le> hc_expire c then c
      else if now2 \<le> hc_expire c then c
      else if stat = Some (hc_modTime c) then c\<lparr>hc_expire := now2 + hostsFileUnchangedCacheDuration\<rparr>
      else
        let c = c\<lparr>hc_hosts := readHosts file\<rparr>;
            c = (case stat of Some t \<Rightarrow> c\<lparr>hc_modTime := t\<rparr> | None \<Rightarrow> c)
        in c\<lparr>hc_expire := now2 + hostsFileCacheDuration\<rparr>)"

text \<open>The lookups on the refreshed table.\<close>

definition LookupStaticHost :: "string \<Rightarrow> system_Hosts \<Rightarrow> zaddr list \<times> string" where
  "LookupStaticHost host h =
     (case sh_ByName h (ToLower host) of None \<Rightarrow> ([], []) | Some x \<Rightarrow> (bn_addrs x, bn_canonicalName x))"

definition LookupStaticAddr :: "bytes \<Rightarrow> system_Hosts \<Rightarrow> string list" where
  "LookupStaticAddr ip h = (case AddrFromSlice ip of None \<Rightarrow> [] | Some a \<Rightarrow> sh_ByAddr h (Unmap a, []))"

section \<open>The configured hosts\<close>

record hostsEntry =
  he_Address :: "address option"
  he_portMap :: "u16 \<Rightarrow> address option"

definition new_hostsEntry :: hostsEntry where
  "new_hostsEntry = \<lparr>he_Address = None, he_portMap = (\<lambda>_. None)\<rparr>"

definition he_Get :: "address \<Rightarrow> hostsEntry \<Rightarrow> address option" where
  "he_Get ad h =
     (case (if Port ad \<noteq> 0 then he_portMap h (Port ad) else None) of
        Some z \<Rightarrow> Some z
      | None \<Rightarrow> he_Address h)"

record hostsStore =
  hs_Hosts :: "string \<Rightarrow> hostsEntry option"
  hs_IPHosts :: "zaddr \<Rightarrow> hostsEntry option"
  hs_PtrMap :: "zaddr \<Rightarrow> string list"

definition newHostsStore :: hostsStore where
  "newHostsStore = \<lparr>hs_Hosts = (\<lambda>_. None), hs_IPHosts = (\<lambda>_. None), hs_PtrMap = (\<lambda>_. [])\<rparr>"

definition netip_of :: "addr_port \<Rightarrow> zaddr" where
  "netip_of ap = (ap_Addr ap, ap_Zone ap)"

definition hs_getEntry :: "address \<Rightarrow> hostsStore \<Rightarrow> hostsEntry option" where
  "hs_getEntry ad h = (case ad of DomainAddr n _ _ \<Rightarrow> hs_Hosts h n | IPAddr ap _ \<Rightarrow> hs_IPHosts h (netip_of ap))"

text \<open>A write through the entry pointer that \<^verbatim>\<open>getEntry\<close> found or created.\<close>

definition hs_update :: "address \<Rightarrow> (hostsEntry \<Rightarrow> hostsEntry) \<Rightarrow> hostsStore \<Rightarrow> hostsStore" where
  "hs_update ad f h =
     (let e = (case hs_getEntry ad h of None \<Rightarrow> new_hostsEntry | Some e \<Rightarrow> e) in
      case ad of
        DomainAddr n _ _ \<Rightarrow> h\<lparr>hs_Hosts := (hs_Hosts h)(n \<mapsto> f e)\<rparr>
      | IPAddr ap _ \<Rightarrow> h\<lparr>hs_IPHosts := (hs_IPHosts h)(netip_of ap \<mapsto> f e)\<rparr>)"

definition hs_lookup :: "address \<Rightarrow> hostsStore \<Rightarrow> address option" where
  "hs_lookup ad h =
     (case hs_getEntry ad h of
        None \<Rightarrow> None
      | Some v \<Rightarrow>
          (case he_Get ad v of
             None \<Rightarrow> None
           | Some t \<Rightarrow> ParseAddressPort (Network (address_Network ad)) (Hostname t) (if Port t \<noteq> 0 then Port t else Port ad)))"

definition hs_add :: "address \<Rightarrow> address \<Rightarrow> hostsStore \<Rightarrow> hostsStore" where
  "hs_add ad taddr h =
     (if Port ad \<noteq> 0 \<and> Port taddr \<noteq> 0 then hs_update ad (\<lambda>e. e\<lparr>he_portMap := (he_portMap e)(Port ad \<mapsto> taddr)\<rparr>) h
      else
        let z = ParseAddressPort [] (Hostname taddr) 0;
            h = hs_update ad (\<lambda>e. e\<lparr>he_Address := z\<rparr>) h
        in case (z, ad, taddr) of
            (Some _, DomainAddr n _ _, IPAddr ap _) \<Rightarrow> h\<lparr>hs_PtrMap := (hs_PtrMap h)(netip_of ap := hs_PtrMap h (netip_of ap) @ [n])\<rparr>
          | _ \<Rightarrow> h)"

definition hs_lookupPtr :: "addr \<Rightarrow> hostsStore \<Rightarrow> string list" where
  "hs_lookupPtr a h = hs_PtrMap h (a, [])"

text \<open>The pairs of the configured map that \<^verbatim>\<open>Apply\<close> passes on.\<close>

definition parse_pair :: "string \<times> string \<Rightarrow> (address \<times> address) option" where
  "parse_pair kv =
     (if fst kv = [] \<or> snd kv = [] then None
      else case (ParseAddress [] (fst kv), ParseAddress [] (snd kv)) of
          (Some ad, Some taddr) \<Rightarrow> Some (ad, taddr)
        | _ \<Rightarrow> None)"

definition hosts_Apply :: "(string \<times> string) list \<Rightarrow> hostsStore" where
  "hosts_Apply hosts =
     foldl (\<lambda>store kv. case parse_pair kv of None \<Rightarrow> store | Some (ad, taddr) \<Rightarrow> hs_add ad taddr store) newHostsStore hosts"

section \<open>The layer\<close>

definition hosts_dispatchAddr :: "system_Hosts \<Rightarrow> Context \<Rightarrow> address \<Rightarrow> hostsStore \<Rightarrow> address \<times> Context" where
  "hosts_dispatchAddr sys ctx ad h =
     (case hs_lookup ad h of
        Some x \<Rightarrow> (x, cx_SetHosts (Some (SysAddress ad)) ctx)
      | None \<Rightarrow>
          (case ad of
             DomainAddr n port net \<Rightarrow>
               (case fst (LookupStaticHost n sys) of
                  ip # _ \<Rightarrow> (ParseNetipAddr (Network net) (fst ip) (snd ip) port, cx_SetHosts (Some (SysAddress ad)) ctx)
                | [] \<Rightarrow> (ad, ctx))
           | IPAddr _ _ \<Rightarrow> (ad, ctx)))"

definition hosts_LookupIP ::
  "system_Hosts \<Rightarrow> resolver \<Rightarrow> Context \<Rightarrow> string \<Rightarrow> (LookupIPOption \<Rightarrow> LookupIPOption) list \<Rightarrow> hostsStore \<Rightarrow> ips_result \<times> Context" where
  "hosts_LookupIP sys up ctx domain opts h =
     (case ParseAddressPort [] domain 0 of
        None \<Rightarrow> ((None, Some (''invalid domain: '' @ domain)), ctx)
      | Some ad \<Rightarrow>
          (case hosts_dispatchAddr sys ctx ad h of
             (IPAddr ap _, ctx) \<Rightarrow>
               ((Some (if Is4 (ap_Addr ap) then \<lparr>AAAA = [], A_ips = [AsSlice (ap_Addr ap)]\<rparr>
                       else \<lparr>AAAA = [AsSlice (ap_Addr ap)], A_ips = []\<rparr>), None), ctx)
           | (DomainAddr n _ _, ctx) \<Rightarrow> (res_LookupIP up n opts, ctx)))"

definition newDnsMsg :: "DNSQuestion \<Rightarrow> dns_Msg" where
  "newDnsMsg req = (NewDNSMsg (req\<lparr>dq_Qclass := ClassINET\<rparr>))\<lparr>dm_RecursionDesired := False, dm_RecursionAvailable := False\<rparr>"

definition hosts_ptr :: "system_Hosts \<Rightarrow> (DNSQuestion \<Rightarrow> raw_result) \<Rightarrow> DNSQuestion \<Rightarrow> hostsStore \<Rightarrow> raw_result" where
  "hosts_ptr sys up req h =
     (case RetrieveIPFromPtr (dq_Name req) of
        None \<Rightarrow> up req
      | Some ip \<Rightarrow>
          let ipaddr = (case AddrFromSlice ip of None \<Rightarrow> NoAddr 0 | Some a \<Rightarrow> a);
              domains = hs_lookupPtr ipaddr h @ LookupStaticAddr ip sys
          in if domains = [] then up req
             else (Some ((newDnsMsg req)\<lparr>dm_Answer :=
                 map (\<lambda>v. RR_PTR \<lparr>dh_Name = [], dh_Class = 0, dh_TTL = 0\<rparr> (AbsDomain v)) (filter (\<lambda>v. v \<noteq> []) domains)\<rparr>), None))"

text \<open>\<open>None\<close> is the panic on an empty name.\<close>

definition hosts_Raw ::
  "system_Hosts \<Rightarrow> (DNSQuestion \<Rightarrow> raw_result) \<Rightarrow> Context \<Rightarrow> DNSQuestion \<Rightarrow> hostsStore \<Rightarrow> (raw_result \<times> Context) option" where
  "hosts_Raw sys up ctx req h =
     (if dq_Qtype req = TypePTR then Some (hosts_ptr sys up req h, ctx)
      else if dq_Qtype req \<noteq> TypeAAAA \<and> dq_Qtype req \<noteq> TypeA then Some (up req, ctx)
      else if dq_Name req = [] then None
      else
        (case ParseAddressPort [] (butlast (dq_Name req)) 0 of
           None \<Rightarrow> Some ((None, Some (''invalid domain: '' @ butlast (dq_Name req))), ctx)
         | Some (IPAddr _ _) \<Rightarrow> Some (up req, ctx)
         | Some ad \<Rightarrow>
             (case hosts_dispatchAddr sys ctx ad h of
                (DomainAddr n _ _, ctx) \<Rightarrow> Some (up (req\<lparr>dq_Name := AbsDomain n\<rparr>), ctx)
              | (IPAddr ap _, ctx) \<Rightarrow>
                  let hdr = \<lparr>dh_Name = dq_Name req, dh_Class = ClassINET, dh_TTL = 600\<rparr> in
                  if dq_Qtype req = TypeAAAA then
                    Some ((Some ((newDnsMsg req)\<lparr>dm_Answer := [RR_AAAA hdr (ap_Addr ap)]\<rparr>), None), ctx)
                  else if \<not> Is4 (ap_Addr ap) then Some (up req, ctx)
                  else Some ((Some ((newDnsMsg req)\<lparr>dm_Answer := [RR_A hdr (ap_Addr ap)]\<rparr>), None), ctx))))"

section \<open>What the configured hosts answer\<close>

fun host_key :: "address \<Rightarrow> string + zaddr" where
  "host_key (DomainAddr n _ _) = Inl n"
| "host_key (IPAddr ap _) = Inr (netip_of ap)"

text \<open>The rule for a host: the last pair for the very port, when both sides name a port, or else the last pair that
  leaves out a port.\<close>

definition port_rule :: "(address \<times> address) list \<Rightarrow> address \<Rightarrow> address option" where
  "port_rule ps ad = map_option snd (find (\<lambda>(k, t). host_key k = host_key ad \<and> Port k = Port ad \<and> Port k \<noteq> 0 \<and> Port t \<noteq> 0) (rev ps))"

definition plain_rule :: "(address \<times> address) list \<Rightarrow> address \<Rightarrow> address option" where
  "plain_rule ps ad = map_option snd (find (\<lambda>(k, t). host_key k = host_key ad \<and> (Port k = 0 \<or> Port t = 0)) (rev ps))"

definition hosts_rule :: "(address \<times> address) list \<Rightarrow> address \<Rightarrow> address option" where
  "hosts_rule ps ad =
     (case port_rule ps ad of
        Some t \<Rightarrow> Some t
      | None \<Rightarrow> Option.bind (plain_rule ps ad) (\<lambda>t. ParseAddressPort [] (Hostname t) 0))"

definition hs_entry :: "string + zaddr \<Rightarrow> hostsStore \<Rightarrow> hostsEntry" where
  "hs_entry k h = (case (case k of Inl n \<Rightarrow> hs_Hosts h n | Inr z \<Rightarrow> hs_IPHosts h z) of None \<Rightarrow> new_hostsEntry | Some e \<Rightarrow> e)"

lemma hs_lookup_entry:
  "hs_lookup ad h = Option.bind (he_Get ad (hs_entry (host_key ad) h))
     (\<lambda>t. ParseAddressPort (Network (address_Network ad)) (Hostname t) (if Port t \<noteq> 0 then Port t else Port ad))"
  by (cases ad) (auto simp: hs_lookup_def hs_getEntry_def hs_entry_def he_Get_def new_hostsEntry_def split: option.splits)

lemma hs_entry_update: "hs_entry k (hs_update ad f h) = (if k = host_key ad then f (hs_entry k h) else hs_entry k h)"
  by (cases ad; cases k) (auto simp: hs_entry_def hs_update_def hs_getEntry_def Let_def split: option.splits)

lemma hs_entry_ptr [simp]: "hs_entry k (h\<lparr>hs_PtrMap := p\<rparr>) = hs_entry k h"
  by (cases k) (simp_all add: hs_entry_def)

lemma hs_entry_add:
  "hs_entry k (hs_add ad t h) =
     (if k \<noteq> host_key ad then hs_entry k h
      else if Port ad \<noteq> 0 \<and> Port t \<noteq> 0 then (hs_entry k h)\<lparr>he_portMap := (he_portMap (hs_entry k h))(Port ad \<mapsto> t)\<rparr>
      else (hs_entry k h)\<lparr>he_Address := ParseAddressPort [] (Hostname t) 0\<rparr>)"
  by (auto simp: hs_add_def hs_entry_update Let_def split: option.split address.split)

definition add_all :: "(address \<times> address) list \<Rightarrow> hostsStore" where
  "add_all ps = foldl (\<lambda>h (ad, t). hs_add ad t h) newHostsStore ps"

lemma hosts_Apply_pairs: "hosts_Apply kvs = add_all (List.map_filter parse_pair kvs)"
proof -
  have "foldl (\<lambda>store kv. case parse_pair kv of None \<Rightarrow> store | Some (ad, taddr) \<Rightarrow> hs_add ad taddr store) h kvs =
      foldl (\<lambda>h (ad, t). hs_add ad t h) h (List.map_filter parse_pair kvs)" for h
    by (induction kvs arbitrary: h) (auto simp: List.map_filter_simps split: option.splits)
  then show ?thesis by (simp add: hosts_Apply_def add_all_def)
qed

lemma entry_rules: "he_Get ad (hs_entry (host_key ad) (add_all ps)) = hosts_rule ps ad"
proof -
  have "(Port ad \<noteq> 0 \<longrightarrow> he_portMap (hs_entry (host_key ad) (add_all ps)) (Port ad) = port_rule ps ad) \<and>
      he_Address (hs_entry (host_key ad) (add_all ps)) = Option.bind (plain_rule ps ad) (\<lambda>t. ParseAddressPort [] (Hostname t) 0)"
  proof (induction ps rule: rev_induct)
    case Nil
    show ?case by (cases ad) (simp_all add: add_all_def newHostsStore_def hs_entry_def new_hostsEntry_def port_rule_def plain_rule_def)
  next
    case (snoc p ps)
    obtain k t where p: "p = (k, t)" by fastforce
    have "add_all (ps @ [p]) = hs_add k t (add_all ps)" by (simp add: add_all_def p)
    then show ?case using snoc by (auto simp: hs_entry_add p port_rule_def plain_rule_def)
  qed
  moreover have "port_rule ps ad = None" if "Port ad = 0" using that by (auto simp: port_rule_def find_None_iff)
  ultimately show ?thesis by (auto simp: he_Get_def hosts_rule_def split: option.split)
qed

text \<open>C22: The configured hosts answer a lookup by the last matching pair of the configuration: a pair with ports on both
  sides for its very port, and otherwise a pair that leaves a port out; the port of the target, when it has one,
  replaces the port asked for.\<close>

theorem hosts_lookup_rule:
  "hs_lookup ad (hosts_Apply kvs) = Option.bind (hosts_rule (List.map_filter parse_pair kvs) ad)
     (\<lambda>t. ParseAddressPort (Network (address_Network ad)) (Hostname t) (if Port t \<noteq> 0 then Port t else Port ad))"
  by (simp add: hs_lookup_entry entry_rules hosts_Apply_pairs)

section \<open>Names of an address\<close>

definition ptr_pair :: "zaddr \<Rightarrow> address \<times> address \<Rightarrow> string option" where
  "ptr_pair z p =
     (case p of
        (DomainAddr n kp _, IPAddr ap _) \<Rightarrow>
          if netip_of ap = z \<and> (kp = 0 \<or> ap_Port ap = 0) \<and> ParseAddressPort [] (Hostname (snd p)) 0 \<noteq> None then Some n else None
      | _ \<Rightarrow> None)"

lemma hs_PtrMap_update [simp]: "hs_PtrMap (hs_update ad f h) = hs_PtrMap h"
  by (cases ad) (simp_all add: hs_update_def Let_def)

lemma PtrMap_add: "hs_PtrMap (hs_add k t h) z = hs_PtrMap h z @ (case ptr_pair z (k, t) of None \<Rightarrow> [] | Some n \<Rightarrow> [n])"
  by (cases k; cases t; cases "ParseAddressPort [] (Hostname t) 0") (auto simp: hs_add_def ptr_pair_def Let_def)

lemma map_filter_snoc: "List.map_filter f (xs @ [x]) = List.map_filter f xs @ (case f x of None \<Rightarrow> [] | Some y \<Rightarrow> [y])"
  by (induction xs) (auto simp: List.map_filter_simps split: option.splits)

lemma PtrMap_pairs: "hs_PtrMap (add_all ps) z = List.map_filter (ptr_pair z) ps"
proof (induction ps rule: rev_induct)
  case (snoc p ps)
  obtain k t where p: "p = (k, t)" by fastforce
  have "add_all (ps @ [p]) = hs_add k t (add_all ps)" by (simp add: add_all_def p)
  then show ?case using snoc by (simp add: PtrMap_add map_filter_snoc p)
qed (simp add: add_all_def newHostsStore_def List.map_filter_simps)



lemma hosts_Apply_two: "parse_pair x = Some a \<Longrightarrow> parse_pair y = Some b \<Longrightarrow> hosts_Apply [x, y] = add_all [a, b]"
  by (simp add: hosts_Apply_pairs List.map_filter_simps)

lemma last_plain_rule:
  assumes "p1 = 0 \<or> q1 = 0" and "p2 = 0 \<or> q2 = 0"
  shows "hs_lookup (DomainAddr n p net)
      (add_all [(DomainAddr n p1 u1, IPAddr \<lparr>ap_Addr = Addr4 w1, ap_Zone = [], ap_Port = q1\<rparr> v1),
        (DomainAddr n p2 u2, IPAddr \<lparr>ap_Addr = Addr4 w2, ap_Zone = [], ap_Port = q2\<rparr> v2)]) =
    Some (IPAddr \<lparr>ap_Addr = Addr4 w2, ap_Zone = [], ap_Port = p\<rparr> net)"
  unfolding hs_lookup_entry entry_rules using assms
  by (auto simp: hosts_rule_def port_rule_def plain_rule_def ParseAddressPort_def)

text \<open>
  Two pairs for the same host override each other in the order in which they are added, and Go visits a map in no
  particular order: the same configuration sends a connection to one host or to another.
\<close>

theorem hosts_order_matters:
  "hs_lookup (DomainAddr ''www.google.com'' 80 TCP) (hosts_Apply [(''www.google.com'', ''8.8.8.9:123''), (''www.google.com:443'', ''8.8.8.8'')]) =
     Some (IPAddr \<lparr>ap_Addr = Addr4 0x08080808, ap_Zone = [], ap_Port = 80\<rparr> TCP) \<and>
   hs_lookup (DomainAddr ''www.google.com'' 80 TCP) (hosts_Apply [(''www.google.com:443'', ''8.8.8.8''), (''www.google.com'', ''8.8.8.9:123'')]) =
     Some (IPAddr \<lparr>ap_Addr = Addr4 0x08080809, ap_Zone = [], ap_Port = 80\<rparr> TCP)"
proof -
  have "SplitHostPort ''www.google.com:443'' = Some (''www.google.com'', ''443'')" "SplitHostPort ''8.8.8.9:123'' = Some (''8.8.8.9'', ''123'')"
    "ParseAddress [] ''www.google.com'' = Some (DomainAddr ''www.google.com'' 0 Unknown)"
    "ParseAddress [] ''8.8.8.8'' = Some (IPAddr \<lparr>ap_Addr = Addr4 0x08080808, ap_Zone = [], ap_Port = 0\<rparr> Unknown)"
    "ParseAddressPort [] ''www.google.com'' 443 = Some (DomainAddr ''www.google.com'' 443 Unknown)"
    "ParseAddressPort [] ''8.8.8.9'' 123 = Some (IPAddr \<lparr>ap_Addr = Addr4 0x08080809, ap_Zone = [], ap_Port = 123\<rparr> Unknown)"
    by code_simp+
  moreover have "ParseUint16 ''443'' = Some 443" "ParseUint16 ''123'' = Some 123"
    by (simp_all add: ParseUint16_def is_digit_def digit_val_def byte_of_def)
  ultimately have a: "parse_pair (''www.google.com'', ''8.8.8.9:123'') =
      Some (DomainAddr ''www.google.com'' 0 Unknown, IPAddr \<lparr>ap_Addr = Addr4 0x08080809, ap_Zone = [], ap_Port = 123\<rparr> Unknown)"
    and b: "parse_pair (''www.google.com:443'', ''8.8.8.8'') =
      Some (DomainAddr ''www.google.com'' 443 Unknown, IPAddr \<lparr>ap_Addr = Addr4 0x08080808, ap_Zone = [], ap_Port = 0\<rparr> Unknown)"
    by (simp_all add: parse_pair_def ParseAddress_def)
  show ?thesis unfolding hosts_Apply_two [OF a b] hosts_Apply_two [OF b a]
    by (intro conjI last_plain_rule) simp_all
qed

section \<open>The hosts file, both ways\<close>

definition hosts_agree :: "system_Hosts \<Rightarrow> bool" where
  "hosts_agree h \<longleftrightarrow> (\<forall>n z. n \<in> set (sh_ByAddr h z) \<longleftrightarrow> (\<exists>x. sh_ByName h n = Some x \<and> z \<in> set (bn_addrs x)))"

lemma add_name_agree: "hosts_agree h \<Longrightarrow> hosts_agree (add_name z n h)"
proof (cases "IsDomainName n")
  case True
  assume h: "hosts_agree h"
  show ?thesis
  proof (cases "sh_ByName h (ToLower n)")
    case None
    with True h show ?thesis by (auto simp: hosts_agree_def add_name_def Let_def)
  next
    case (Some x)
    with True h show ?thesis by (auto simp: hosts_agree_def add_name_def Let_def)
  qed
qed (simp add: add_name_def)

lemma foldl_add_name_agree: "hosts_agree h \<Longrightarrow> hosts_agree (foldl (\<lambda>h n. add_name z n h) h ns)"
  by (induction ns arbitrary: h) (simp_all add: add_name_agree)

lemma add_line_agree: "hosts_agree h \<Longrightarrow> hosts_agree (add_line l h)"
  by (simp add: add_line_def Let_def foldl_add_name_agree split: option.split)

text \<open>The two tables of the hosts file agree: a name is among the names of an address exactly when the address is
  among the addresses of the name.\<close>

theorem hosts_file_agrees:
  "n \<in> set (sh_ByAddr (readHosts ls) z) \<longleftrightarrow> (\<exists>x. sh_ByName (readHosts ls) n = Some x \<and> z \<in> set (bn_addrs x))"
proof -
  have "hosts_agree h \<Longrightarrow> hosts_agree (foldl (\<lambda>h l. add_line l h) h ls)" for h
    by (induction ls arbitrary: h) (simp_all add: add_line_agree)
  moreover have "hosts_agree no_hosts" by (simp add: hosts_agree_def no_hosts_def)
  ultimately have "hosts_agree (readHosts ls)" unfolding readHosts_def by blast
  then show ?thesis unfolding hosts_agree_def by blast
qed

text \<open>The reverse lookup unmaps the address it is asked for, but the table keeps addresses as the file writes them: a
  name given to an IPv4-mapped address is found forwards and never backwards.\<close>

theorem mapped_hosts_never_found:
  assumes "Is4In6 a" and "IsDomainName n"
  shows "(a, z) \<in> set (fst (LookupStaticHost n (add_name (a, z) n h))) \<and>
    LookupStaticAddr ip (add_name (a, z) n h) = LookupStaticAddr ip h"
proof -
  have "Unmap b \<noteq> a" for b using assms(1) by (cases b; cases a) auto
  then show ?thesis using assms(2)
    by (auto simp: LookupStaticHost_def LookupStaticAddr_def add_name_def Let_def split: option.splits)
qed

theorem mapped_hosts_never_found_witness:
  "(Addr6 0xffff01020304, []) \<in> set (fst (LookupStaticHost ''nas'' (add_name (Addr6 0xffff01020304, []) ''nas'' no_hosts))) \<and>
    LookupStaticAddr (AsSlice (Addr6 0xffff01020304)) (add_name (Addr6 0xffff01020304, []) ''nas'' no_hosts) = []"
proof -
  have "Is4In6 (Addr6 0xffff01020304)" by simp
  moreover have "IsDomainName ''nas''" by code_simp
  moreover have "LookupStaticAddr ip no_hosts = []" for ip by (simp add: LookupStaticAddr_def no_hosts_def split: option.split)
  ultimately show ?thesis using mapped_hosts_never_found [of "Addr6 0xffff01020304" "''nas''"] by simp
qed

section \<open>Refreshing the hosts file\<close>

text \<open>\<open>version t\<close>: the lines of the file while its modification time is \<open>t\<close>. A call of the lookups is the two clock
  readings and the modification time at the call.\<close>

type_synonym refresh_call = "int \<times> int \<times> int"

definition refresh_all :: "(int \<Rightarrow> string list) \<Rightarrow> refresh_call list \<Rightarrow> hosts_cache" where
  "refresh_all version cs = foldl (\<lambda>c (now1, now2, t). maybeRefresh False now1 now2 (Some t) (version t) c)
     \<lparr>hc_hosts = no_hosts, hc_expire = 0, hc_modTime = -1\<rparr> cs"

lemma refresh_snoc:
  "refresh_all version (cs @ [(now1, now2, t)]) = maybeRefresh False now1 now2 (Some t) (version t) (refresh_all version cs)"
  by (simp add: refresh_all_def)

lemma refresh_inv:
  assumes "\<forall>(now1, now2, t) \<in> set cs. 0 < now1 \<and> now1 \<le> now2 \<and> now2 \<le> T \<and> 0 \<le> t" and "0 \<le> T"
  shows "(hc_modTime (refresh_all version cs) \<noteq> -1 \<longrightarrow> hc_hosts (refresh_all version cs) = readHosts (version (hc_modTime (refresh_all version cs)))) \<and>
    hc_expire (refresh_all version cs) \<le> T + hostsFileCacheDuration"
  using assms
proof (induction cs rule: rev_induct)
  case Nil
  then show ?case by (simp add: refresh_all_def hostsFileCacheDuration_def)
next
  case (snoc p cs)
  obtain now1 now2 t where p: "p = (now1, now2, t)" by (cases p)
  have "0 < now1 \<and> now1 \<le> now2 \<and> now2 \<le> T" using snoc.prems p by auto
  then show ?case using snoc
    by (auto simp: p refresh_snoc maybeRefresh_def Let_def hostsFileCacheDuration_def hostsFileUnchangedCacheDuration_def)
qed



end
