(* ===== verification/Resolver_Registry.thy ===== *)
theory Resolver_Registry
  imports Go_Strings Netip_Parse Conn_Context "HOL-Library.AList" "HOL-Library.Multiset"
begin

text \<open>
  The configured DNS resolvers (\<^verbatim>\<open>pkg/resolver/resolver.go\<close>): configurations by name, the resolvers created from them
  on first use, and the bootstrap resolver. The clients of the DNS types are the parameter \<open>types\<close>, the registered
  constructors of \<^verbatim>\<open>pkg/net/dns/resolver\<close>. A resolver is named by the number of its creation, so that its closing can be
  told; \<open>None\<close> is a panic. A synchronised map is an association list.
\<close>

record contract_Resolver =
  cr_ID :: string
  cr_Type :: string
  cr_Host :: string
  cr_Subnet :: string
  cr_TLSServerName :: string
  cr_System :: bool

definition no_contract :: contract_Resolver where
  "no_contract = \<lparr>cr_ID = [], cr_Type = [], cr_Host = [], cr_Subnet = [], cr_TLSServerName = [], cr_System = False\<rparr>"

definition cr_Validate :: "contract_Resolver \<Rightarrow> go_error option" where
  "cr_Validate x =
     (if TrimSpace (cr_ID x) = [] then Some ''resolver id is empty''
      else if cr_Type x \<notin> {''udp'', ''tcp'', ''doh'', ''dot'', ''doq'', ''doh3'', ''system''} then Some ''unknown resolver type''
      else if cr_Type x \<noteq> ''system'' \<and> TrimSpace (cr_Host x) = [] then Some ''resolver host is empty''
      else None)"

section \<open>Creating a resolver\<close>

text \<open>\<open>None\<close> is the zero prefix.\<close>

record dns_Config =
  dc_Subnet :: "netip_prefix option"
  dc_Name :: string
  dc_Host :: string
  dc_Servername :: string
  dc_Type :: string

type_synonym 'r dns_types = "string \<Rightarrow> (dns_Config \<Rightarrow> go_error + 'r) option"

definition dns_New :: "'r dns_types \<Rightarrow> dns_Config \<Rightarrow> go_error + 'r" where
  "dns_New types config =
     (let config = (if dc_Type config = [] then config\<lparr>dc_Type := ''udp''\<rparr> else config) in
      case types (dc_Type config) of
        None \<Rightarrow> Inl ''no dns type process found''
      | Some f \<Rightarrow> f config)"

definition contract_subnet :: "string \<Rightarrow> netip_prefix option" where
  "contract_subnet s =
     (case ParsePrefix s of
        Some p \<Rightarrow> Some p
      | None \<Rightarrow>
          (case ParseAddr s of
             None \<Rightarrow> None
           | Some (p, _) \<Rightarrow> Some \<lparr>pAddr = p, pBits = int (BitLen p)\<rparr>))"

definition newContractResolver :: "'r dns_types \<Rightarrow> contract_Resolver \<Rightarrow> go_error + 'r" where
  "newContractResolver types dc =
     dns_New types \<lparr>dc_Subnet = contract_subnet (cr_Subnet dc), dc_Name = cr_ID dc, dc_Host = cr_Host dc,
       dc_Servername = cr_TLSServerName dc, dc_Type = cr_Type dc\<rparr>"

section \<open>The registry\<close>

record 'r Entry =
  en_Resolver :: "nat \<times> 'r"
  en_Config :: contract_Resolver

record 'r Registry =
  rg_bootstrapConfig :: contract_Resolver
  rg_store :: "(string \<times> 'r Entry) list"
  rg_resolvers :: "(string \<times> contract_Resolver) list"
  rg_bootstrap :: "(nat \<times> 'r) option"
  rg_created :: nat
  rg_closed :: "nat list"

definition NewResolver :: "'r Registry" where
  "NewResolver = \<lparr>rg_bootstrapConfig = no_contract, rg_store = [], rg_resolvers = [], rg_bootstrap = None, rg_created = 0, rg_closed = []\<rparr>"

text \<open>What \<^verbatim>\<open>Get\<close> may return: the resolver that blocks, the bootstrap resolver, or a created one.\<close>

datatype 'r got = GotError | GotBootstrap | Got nat 'r

text \<open>The function that \<^verbatim>\<open>getResolver\<close> passes to \<^verbatim>\<open>LoadOrCreate\<close>, in the two parts between which another call may run:
  reading the configuration, and creating and storing the resolver.\<close>

definition create_read :: "string \<Rightarrow> 'r Registry \<Rightarrow> go_error + contract_Resolver" where
  "create_read name r = (case map_of (rg_resolvers r) name of None \<Rightarrow> Inl ''resolver not found'' | Some config \<Rightarrow> Inr config)"

definition create_store :: "'r dns_types \<Rightarrow> string \<Rightarrow> contract_Resolver \<Rightarrow> 'r Registry \<Rightarrow> (go_error + 'r Entry) \<times> 'r Registry" where
  "create_store types name config r =
     (case newContractResolver types config of
        Inl e \<Rightarrow> (Inl e, r)
      | Inr z \<Rightarrow>
          let e = \<lparr>en_Resolver = (rg_created r, z), en_Config = config\<rparr>; r = r\<lparr>rg_created := rg_created r + 1\<rparr> in
          (case map_of (rg_store r) name of
             Some e \<Rightarrow> (Inr e, r)
           | None \<Rightarrow> (Inr e, r\<lparr>rg_store := AList.update name e (rg_store r)\<rparr>)))"

definition LoadOrCreate :: "'r dns_types \<Rightarrow> string \<Rightarrow> 'r Registry \<Rightarrow> (go_error + 'r Entry) \<times> 'r Registry" where
  "LoadOrCreate types name r =
     (case map_of (rg_store r) name of
        Some e \<Rightarrow> (Inr e, r)
      | None \<Rightarrow> (case create_read name r of Inl e \<Rightarrow> (Inl e, r) | Inr config \<Rightarrow> create_store types name config r))"

text \<open>After an error the entry is a nil pointer, whose field is read before the error is looked at.\<close>

definition getResolver :: "'r dns_types \<Rightarrow> string \<Rightarrow> 'r Registry \<Rightarrow> ('r got option \<times> 'r Registry) option" where
  "getResolver types name r =
     (if name = ''bootstrap'' then Some (Some GotBootstrap, r)
      else case map_of (rg_store r) name of
          Some e \<Rightarrow> Some (Some (case en_Resolver e of (h, z) \<Rightarrow> Got h z), r)
        | None \<Rightarrow>
            (case LoadOrCreate types name r of
               (Inl _, r) \<Rightarrow> None
             | (Inr e, r) \<Rightarrow> Some (Some (case en_Resolver e of (h, z) \<Rightarrow> Got h z), r)))"

definition getFallbackResolver :: "'r dns_types \<Rightarrow> string \<Rightarrow> string \<Rightarrow> 'r Registry \<Rightarrow> ('r got option \<times> 'r Registry) option" where
  "getFallbackResolver types str fallback r =
     (if fallback = ''block'' then Some (Some GotError, r)
      else
        case (if str \<noteq> [] then getResolver types str r else Some (None, r)) of
          None \<Rightarrow> None
        | Some (Some z, r) \<Rightarrow> Some (Some z, r)
        | Some (None, r) \<Rightarrow> if fallback = [] then Some (None, r) else getResolver types fallback r)"

definition rg_Get :: "'r dns_types \<Rightarrow> string \<Rightarrow> string \<Rightarrow> 'r Registry \<Rightarrow> ('r got \<times> 'r Registry) option" where
  "rg_Get types str fallback r =
     (case getFallbackResolver types str fallback r of
        None \<Rightarrow> None
      | Some (Some z, r) \<Rightarrow> Some (z, r)
      | Some (None, r) \<Rightarrow> Some (GotBootstrap, r))"

definition rg_close :: "nat \<times> 'r \<Rightarrow> 'r Registry \<Rightarrow> 'r Registry" where
  "rg_close z r = r\<lparr>rg_closed := fst z # rg_closed r\<rparr>"

definition rg_Close :: "'r Registry \<Rightarrow> 'r Registry" where
  "rg_Close r = (fold (\<lambda>(_, v). rg_close (en_Resolver v)) (rg_store r) r)\<lparr>rg_store := []\<rparr>"

definition rg_Apply :: "contract_Resolver \<Rightarrow> 'r Registry \<Rightarrow> 'r Registry" where
  "rg_Apply config r =
     (let name = cr_ID config in
      if name = [] then r
      else
        let old = (case map_of (rg_store r) name of
                     Some e \<Rightarrow> if en_Config e \<noteq> config then Some (en_Resolver e) else None
                   | None \<Rightarrow> None);
            r = (case old of None \<Rightarrow> r | Some _ \<Rightarrow> r\<lparr>rg_store := AList.delete name (rg_store r)\<rparr>);
            r = r\<lparr>rg_resolvers := AList.update name config (rg_resolvers r)\<rparr>
        in case old of None \<Rightarrow> r | Some z \<Rightarrow> rg_close z r)"

definition rg_Delete :: "string \<Rightarrow> 'r Registry \<Rightarrow> 'r Registry" where
  "rg_Delete name r =
     (let r = r\<lparr>rg_resolvers := AList.delete name (rg_resolvers r)\<rparr> in
      case map_of (rg_store r) name of
        None \<Rightarrow> r
      | Some e \<Rightarrow> rg_close (en_Resolver e) (r\<lparr>rg_store := AList.delete name (rg_store r)\<rparr>))"

definition rg_SetBootstrap :: "nat \<times> 'r \<Rightarrow> 'r Registry \<Rightarrow> 'r Registry" where
  "rg_SetBootstrap z r = (case rg_bootstrap r of None \<Rightarrow> r | Some old \<Rightarrow> rg_close old r)\<lparr>rg_bootstrap := Some z\<rparr>"

definition rg_ApplyBootstrap :: "'r dns_types \<Rightarrow> contract_Resolver \<Rightarrow> 'r Registry \<Rightarrow> 'r Registry" where
  "rg_ApplyBootstrap types c r =
     (if cr_ID c = [] then r
      else if rg_bootstrapConfig r = c then r
      else case newContractResolver types c of
          Inl _ \<Rightarrow> r
        | Inr z \<Rightarrow>
            (rg_SetBootstrap (rg_created r, z) (r\<lparr>rg_created := rg_created r + 1\<rparr>))\<lparr>rg_bootstrapConfig := c\<rparr>)"

section \<open>The controller\<close>

text \<open>The stored resolvers at the start, and saving and removing one; \<open>save_ok\<close> and \<open>delete_ok\<close> say whether the
  statements of the store succeed.\<close>

definition apply_contract :: "'r dns_types \<Rightarrow> contract_Resolver \<Rightarrow> 'r Registry \<Rightarrow> 'r Registry" where
  "apply_contract types item r = rg_Apply item (if cr_ID item = ''bootstrap'' then rg_ApplyBootstrap types item r else r)"

definition ApplyStored :: "'r dns_types \<Rightarrow> contract_Resolver list \<Rightarrow> 'r Registry \<Rightarrow> 'r Registry" where
  "ApplyStored types items r = fold (apply_contract types) items r"

definition SaveContract :: "'r dns_types \<Rightarrow> bool \<Rightarrow> contract_Resolver \<Rightarrow> 'r Registry \<Rightarrow> (go_error + contract_Resolver) \<times> 'r Registry" where
  "SaveContract types save_ok req r =
     (if cr_ID req = [] then (Inl ''name is empty'', r)
      else case cr_Validate req of
          Some e \<Rightarrow> (Inl e, r)
        | None \<Rightarrow> if \<not> save_ok then (Inl ''save failed'', r) else (Inr req, apply_contract types req r))"

definition RemoveContract :: "bool \<Rightarrow> string \<Rightarrow> 'r Registry \<Rightarrow> go_error option \<times> 'r Registry" where
  "RemoveContract delete_ok name r =
     (if name = ''bootstrap'' then (None, r)
      else (if delete_ok then None else Some ''delete failed'', rg_Delete name r))"

section \<open>The invariant\<close>

text \<open>The resolvers that are in use.\<close>

definition stored_handles :: "'r Registry \<Rightarrow> nat list" where
  "stored_handles r = map (\<lambda>(n, e). fst (en_Resolver e)) (rg_store r)"

definition bootstrap_handles :: "'r Registry \<Rightarrow> nat list" where
  "bootstrap_handles r = (case rg_bootstrap r of None \<Rightarrow> [] | Some z \<Rightarrow> [fst z])"

definition handles_ok :: "'r Registry \<Rightarrow> bool" where
  "handles_ok r \<longleftrightarrow> mset (stored_handles r) + mset (bootstrap_handles r) + mset (rg_closed r) = mset [0..<rg_created r]"

definition entry_ok :: "'r dns_types \<Rightarrow> 'r Registry \<Rightarrow> string \<times> 'r Entry \<Rightarrow> bool" where
  "entry_ok types r ne \<longleftrightarrow> map_of (rg_resolvers r) (fst ne) = Some (en_Config (snd ne)) \<and>
     newContractResolver types (en_Config (snd ne)) = Inr (snd (en_Resolver (snd ne)))"

definition registry_inv :: "'r dns_types \<Rightarrow> 'r Registry \<Rightarrow> bool" where
  "registry_inv types r \<longleftrightarrow> distinct (map fst (rg_store r)) \<and> (\<forall>ne \<in> set (rg_store r). entry_ok types r ne) \<and> handles_ok r"

lemma mset_delete:
  assumes "distinct (map fst xs)" "map_of xs n = Some e"
  shows "mset (map f xs) = add_mset (f (n, e)) (mset (map f (AList.delete n xs)))"
  using assms
proof (induction xs)
  case (Cons x xs)
  show ?case
  proof (cases "fst x = n")
    case True
    then have "AList.delete n xs = xs" using Cons.prems(1) by (auto simp: delete_id)
    then show ?thesis using True Cons.prems by (cases x) auto
  next
    case False
    then show ?thesis using Cons by (cases x) auto
  qed
qed simp

lemma update_new: "map_of xs n = None \<Longrightarrow> AList.update n e xs = xs @ [(n, e)]"
  by (induction xs) (auto split: if_splits)

lemmas registry_simps = registry_inv_def handles_ok_def stored_handles_def bootstrap_handles_def

lemma NewResolver_inv: "registry_inv types NewResolver"
  by (simp add: registry_simps NewResolver_def)

lemma rg_Apply_inv:
  assumes "registry_inv types r"
  shows "registry_inv types (rg_Apply c r)"
proof (cases "cr_ID c = []")
  case True
  then show ?thesis using assms by (simp add: rg_Apply_def)
next
  case id: False
  show ?thesis
  proof (cases "\<exists>e. map_of (rg_store r) (cr_ID c) = Some e \<and> en_Config e \<noteq> c")
    case True
    then obtain e where e: "map_of (rg_store r) (cr_ID c) = Some e" "en_Config e \<noteq> c" by blast
    have "rg_Apply c r = r\<lparr>rg_store := AList.delete (cr_ID c) (rg_store r), rg_resolvers := AList.update (cr_ID c) c (rg_resolvers r),
        rg_closed := fst (en_Resolver e) # rg_closed r\<rparr>"
      using id e by (simp add: rg_Apply_def rg_close_def Let_def)
    moreover have "\<forall>ne \<in> set (AList.delete (cr_ID c) (rg_store r)). ne \<in> set (rg_store r) \<and> fst ne \<noteq> cr_ID c"
      by (auto simp: AList.delete_eq)
    ultimately show ?thesis
      using assms mset_delete [OF _ e(1), of "\<lambda>(n, e). fst (en_Resolver e)"]
      by (auto simp: registry_simps entry_ok_def update_conv distinct_delete)
  next
    case False
    then have *: "rg_Apply c r = r\<lparr>rg_resolvers := AList.update (cr_ID c) c (rg_resolvers r)\<rparr>"
      using id by (auto simp: rg_Apply_def Let_def split: option.splits)
    have "en_Config (snd ne) = c" if "ne \<in> set (rg_store r)" "fst ne = cr_ID c" for ne
    proof -
      have "map_of (rg_store r) (cr_ID c) = Some (snd ne)"
        using that assms by (metis map_of_is_SomeI prod.collapse registry_inv_def)
      then show ?thesis using False by blast
    qed
    then show ?thesis using assms unfolding * by (auto simp: registry_simps entry_ok_def update_conv)
  qed
qed

lemma rg_Delete_inv:
  assumes "registry_inv types r"
  shows "registry_inv types (rg_Delete name r)"
proof (cases "map_of (rg_store r) name")
  case None
  then have "\<forall>ne \<in> set (rg_store r). fst ne \<noteq> name" by (auto simp: map_of_eq_None_iff)
  then show ?thesis using assms None by (auto simp: rg_Delete_def registry_simps entry_ok_def delete_conv)
next
  case (Some e)
  have "rg_Delete name r = r\<lparr>rg_resolvers := AList.delete name (rg_resolvers r), rg_store := AList.delete name (rg_store r),
      rg_closed := fst (en_Resolver e) # rg_closed r\<rparr>"
    using Some by (simp add: rg_Delete_def rg_close_def Let_def)
  moreover have "\<forall>ne \<in> set (AList.delete name (rg_store r)). ne \<in> set (rg_store r) \<and> fst ne \<noteq> name"
    by (auto simp: AList.delete_eq)
  ultimately show ?thesis
    using assms mset_delete [OF _ Some, of "\<lambda>(n, e). fst (en_Resolver e)"]
    by (auto simp: registry_simps entry_ok_def delete_conv distinct_delete)
qed

lemma fold_close: "fold (\<lambda>(_, v). rg_close (en_Resolver v)) xs r = r\<lparr>rg_closed := rev (map (\<lambda>(n, e). fst (en_Resolver e)) xs) @ rg_closed r\<rparr>"
  by (induction xs arbitrary: r) (auto simp: rg_close_def)

lemma rg_Close_inv: "registry_inv types r \<Longrightarrow> registry_inv types (rg_Close r)"
  by (simp add: rg_Close_def fold_close registry_simps ac_simps)

lemma rg_ApplyBootstrap_inv:
  assumes "registry_inv types r"
  shows "registry_inv types (rg_ApplyBootstrap types c r)"
proof (cases "cr_ID c = [] \<or> rg_bootstrapConfig r = c \<or> isl (newContractResolver types c)")
  case True
  then show ?thesis using assms by (auto simp: rg_ApplyBootstrap_def split: sum.splits)
next
  case False
  then obtain z where "newContractResolver types c = Inr z" by (cases "newContractResolver types c") auto
  then have "rg_ApplyBootstrap types c r = r\<lparr>rg_created := Suc (rg_created r), rg_bootstrap := Some (rg_created r, z), rg_bootstrapConfig := c,
      rg_closed := bootstrap_handles r @ rg_closed r\<rparr>"
    using False by (auto simp: rg_ApplyBootstrap_def rg_SetBootstrap_def rg_close_def bootstrap_handles_def split: option.splits)
  then show ?thesis using assms by (auto simp: registry_simps entry_ok_def add.assoc)
qed


text \<open>The number of the resolver a call returns, if it has one.\<close>

lemma create_store_inv:
  assumes "registry_inv types r" "map_of (rg_store r) name = None" "map_of (rg_resolvers r) name = Some c"
  shows "registry_inv types (snd (create_store types name c r))"
proof (cases "newContractResolver types c")
  case (Inl e)
  then show ?thesis using assms by (simp add: create_store_def)
next
  case (Inr z)
  then have "snd (create_store types name c r) = r\<lparr>rg_created := Suc (rg_created r),
      rg_store := rg_store r @ [(name, \<lparr>en_Resolver = (rg_created r, z), en_Config = c\<rparr>)]\<rparr>"
    using assms(2) by (simp add: create_store_def Let_def update_new)
  moreover have "name \<notin> fst ` set (rg_store r)" using assms(2) by (simp add: map_of_eq_None_iff)
  ultimately show ?thesis using assms Inr by (auto simp: registry_simps entry_ok_def)
qed

text \<open>What one name gives, from the configurations alone.\<close>

definition fresh_resolver :: "'r dns_types \<Rightarrow> string \<Rightarrow> 'r Registry \<Rightarrow> 'r option" where
  "fresh_resolver types name r =
     (case map_of (rg_resolvers r) name of
        None \<Rightarrow> None
      | Some c \<Rightarrow> (case newContractResolver types c of Inl _ \<Rightarrow> None | Inr z \<Rightarrow> Some z))"

lemma getResolver_result:
  assumes "registry_inv types r" "name \<noteq> ''bootstrap''"
  shows "case fresh_resolver types name r of
      None \<Rightarrow> getResolver types name r = None
    | Some z \<Rightarrow> \<exists>h r'. getResolver types name r = Some (Some (Got h z), r') \<and> registry_inv types r' \<and>
        h \<in> set (stored_handles r') \<and> rg_resolvers r' = rg_resolvers r"
proof (cases "map_of (rg_store r) name")
  case (Some e)
  then have ne: "(name, e) \<in> set (rg_store r)" by (rule map_of_SomeD)
  then have "entry_ok types r (name, e)" using assms(1) by (auto simp: registry_inv_def)
  then have "fresh_resolver types name r = Some (snd (en_Resolver e))" by (simp add: fresh_resolver_def entry_ok_def)
  moreover have "fst (en_Resolver e) \<in> set (stored_handles r)" using ne by (force simp: stored_handles_def)
  ultimately show ?thesis using Some assms by (cases "en_Resolver e") (simp add: getResolver_def)
next
  case None
  show ?thesis
  proof (cases "map_of (rg_resolvers r) name")
    case no: None
    then show ?thesis using None assms(2) by (simp add: getResolver_def LoadOrCreate_def create_read_def fresh_resolver_def)
  next
    case (Some c)
    note inv = create_store_inv [OF assms(1) None Some]
    show ?thesis
    proof (cases "newContractResolver types c")
      case (Inl e)
      then show ?thesis using None Some assms(2)
        by (simp add: getResolver_def LoadOrCreate_def create_read_def fresh_resolver_def create_store_def)
    next
      case (Inr z)
      obtain r' where "create_store types name c r = (Inr \<lparr>en_Resolver = (rg_created r, z), en_Config = c\<rparr>, r')"
        "rg_resolvers r' = rg_resolvers r" "rg_created r \<in> set (stored_handles r')"
        using Inr None by (simp add: create_store_def Let_def update_new stored_handles_def)
      then show ?thesis using None Some Inr assms(2) inv
        by (simp add: getResolver_def LoadOrCreate_def create_read_def fresh_resolver_def)
    qed
  qed
qed

lemma getResolver_inv:
  assumes "registry_inv types r" "getResolver types name r = Some (z, r')"
  shows "registry_inv types r' \<and> rg_resolvers r' = rg_resolvers r \<and> z \<noteq> None"
proof (cases "name = ''bootstrap''")
  case True
  then show ?thesis using assms by (auto simp: getResolver_def)
next
  case False
  then show ?thesis using getResolver_result [OF assms(1) False] assms(2) by (auto split: option.splits)
qed

lemma rg_Get_inv:
  assumes "registry_inv types r" "rg_Get types str fallback r = Some (z, r')"
  shows "registry_inv types r' \<and> rg_resolvers r' = rg_resolvers r"
  using assms getResolver_inv [OF assms(1)]
  by (fastforce simp: rg_Get_def getFallbackResolver_def split: if_splits option.splits)

section \<open>Histories\<close>

datatype registry_op = RApply contract_Resolver | RDelete string | RGet string string | RClose | RBootstrap contract_Resolver

fun registry_do :: "'r dns_types \<Rightarrow> registry_op \<Rightarrow> 'r Registry \<Rightarrow> 'r Registry option" where
  "registry_do types (RApply c) r = Some (rg_Apply c r)"
| "registry_do types (RDelete n) r = Some (rg_Delete n r)"
| "registry_do types (RGet s f) r = map_option snd (rg_Get types s f r)"
| "registry_do types RClose r = Some (rg_Close r)"
| "registry_do types (RBootstrap c) r = Some (rg_ApplyBootstrap types c r)"

fun registry_run :: "'r dns_types \<Rightarrow> registry_op list \<Rightarrow> 'r Registry \<Rightarrow> 'r Registry option" where
  "registry_run types [] r = Some r"
| "registry_run types (x # xs) r = (case registry_do types x r of None \<Rightarrow> None | Some r \<Rightarrow> registry_run types xs r)"

text \<open>The configuration that a history leaves for each name.\<close>

fun configured :: "registry_op \<Rightarrow> (string \<rightharpoonup> contract_Resolver) \<Rightarrow> (string \<rightharpoonup> contract_Resolver)" where
  "configured (RApply c) m = (if cr_ID c = [] then m else m(cr_ID c \<mapsto> c))"
| "configured (RDelete n) m = m(n := None)"
| "configured _ m = m"

lemma rg_resolvers_Apply: "map_of (rg_resolvers (rg_Apply c r)) = configured (RApply c) (map_of (rg_resolvers r))"
  by (auto simp: rg_Apply_def Let_def rg_close_def update_conv' split: option.splits)

lemma rg_resolvers_Delete: "map_of (rg_resolvers (rg_Delete n r)) = configured (RDelete n) (map_of (rg_resolvers r))"
  by (auto simp: rg_Delete_def Let_def rg_close_def delete_conv' split: option.splits)

lemma rg_resolvers_ApplyBootstrap: "rg_resolvers (rg_ApplyBootstrap types c r) = rg_resolvers r"
  by (auto simp: rg_ApplyBootstrap_def rg_SetBootstrap_def rg_close_def split: option.splits sum.splits)

lemma registry_do_inv:
  assumes "registry_inv types r" "registry_do types x r = Some r'"
  shows "registry_inv types r' \<and> map_of (rg_resolvers r') = configured x (map_of (rg_resolvers r))"
proof (cases x)
  case (RGet s f)
  then obtain z where "rg_Get types s f r = Some (z, r')" using assms(2) by auto
  then show ?thesis using rg_Get_inv [OF assms(1)] RGet by auto
qed (use assms rg_Apply_inv rg_Delete_inv rg_Close_inv rg_ApplyBootstrap_inv in
  \<open>auto simp: rg_resolvers_Apply rg_resolvers_Delete rg_resolvers_ApplyBootstrap rg_Close_def fold_close
    simp del: configured.simps(1,2)\<close>)

lemma registry_run_inv:
  "registry_inv types r \<Longrightarrow> registry_run types xs r = Some r' \<Longrightarrow>
   registry_inv types r' \<and> map_of (rg_resolvers r') = fold configured xs (map_of (rg_resolvers r))"
proof (induction xs arbitrary: r)
  case (Cons x xs)
  obtain r1 where "registry_do types x r = Some r1" "registry_run types xs r1 = Some r'"
    using Cons.prems(2) by (auto split: option.splits)
  then show ?case using registry_do_inv [OF Cons.prems(1)] Cons.IH [of r1] by auto
qed simp

lemma handles_disjoint:
  assumes "handles_ok r"
  shows "set (stored_handles r) \<union> set (bootstrap_handles r) \<union> set (rg_closed r) = {..<rg_created r}"
    "set (stored_handles r) \<inter> set (rg_closed r) = {}" "set (bootstrap_handles r) \<inter> set (rg_closed r) = {}" "distinct (rg_closed r)"
proof -
  have m: "mset (stored_handles r @ bootstrap_handles r @ rg_closed r) = mset [0..<rg_created r]"
    using assms by (simp add: handles_ok_def add.assoc)
  have "distinct (stored_handles r @ bootstrap_handles r @ rg_closed r)"
    using mset_eq_imp_distinct_iff [OF m] by simp
  moreover have "set (stored_handles r @ bootstrap_handles r @ rg_closed r) = set [0..<rg_created r]"
    using mset_eq_setD [OF m] .
  ultimately show "set (stored_handles r) \<union> set (bootstrap_handles r) \<union> set (rg_closed r) = {..<rg_created r}"
    "set (stored_handles r) \<inter> set (rg_closed r) = {}" "set (bootstrap_handles r) \<inter> set (rg_closed r) = {}" "distinct (rg_closed r)"
    by auto
qed

text \<open>C6: 
  After any history of calls, asking for a configured name gives a resolver created from the configuration that was
  applied last, and one that has not been closed.
\<close>

theorem registry_resolves_current:
  assumes "registry_run types ops NewResolver = Some r" "fold configured ops (\<lambda>_. None) str = Some c"
    "newContractResolver types c = Inr z" "str \<noteq> []" "str \<noteq> ''bootstrap''" "fallback \<noteq> ''block''"
  shows "\<exists>h r'. rg_Get types str fallback r = Some (Got h z, r') \<and> h \<notin> set (rg_closed r')"
proof -
  have inv: "registry_inv types r" "map_of (rg_resolvers r) str = Some c"
    using registry_run_inv [OF NewResolver_inv assms(1)] assms(2) by (auto simp: NewResolver_def)
  have "fresh_resolver types str r = Some z" using inv(2) assms(3) by (simp add: fresh_resolver_def)
  then obtain h r' where "getResolver types str r = Some (Some (Got h z), r')" "registry_inv types r'" "h \<in> set (stored_handles r')"
    using getResolver_result [OF inv(1) assms(5)] by auto
  then show ?thesis using assms(4,6) handles_disjoint(2) [of r']
    by (auto simp: rg_Get_def getFallbackResolver_def registry_inv_def)
qed

theorem registry_resolves_current_witness:
  "\<exists>h r'. rg_Get (\<lambda>t. Some (\<lambda>c. Inr (dc_Host c))) ''b'' ''a''
      (rg_Apply (no_contract\<lparr>cr_ID := ''b'', cr_Host := ''2''\<rparr>) (rg_Apply (no_contract\<lparr>cr_ID := ''b'', cr_Host := ''1''\<rparr>) NewResolver)) =
    Some (Got h ''2'', r') \<and> h \<notin> set (rg_closed r')"
  using registry_resolves_current [of "\<lambda>t. Some (\<lambda>c. Inr (dc_Host c))"
      "[RApply (no_contract\<lparr>cr_ID := ''b'', cr_Host := ''1''\<rparr>), RApply (no_contract\<lparr>cr_ID := ''b'', cr_Host := ''2''\<rparr>)]" _ "''b''" _ "''2''" "''a''"]
  by (simp add: newContractResolver_def dns_New_def no_contract_def)

text \<open>C7: 
  After any history of calls every resolver that was created is in use, under one name or as the bootstrap resolver, or
  has been closed, exactly once and not while it is in use.
\<close>

theorem registry_closes_once:
  assumes "registry_run types ops NewResolver = Some r"
  shows "set (stored_handles r) \<union> set (bootstrap_handles r) \<union> set (rg_closed r) = {..<rg_created r} \<and>
    set (stored_handles r) \<inter> set (rg_closed r) = {} \<and> set (bootstrap_handles r) \<inter> set (rg_closed r) = {} \<and> distinct (rg_closed r)"
  using registry_run_inv [OF NewResolver_inv assms] handles_disjoint [of r] by (auto simp: registry_inv_def)

theorem registry_closes_once_witness:
  "set (rg_closed (rg_Close (rg_ApplyBootstrap (\<lambda>t. Some (\<lambda>c. Inr ())) (no_contract\<lparr>cr_ID := ''x''\<rparr>)
     (rg_ApplyBootstrap (\<lambda>t. Some (\<lambda>c. Inr ())) (no_contract\<lparr>cr_ID := ''y''\<rparr>) NewResolver)))) = {0}"
  using registry_closes_once [of "\<lambda>t. Some (\<lambda>c. Inr ())"
      "[RBootstrap (no_contract\<lparr>cr_ID := ''y''\<rparr>), RBootstrap (no_contract\<lparr>cr_ID := ''x''\<rparr>), RClose]"]
  by (simp add: rg_ApplyBootstrap_def rg_SetBootstrap_def rg_Close_def rg_close_def NewResolver_def no_contract_def newContractResolver_def
      dns_New_def)

text \<open>C40: 
  A name that is not configured, or whose resolver cannot be created, makes the lookup panic instead of falling back: the
  entry that was not created is dereferenced.
\<close>

theorem unknown_resolver_panics:
  assumes "registry_run types ops NewResolver = Some r" "str \<noteq> []" "str \<noteq> ''bootstrap''" "fallback \<noteq> ''block''"
    "\<forall>c. fold configured ops (\<lambda>_. None) str = Some c \<longrightarrow> isl (newContractResolver types c)"
  shows "rg_Get types str fallback r = None"
proof -
  have inv: "registry_inv types r" "map_of (rg_resolvers r) str = fold configured ops (\<lambda>_. None) str"
    using registry_run_inv [OF NewResolver_inv assms(1)] by (auto simp: NewResolver_def)
  then have "fresh_resolver types str r = None"
    using assms(5) by (auto simp: fresh_resolver_def split: option.splits sum.splits)
  then show ?thesis using getResolver_result [OF inv(1) assms(3)] assms(2,4) by (simp add: rg_Get_def getFallbackResolver_def)
qed

theorem unknown_resolver_panics_witness: "rg_Get (\<lambda>t. Some (\<lambda>c. Inr ())) ''typo'' ''bootstrap'' NewResolver = None"
  using unknown_resolver_panics [of "\<lambda>t. Some (\<lambda>c. Inr ())" "[]" NewResolver "''typo''" "''bootstrap''"] by simp

text \<open>
  The lock of \<^verbatim>\<open>Apply\<close> is not taken by a lookup. When a configuration is applied between the moment a lookup reads the
  old one and the moment it stores the resolver, the name goes on resolving with the old configuration.
\<close>

theorem registry_race_keeps_old:
  assumes "map_of (rg_store r) (cr_ID c) = None" "cr_ID c \<noteq> []" "newContractResolver types old = Inr z"
  shows "let r' = snd (create_store types (cr_ID c) old (rg_Apply c r)) in
    map_of (rg_resolvers r') (cr_ID c) = Some c \<and>
    (cr_ID c \<noteq> ''bootstrap'' \<and> fallback \<noteq> ''block'' \<longrightarrow> rg_Get types (cr_ID c) fallback r' = Some (Got (rg_created r) z, r'))"
  using assms
  by (simp add: create_store_def rg_Apply_def Let_def rg_Get_def getFallbackResolver_def getResolver_def update_conv')

theorem registry_race_keeps_old_witness:
  "rg_Get (\<lambda>t. Some (\<lambda>c. Inr (dc_Host c))) ''b'' []
     (snd (create_store (\<lambda>t. Some (\<lambda>c. Inr (dc_Host c))) ''b'' (no_contract\<lparr>cr_ID := ''b'', cr_Host := ''1''\<rparr>)
        (rg_Apply (no_contract\<lparr>cr_ID := ''b'', cr_Host := ''2''\<rparr>) NewResolver)))
   = Some (Got 0 ''1'', snd (create_store (\<lambda>t. Some (\<lambda>c. Inr (dc_Host c))) ''b'' (no_contract\<lparr>cr_ID := ''b'', cr_Host := ''1''\<rparr>)
        (rg_Apply (no_contract\<lparr>cr_ID := ''b'', cr_Host := ''2''\<rparr>) NewResolver)))"
proof -
  have "newContractResolver (\<lambda>t. Some (\<lambda>c. Inr (dc_Host c))) (no_contract\<lparr>cr_ID := ''b'', cr_Host := ''1''\<rparr>) = Inr ''1''"
    by (simp add: newContractResolver_def dns_New_def no_contract_def)
  from registry_race_keeps_old [OF _ _ this, of NewResolver "no_contract\<lparr>cr_ID := ''b'', cr_Host := ''2''\<rparr>" "[]"]
  show ?thesis by (simp add: NewResolver_def Let_def)
qed

end
