(* ===== verification/Wire.thy ===== *)
theory Wire
  imports Netip_Range Netip_Parse
begin

text \<open>
  Big-endian integers in byte strings, as \<^verbatim>\<open>encoding/binary\<close> reads and writes them, and copies between byte
  slices. Buffers come from a pool (\<^verbatim>\<open>pkg/pool/pool.go\<close>). A buffered reader is the list of the bytes still to come; \<open>None\<close> is its end.
\<close>

named_theorems wire

abbreviation PutUint16 :: "u16 \<Rightarrow> bytes" where "PutUint16 \<equiv> bytes_be 2"
abbreviation PutUint32 :: "u32 \<Rightarrow> bytes" where "PutUint32 \<equiv> bytes_be 4"
abbreviation PutUint64 :: "u64 \<Rightarrow> bytes" where "PutUint64 \<equiv> bytes_be 8"

text \<open>The reads panic on a slice that is too short.\<close>

definition Uint16 :: "bytes \<Rightarrow> u16 option" where
  "Uint16 b = (if length b < 2 then None else Some (word_be (take 2 b)))"

definition Uint32 :: "bytes \<Rightarrow> u32 option" where
  "Uint32 b = (if length b < 4 then None else Some (word_be (take 4 b)))"

definition Uint64 :: "bytes \<Rightarrow> u64 option" where
  "Uint64 b = (if length b < 8 then None else Some (word_be (take 8 b)))"

lemma word_be_bytes_be:
  assumes "LENGTH('a) = 8 * n"
  shows "word_be (bytes_be n w) = (w :: 'a::len word)"
  using word_be_take [of n n w] assms by simp

lemma word_be_puts [simp, wire]: "word_be (PutUint16 p) = p" "word_be (PutUint32 q) = q" "word_be (PutUint64 r) = r"
  by (simp_all add: word_be_bytes_be)

lemma Uint_Put [simp, wire]: "Uint16 (PutUint16 p @ s) = Some p" "Uint32 (PutUint32 q @ s) = Some q" "Uint64 (PutUint64 r @ s) = Some r"
  by (simp_all add: Uint16_def Uint32_def Uint64_def)

section \<open>Strings as bytes\<close>

definition string_bytes :: "string \<Rightarrow> bytes" where
  "string_bytes s = map (\<lambda>c. of_nat (byte_of c)) s"

definition bytes_string :: "bytes \<Rightarrow> string" where
  "bytes_string b = map (\<lambda>x. char_of (unat x)) b"

lemma length_string_bytes [simp]: "length (string_bytes s) = length s" "length (bytes_string b) = length b"
  by (simp_all add: string_bytes_def bytes_string_def)

lemma bytes_string_inverse [simp, wire]: "bytes_string (string_bytes s) = s"
proof -
  have "char_of (unat (of_nat (byte_of c) :: u8)) = c" for c :: char
    by (simp add: byte_of_def unat_of_nat)
  then show ?thesis by (simp add: bytes_string_def string_bytes_def o_def)
qed

section \<open>Pooled buffers\<close>

definition MaxSegmentSize :: nat where "MaxSegmentSize = 65535"

text \<open>A slice from the pool holds what its last user left there, \<open>stale\<close>.\<close>

definition GetBytes :: "bytes \<Rightarrow> nat \<Rightarrow> bytes" where
  "GetBytes stale n = take n (stale @ replicate n 0)"

lemma length_GetBytes [simp]: "length (GetBytes stale n) = n"
  by (simp add: GetBytes_def)

end
