(* ===== verification/Socks_Addr.thy ===== *)
theory Socks_Addr
  imports Wire Address
begin

text \<open>
  The address format of SOCKS5, which several protocols share (\<^verbatim>\<open>pkg/net/proxy/socks5/tools/tools.go\<close>). A writer is
  the bytes it has received, a reader the bytes still to come. The decoder for datagrams works on a slice: its
  argument \<open>spare\<close> is what the backing array holds behind the slice, up to its capacity, since Go allows slicing into
  it. \<open>None\<close> is a panic.
\<close>

datatype sock_error = EOF | ErrUnexpectedEOF | ErrUnknownType u8 | ErrDomain string

definition IPv4 :: u8 where "IPv4 = 1"
definition Domain :: u8 where "Domain = 3"
definition IPv6 :: u8 where "IPv6 = 4"
definition MaxAddrLength :: nat where "MaxAddrLength = 255 + 1 + 1 + 2"

lemmas addr_types = IPv4_def Domain_def IPv6_def

section \<open>Encoding\<close>

definition WriteAddr :: "address \<Rightarrow> bytes" where
  "WriteAddr ad =
     (case ad of
        DomainAddr hostname _ _ \<Rightarrow> [3, of_nat (length hostname)] @ string_bytes hostname
      | IPAddr ap _ \<Rightarrow> (if Is4 (ap_Addr ap) then [1] else [4]) @ AsSlice (ap_Addr ap))
     @ PutUint16 (Port ad)"

definition EncodeAddr :: "address \<Rightarrow> bytes \<Rightarrow> (nat \<times> bytes) option" where
  "EncodeAddr ad buf =
     (let put = (\<lambda>head body.
        let n = min (length body) (length buf - length head); offset = length head + n in
        if length buf < length head \<or> length buf < offset + 2 then None
        else Some (offset + 2, head @ take n body @ PutUint16 (Port ad) @ drop (offset + 2) buf))
      in case ad of
          DomainAddr hostname _ _ \<Rightarrow> put [3, of_nat (min (length hostname) (length buf - 2))] (string_bytes hostname)
        | IPAddr ap _ \<Rightarrow> put [if Is4 (ap_Addr ap) then 1 else 4] (AsSlice (ap_Addr ap)))"

text \<open>\<^verbatim>\<open>ParseAddr\<close>; the name without the suffix is that of \<^verbatim>\<open>net/netip\<close>.\<close>

definition ParseAddr_socks :: "address \<Rightarrow> bytes" where
  "ParseAddr_socks ad = WriteAddr ad"

section \<open>Decoding\<close>

definition Addr_Address :: "string \<Rightarrow> bytes \<Rightarrow> address option" where
  "Addr_Address network a =
     (if length a = 0 then Some EmptyAddr
      else if length a < 2 then None
      else
        let port = word_be (drop (length a - 2) a) in
        if hd a = IPv4 \<or> hd a = IPv6 then
          (if length a < 3 then None else Some (ParseIPAddr network (take (length a - 3) (drop 1 a)) port))
        else if hd a = Domain then
          (if length a < 4 then None
           else Some (case ParseDomainPort network (bytes_string (take (length a - 4) (drop 2 a))) port of
                        Some ad \<Rightarrow> ad | None \<Rightarrow> EmptyAddr))
        else Some EmptyAddr)"

text \<open>
  The length of a domain address is computed in a byte: \<open>1 + 1 + buf[1] + 2\<close> wraps around. The slice of this length
  must hold the two bytes that were already read.
\<close>

definition resolve_length :: "u8 \<Rightarrow> u8 \<Rightarrow> nat option" where
  "resolve_length t l =
     (if t = IPv4 then Some (1 + 4 + 2)
      else if t = IPv6 then Some (1 + 16 + 2)
      else if t = Domain then Some (unat (1 + 1 + l + 2))
      else None)"

definition ResolveAddr :: "bytes \<Rightarrow> (sock_error + bytes \<times> bytes) option" where
  "ResolveAddr r =
     (case r of
        [] \<Rightarrow> Some (Inl EOF)
      | [_] \<Rightarrow> Some (Inl ErrUnexpectedEOF)
      | t # l # r' \<Rightarrow>
          (case resolve_length t l of
             None \<Rightarrow> Some (Inl (ErrUnknownType t))
           | Some n \<Rightarrow>
               if n < 2 then None
               else if length r' < n - 2 then Some (Inl (if r' = [] then EOF else ErrUnexpectedEOF))
               else Some (Inr ([t, l] @ take (n - 2) r', drop (n - 2) r'))))"

definition DecodeAddr :: "string \<Rightarrow> bytes \<Rightarrow> bytes \<Rightarrow> (sock_error + nat \<times> address) option" where
  "DecodeAddr network b spare =
     (if length b < 3 then Some (Inl ErrUnexpectedEOF)
      else if hd b = IPv4 then
        (if length (b @ spare) < 7 then None
         else Some (Inr (1 + 4 + 2, ParseIPAddr network (take 4 (drop 1 (b @ spare))) (word_be (take 2 (drop 5 (b @ spare)))))))
      else if hd b = IPv6 then
        (if length (b @ spare) < 19 then None
         else Some (Inr (1 + 16 + 2, ParseIPAddr network (take 16 (drop 1 (b @ spare))) (word_be (take 2 (drop 17 (b @ spare)))))))
      else if hd b = Domain then
        (let n = unat (b ! 1) in
         if length b < 2 + n + 2 then Some (Inl ErrUnexpectedEOF)
         else
           let host = bytes_string (take n (drop 2 b)) in
           Some (case ParseDomainPort network host (word_be (take 2 (drop (2 + n) b))) of
                   None \<Rightarrow> Inl (ErrDomain host)
                 | Some ad \<Rightarrow> Inr (1 + 1 + n + 2, ad)))
      else Some (Inl (ErrUnknownType (hd b))))"

text \<open>The reader returns the rest of the stream with the address.\<close>

definition ReadAddr :: "string \<Rightarrow> bytes \<Rightarrow> sock_error + (nat \<times> address) \<times> bytes" where
  "ReadAddr network br =
     (case br of
        [] \<Rightarrow> Inl EOF
      | atype # br \<Rightarrow>
          if atype = IPv4 \<or> atype = IPv6 then
            let ipLen = (if atype = IPv4 then 4 else 16) in
            if length br < ipLen + 2 then Inl EOF
            else Inr ((1 + ipLen + 2, ParseIPAddr network (take ipLen br) (word_be (take 2 (drop ipLen br)))), drop (ipLen + 2) br)
          else if atype = Domain then
            (case br of
               [] \<Rightarrow> Inl EOF
             | domainLen # br \<Rightarrow>
                 let n = unat domainLen; host = bytes_string (take n br) in
                 if length br < n + 2 then Inl EOF
                 else case ParseDomainPort network host (word_be (take 2 (drop n br))) of
                     None \<Rightarrow> Inl (ErrDomain host)
                   | Some ad \<Rightarrow> Inr ((1 + 1 + n + 2, ad), drop (n + 2) br))
          else Inl (ErrUnknownType atype))"

section \<open>What can be sent\<close>

text \<open>Addresses as the parsers of the program build them: valid names, and valid IP addresses that are unmapped and
  have no zone.\<close>

fun wire_address :: "address \<Rightarrow> bool" where
  "wire_address (DomainAddr h _ _) \<longleftrightarrow> IsDomainName h"
| "wire_address (IPAddr ap _) \<longleftrightarrow> addr_IsValid (ap_Addr ap) \<and> \<not> Is4In6 (ap_Addr ap) \<and> ap_Zone ap = []"

text \<open>The address with the network of the reader.\<close>

fun with_network :: "string \<Rightarrow> address \<Rightarrow> address" where
  "with_network net (DomainAddr h p _) = DomainAddr h p (ParseAddressNetwork net)"
| "with_network net (IPAddr ap _) = IPAddr ap (ParseAddressNetwork net)"

lemma IsDomainName_length: "IsDomainName h \<Longrightarrow> length h \<le> 254"
  by (auto simp: IsDomainName_def Let_def split: if_splits)

lemma ParseIPAddr_AsSlice:
  assumes "addr_IsValid a" and "\<not> Is4In6 a"
  shows "ParseIPAddr net (AsSlice a) p = IPAddr \<lparr>ap_Addr = a, ap_Zone = [], ap_Port = p\<rparr> (ParseAddressNetwork net)"
proof -
  have "Unmap a = a" using assms by (cases a) auto
  then show ?thesis by (simp add: ParseIPAddr_def toAddrPort_def AddrFromSlice_AsSlice [OF assms(1)] del: AsSlice.simps)
qed

lemma length_AsSlice_family: "Is4 a \<Longrightarrow> length (AsSlice a) = 4" "addr_IsValid a \<Longrightarrow> \<not> Is4 a \<Longrightarrow> length (AsSlice a) = 16"
  by (cases a; simp)+

lemma ReadAddr_WriteAddr:
  assumes "wire_address ad"
  shows "ReadAddr net (WriteAddr ad @ rest) = Inr ((length (WriteAddr ad), with_network net ad), rest)"
proof (cases ad)
  case (DomainAddr h p n)
  have l: "length h \<le> 254" and d: "IsDomainName h" using assms DomainAddr IsDomainName_length by auto
  have "unat (of_nat (length h) :: u8) = length h" using l by (simp add: unat_of_nat)
  then show ?thesis using DomainAddr d by (simp add: ReadAddr_def WriteAddr_def addr_types ParseDomainPort_def)
next
  case (IPAddr ap n)
  then have v: "addr_IsValid (ap_Addr ap)" "\<not> Is4In6 (ap_Addr ap)" "ap_Zone ap = []" using assms by auto
  have "\<lparr>ap_Addr = ap_Addr ap, ap_Zone = [], ap_Port = ap_Port ap\<rparr> = ap" using v(3) by (cases ap) simp
  then show ?thesis using IPAddr length_AsSlice_family [of "ap_Addr ap"] v ParseIPAddr_AsSlice [OF v(1,2)]
    by (cases "Is4 (ap_Addr ap)") (simp_all add: ReadAddr_def WriteAddr_def addr_types del: AsSlice.simps)
qed

lemma length_WriteAddr:
  "wire_address ad \<Longrightarrow> length (WriteAddr ad) \<le> MaxAddrLength \<and> 5 \<le> length (WriteAddr ad)"
proof (cases ad)
  case (DomainAddr h p n)
  assume "wire_address ad"
  then have "length h \<le> 254" "h \<noteq> []" using DomainAddr IsDomainName_length [of h] by (auto simp: IsDomainName_def Let_def)
  then show ?thesis using DomainAddr by (cases h) (simp_all add: WriteAddr_def MaxAddrLength_def)
next
  case (IPAddr ap n)
  assume "wire_address ad"
  then show ?thesis using IPAddr length_AsSlice_family [of "ap_Addr ap"]
    by (cases "Is4 (ap_Addr ap)") (simp_all add: WriteAddr_def MaxAddrLength_def del: AsSlice.simps)
qed

text \<open>Writing into a buffer gives the same bytes as writing to a stream.\<close>

lemma EncodeAddr_WriteAddr:
  assumes "wire_address ad" and "length (WriteAddr ad) \<le> length buf"
  shows "EncodeAddr ad buf = Some (length (WriteAddr ad), WriteAddr ad @ drop (length (WriteAddr ad)) buf)"
proof (cases ad)
  case (DomainAddr h p n)
  then show ?thesis using assms by (simp add: EncodeAddr_def WriteAddr_def Let_def)
next
  case (IPAddr ap n)
  have "length [if Is4 (ap_Addr ap) then 1 else 4 :: u8] = 1" by simp
  then show ?thesis using IPAddr assms
    by (cases "Is4 (ap_Addr ap)") (auto simp: EncodeAddr_def WriteAddr_def Let_def simp del: AsSlice.simps)
qed

lemma DecodeAddr_WriteAddr:
  assumes "wire_address ad"
  shows "DecodeAddr net (WriteAddr ad @ data) spare = Some (Inr (length (WriteAddr ad), with_network net ad))"
proof (cases ad)
  case (DomainAddr h p n)
  have l: "length h \<le> 254" and d: "IsDomainName h" using assms DomainAddr IsDomainName_length by auto
  have "unat (of_nat (length h) :: u8) = length h" using l by (simp add: unat_of_nat)
  then show ?thesis using DomainAddr d by (simp add: DecodeAddr_def WriteAddr_def addr_types ParseDomainPort_def)
next
  case (IPAddr ap n)
  then have v: "addr_IsValid (ap_Addr ap)" "\<not> Is4In6 (ap_Addr ap)" "ap_Zone ap = []" using assms by auto
  have "\<lparr>ap_Addr = ap_Addr ap, ap_Zone = [], ap_Port = ap_Port ap\<rparr> = ap" using v(3) by (cases ap) simp
  then show ?thesis using IPAddr length_AsSlice_family [of "ap_Addr ap"] v ParseIPAddr_AsSlice [OF v(1,2)]
    by (cases "Is4 (ap_Addr ap)") (simp_all add: DecodeAddr_def WriteAddr_def addr_types del: AsSlice.simps)
qed

lemma Addr_Address_WriteAddr: "wire_address ad \<Longrightarrow> Addr_Address net (WriteAddr ad) = Some (with_network net ad)"
proof (cases ad)
  case (DomainAddr h p n)
  assume "wire_address ad"
  then show ?thesis using DomainAddr by (simp add: Addr_Address_def WriteAddr_def addr_types ParseDomainPort_def)
next
  case (IPAddr ap n)
  assume w: "wire_address ad"
  then have v: "addr_IsValid (ap_Addr ap)" "\<not> Is4In6 (ap_Addr ap)" "ap_Zone ap = []" using IPAddr by auto
  have "\<lparr>ap_Addr = ap_Addr ap, ap_Zone = [], ap_Port = ap_Port ap\<rparr> = ap" using v(3) by (cases ap) simp
  then show ?thesis using IPAddr length_AsSlice_family [of "ap_Addr ap"] v ParseIPAddr_AsSlice [OF v(1,2)]
    by (cases "Is4 (ap_Addr ap)") (simp_all add: Addr_Address_def WriteAddr_def addr_types del: AsSlice.simps)
qed

lemma ResolveAddr_WriteAddr:
  assumes "wire_address ad" and "length (Hostname ad) < 252 \<or> \<not> IsFqdn ad"
  shows "ResolveAddr (WriteAddr ad @ rest) = Some (Inr (WriteAddr ad, rest))"
proof (cases ad)
  case (DomainAddr h p n)
  have l: "length h < 252" using assms DomainAddr by auto
  have "(1 :: u8) + 1 + of_nat (length h) + 2 = of_nat (length h + 4)" by simp
  then have "unat ((1 :: u8) + 1 + of_nat (length h) + 2) = length h + 4" using l by (simp only: unat_of_nat) simp
  then show ?thesis using DomainAddr by (simp add: ResolveAddr_def resolve_length_def WriteAddr_def addr_types)
next
  case (IPAddr ap n)
  then have v: "addr_IsValid (ap_Addr ap)" using assms by auto
  obtain b bs where b: "AsSlice (ap_Addr ap) = b # bs" using v by (cases "AsSlice (ap_Addr ap)"; cases "ap_Addr ap") (auto simp: bytes_be_def)
  have "Is4 (ap_Addr ap) \<Longrightarrow> length bs = 3" "\<not> Is4 (ap_Addr ap) \<Longrightarrow> length bs = 15"
    using length_AsSlice_family [of "ap_Addr ap"] v b by simp_all
  then show ?thesis using IPAddr b
    by (cases "Is4 (ap_Addr ap)") (simp_all add: ResolveAddr_def resolve_length_def WriteAddr_def addr_types del: AsSlice.simps)
qed

section \<open>Properties\<close>



text \<open>The length of a domain address wraps around in a byte: a name of 252 or 253 bytes, which a host name may have,
  makes the reader of \<^verbatim>\<open>ResolveAddr\<close> panic, where \<^verbatim>\<open>ReadAddr\<close> reads it.\<close>

theorem resolve_long_domain_panics:
  assumes "length h = 252 \<or> length h = 253"
  shows "ResolveAddr (WriteAddr (DomainAddr h p n) @ rest) = None"
proof -
  have "(1 :: u8) + 1 + of_nat (length h) + 2 = of_nat (length h + 4)" by simp
  then have "unat ((1 :: u8) + 1 + of_nat (length h) + 2) < 2" using assms by (auto simp only: unat_of_nat) simp_all
  then show ?thesis using assms by (auto simp: ResolveAddr_def resolve_length_def WriteAddr_def addr_types)
qed

theorem resolve_long_domain_panics_witness:
  "ResolveAddr (WriteAddr (DomainAddr (replicate 252 CHR ''a'') 80 TCP) @ []) = None"
  by (rule resolve_long_domain_panics) (simp only: length_replicate simp_thms)

end
