(* ===== verification/Yuubinsya.thy ===== *)
theory Yuubinsya
  imports Socks_Addr
begin

text \<open>
  The wire formats of the yuubinsya protocol (\<^verbatim>\<open>pkg/net/proxy/yuubinsya\<close>): the header of a connection
  (\<^verbatim>\<open>header.go\<close>), datagrams over a stream with their coalescing (\<^verbatim>\<open>uot.go\<close>) and authenticated datagrams
  (\<^verbatim>\<open>packet.go\<close>), which the SOCKS5 server also uses. The password is the hash both sides derive from the secret. A
  stream is the list of bytes still to come.
\<close>

section \<open>The header of a connection\<close>

record Header =
  hd_Addr :: "address option"
  hd_MigrateID :: u64
  hd_Protocol :: u8

definition ProtoTCP :: u8 where "ProtoTCP = 0b00000010"
definition ProtoPing :: u8 where "ProtoPing = 0b00000100"
definition ProtoUDP :: u8 where "ProtoUDP = 0b00000101"
definition UDPWithMigrateID :: u8 where "UDPWithMigrateID = 0b00000110"

lemmas protocols = ProtoTCP_def ProtoPing_def ProtoUDP_def UDPWithMigrateID_def

definition protocol_Network :: "u8 \<Rightarrow> u8" where
  "protocol_Network n = n AND 0b00000111"

definition protocol_Unknown :: "u8 \<Rightarrow> bool" where
  "protocol_Unknown n \<longleftrightarrow> protocol_Network n \<notin> {ProtoTCP, ProtoUDP, UDPWithMigrateID, ProtoPing}"

text \<open>Whether the header carries an address.\<close>

definition with_addr :: "u8 \<Rightarrow> bool" where
  "with_addr p \<longleftrightarrow> protocol_Network p = ProtoTCP \<or> p = ProtoPing"

text \<open>\<open>None\<close> is the nil dereference on a missing address.\<close>

definition EncodeHeader :: "bytes \<Rightarrow> Header \<Rightarrow> bytes option" where
  "EncodeHeader password header =
     (let front = [hd_Protocol header]
          @ (if protocol_Network (hd_Protocol header) = UDPWithMigrateID then PutUint64 (hd_MigrateID header) else [])
          @ password
      in if with_addr (hd_Protocol header) then map_option (\<lambda>ad. front @ WriteAddr ad) (hd_Addr header) else Some front)"

datatype header_error = HeaderRead string | UnknownNetwork u8 | WrongPassword | AddrFailed sock_error

definition sha256_Size :: nat where "sha256_Size = 32"

definition DecodeHeader :: "bytes \<Rightarrow> bytes \<Rightarrow> header_error + Header \<times> bytes" where
  "DecodeHeader password r =
     (case r of
        [] \<Rightarrow> Inl (HeaderRead ''net type'')
      | netbyte # r \<Rightarrow>
          if protocol_Unknown netbyte then Inl (UnknownNetwork netbyte)
          else if protocol_Network netbyte = UDPWithMigrateID \<and> length r < 8 then Inl (HeaderRead ''migrate id'')
          else
            let (migrate, r) = (if protocol_Network netbyte = UDPWithMigrateID then (word_be (take 8 r), drop 8 r) else (0, r)) in
            if length r < sha256_Size then Inl (HeaderRead ''password'')
            else if take sha256_Size r \<noteq> password then Inl WrongPassword
            else
              let r = drop sha256_Size r in
              if with_addr netbyte then
                (case ReadAddr ''tcp'' r of
                   Inl e \<Rightarrow> Inl (AddrFailed e)
                 | Inr ((_, target), r) \<Rightarrow> Inr (\<lparr>hd_Addr = Some target, hd_MigrateID = migrate, hd_Protocol = netbyte\<rparr>, r))
              else Inr (\<lparr>hd_Addr = None, hd_MigrateID = migrate, hd_Protocol = netbyte\<rparr>, r))"

section \<open>Datagrams over a stream\<close>

text \<open>The frame of a datagram: the error of an address that does not parse, or of a payload that is too large, is
  \<open>Inl\<close>; \<open>None\<close> a panic of the encoder.\<close>

definition uot_frame :: "bytes \<Rightarrow> bytes \<Rightarrow> sys_addr option \<Rightarrow> (string + bytes) option" where
  "uot_frame stale payload ad =
     (let bufLen = length payload in
      if bufLen > MaxSegmentSize then Some (Inl ''payload too large'')
      else case ParseSysAddr ad of
          None \<Rightarrow> Some (Inl ''failed to parse addr'')
        | Some taddr \<Rightarrow>
            (case EncodeAddr taddr (GetBytes stale (bufLen + MaxAddrLength + 2)) of
               None \<Rightarrow> None
             | Some (addrLen, buf) \<Rightarrow> Some (Inr (take addrLen buf @ PutUint16 (of_nat bufLen) @ payload))))"

text \<open>The number of bytes that \<^verbatim>\<open>WriteTo\<close> reports: without coalescing it is that of the whole frame.\<close>

definition WriteTo_count :: "bool \<Rightarrow> bytes \<Rightarrow> bytes \<Rightarrow> nat" where
  "WriteTo_count coalesce frame payload = (if coalesce then length payload else length frame)"

text \<open>One read into a buffer of \<open>plen\<close> bytes.\<close>

definition uot_ReadFrom :: "nat \<Rightarrow> bytes \<Rightarrow> (string + (bytes \<times> address) \<times> bytes)" where
  "uot_ReadFrom plen r =
     (case ReadAddr ''udp'' r of
        Inl _ \<Rightarrow> Inl ''failed to resolve udp packet addr''
      | Inr ((_, ad), r) \<Rightarrow>
          if length r < 2 then Inl ''peek length failed''
          else
            let l = unat (word_be (take 2 r) :: u16); r = drop 2 r; offset = min plen l in
            if length r < offset then Inl ''read data failed''
            else if length r < l then Inl ''discard data failed''
            else Inr ((take offset r, ad), drop l r))"

text \<open>The flush loop: \<open>chan\<close> is what waits in the channel when the loop looks at it. One call of \<^verbatim>\<open>flush\<close> writes the
  first frame and drains the channel until the buffer is larger than its size.\<close>

fun drain :: "nat \<Rightarrow> bytes \<Rightarrow> bytes list \<Rightarrow> bytes \<times> bytes list" where
  "drain buffSize buffer [] = (buffer, [])"
| "drain buffSize buffer (b # chan) =
     (if length (buffer @ b) > buffSize then (buffer @ b, chan) else drain buffSize (buffer @ b) chan)"

definition uot_flush :: "nat \<Rightarrow> bytes \<Rightarrow> bytes list \<Rightarrow> bytes \<times> bytes list" where
  "uot_flush buffSize first chan = (if chan = [] then (first, []) else drain buffSize first chan)"

lemma drain_length: "length (snd (drain n b chan)) \<le> length chan"
  by (induction n b chan rule: drain.induct) auto

lemma uot_flush_length: "uot_flush n f chan = (w, chan') \<Longrightarrow> length chan' \<le> length chan"
  using drain_length [of n f chan] by (auto simp: uot_flush_def split: if_splits)

function loopflush :: "nat \<Rightarrow> bytes list \<Rightarrow> bytes list" where
  "loopflush buffSize [] = []"
| "loopflush buffSize (first # chan) =
     (case uot_flush buffSize first chan of (w, chan') \<Rightarrow> w # loopflush buffSize chan')"
  by pat_completeness auto
termination
  by (relation "measure (length \<circ> snd)") (auto simp: less_Suc_eq_le dest: sym uot_flush_length)

section \<open>Authenticated datagrams\<close>

definition MaxPacketHeaderSize :: "bytes \<Rightarrow> bool \<Rightarrow> nat" where
  "MaxPacketHeaderSize password pfx = length password + (if pfx then 3 else 0) + MaxAddrLength"

definition EncodePacket :: "bytes \<Rightarrow> sys_addr option \<Rightarrow> bytes \<Rightarrow> bytes \<Rightarrow> bool \<Rightarrow> (string + bytes) option" where
  "EncodePacket dst ad data password pfx =
     (case ParseSysAddr ad of
        None \<Rightarrow> Some (Inl ''parse addr failed'')
      | Some a \<Rightarrow>
          let front = take (length dst) password;
              front = front @ (if pfx then take (length dst - length front) [0, 0, 0] else [])
          in case EncodeAddr a (drop (length front) dst) of
              None \<Rightarrow> None
            | Some (n, b) \<Rightarrow> Some (Inr (front @ take n b @ take (length dst - length front - n) data)))"

text \<open>\<open>spare\<close> is the backing array behind the datagram.\<close>

definition DecodePacket :: "bytes \<Rightarrow> bytes \<Rightarrow> bytes \<Rightarrow> bool \<Rightarrow> (string + bytes \<times> address) option" where
  "DecodePacket r spare password pfx =
     (if length r < MaxPacketHeaderSize password pfx - MaxAddrLength then Some (Inl ''packet is not enough'')
      else if length password > 0 \<and> take (length password) r \<noteq> password then Some (Inl ''key is incorrect'')
      else
        let r = drop (length password + (if pfx then 3 else 0)) r in
        case DecodeAddr ''udp'' r spare of
          None \<Rightarrow> None
        | Some (Inl e) \<Rightarrow> Some (Inl ''decode addr failed'')
        | Some (Inr (an, ad)) \<Rightarrow> if length r < an then None else Some (Inr (drop an r, ad)))"

text \<open>The write of a connection: the frame it hands to the socket.\<close>

definition auth_write :: "bytes \<Rightarrow> bytes \<Rightarrow> sys_addr option \<Rightarrow> bytes \<Rightarrow> bool \<Rightarrow> (string + bytes) option" where
  "auth_write stale p ad password pfx =
     (if int (length p) > int MaxSegmentSize - int (MaxPacketHeaderSize password pfx) then Some (Inl ''packet too large'')
      else EncodePacket (GetBytes stale (length p + MaxPacketHeaderSize password pfx)) ad p password pfx)"

section \<open>Properties of the header\<close>

definition header_ok :: "Header \<Rightarrow> bool" where
  "header_ok h \<longleftrightarrow> \<not> protocol_Unknown (hd_Protocol h) \<and>
     (with_addr (hd_Protocol h) \<longrightarrow> (\<exists>ad. hd_Addr h = Some ad \<and> wire_address ad))"

text \<open>What the other side sees of a header.\<close>

definition seen_header :: "Header \<Rightarrow> Header" where
  "seen_header h = \<lparr>hd_Addr = (if with_addr (hd_Protocol h) then map_option (with_network ''tcp'') (hd_Addr h) else None),
     hd_MigrateID = (if protocol_Network (hd_Protocol h) = UDPWithMigrateID then hd_MigrateID h else 0), hd_Protocol = hd_Protocol h\<rparr>"


lemma demo_passwords: "length (replicate 32 (1 :: u8)) = sha256_Size" "length (replicate 32 (2 :: u8)) = sha256_Size" "replicate 32 (2 :: u8) \<noteq> replicate 32 1"
  by (simp_all add: sha256_Size_def)


text \<open>A ping whose option bits are not all zero is a ping for the server, which then pings the address of the header,
  but the header carries no address: encoder and decoder compare the whole byte.\<close>

theorem ping_options_lose_addr:
  assumes "protocol_Network p = ProtoPing" and "p \<noteq> ProtoPing" and "length password = sha256_Size"
  shows "EncodeHeader password \<lparr>hd_Addr = Some ad, hd_MigrateID = 0, hd_Protocol = p\<rparr> = Some (p # password) \<and>
    DecodeHeader password ((p # password) @ rest) = Inr (\<lparr>hd_Addr = None, hd_MigrateID = 0, hd_Protocol = p\<rparr>, rest)"
  using assms by (auto simp: EncodeHeader_def DecodeHeader_def with_addr_def protocol_Unknown_def protocols)

theorem ping_options_lose_addr_witness:
  "DecodeHeader (replicate 32 1) ((0b00001100 # replicate 32 1) @ []) = Inr (\<lparr>hd_Addr = None, hd_MigrateID = 0, hd_Protocol = 0b00001100\<rparr>, [])"
proof -
  have "protocol_Network 0b00001100 = ProtoPing" "(0b00001100 :: u8) \<noteq> ProtoPing" by (simp_all add: protocol_Network_def protocols)
  from ping_options_lose_addr [OF this demo_passwords(1)] show ?thesis by blast
qed

section \<open>Properties of the datagrams over a stream\<close>

lemma uot_frame_eq:
  assumes "length payload \<le> MaxSegmentSize" and "ParseSysAddr ad = Some a" and "wire_address a"
  shows "uot_frame stale payload ad = Some (Inr (WriteAddr a @ PutUint16 (of_nat (length payload)) @ payload))"
  using assms length_WriteAddr [OF assms(3)] EncodeAddr_WriteAddr [OF assms(3), of "GetBytes stale (length payload + MaxAddrLength + 2)"]
  by (simp add: uot_frame_def Let_def)

lemma uot_ReadFrom_frame:
  assumes "length payload \<le> MaxSegmentSize" and "wire_address a"
  shows "uot_ReadFrom plen ((WriteAddr a @ PutUint16 (of_nat (length payload)) @ payload) @ rest) =
    Inr ((take plen payload, with_network ''udp'' a), rest)"
proof -
  have "unat (of_nat (length payload) :: u16) = length payload" using assms(1) by (simp add: unat_of_nat MaxSegmentSize_def)
  then show ?thesis
    using ReadAddr_WriteAddr [OF assms(2), of "''udp''" "PutUint16 (of_nat (length payload)) @ payload @ rest"]
    by (auto simp: uot_ReadFrom_def Let_def min_def)
qed

lemma drain_concat: "drain n b chan = (w, chan') \<Longrightarrow> w @ concat chan' = b @ concat chan"
  by (induction n b chan rule: drain.induct) (auto split: if_splits)

lemma concat_loopflush: "concat (loopflush n chan) = concat chan"
proof (induction n chan rule: loopflush.induct)
  case (2 n f chan)
  obtain w c where w: "uot_flush n f chan = (w, c)" by fastforce
  then have "w @ concat c = f @ concat chan" using drain_concat [of n f chan] by (auto simp: uot_flush_def split: if_splits)
  then show ?case using 2 w by simp
qed simp

fun read_all :: "nat \<Rightarrow> nat \<Rightarrow> bytes \<Rightarrow> (bytes \<times> address) list" where
  "read_all plen 0 r = []"
| "read_all plen (Suc n) r = (case uot_ReadFrom plen r of Inl _ \<Rightarrow> [] | Inr (d, r) \<Rightarrow> d # read_all plen n r)"

text \<open>C26: Datagrams written to a stream, coalesced or not, are read one by one as they were written: each with its address
  and cut to the size of the buffer of its reader, whatever the writes of the flush loop joined.\<close>

theorem uot_stream_keeps_datagrams:
  assumes "\<forall>(d, a) \<in> set ps. length d \<le> MaxSegmentSize \<and> wire_address a"
  shows "\<exists>frames. map (\<lambda>(d, a). uot_frame stale d (Some (SysAddress a))) ps = map (Some \<circ> Inr) frames \<and>
    concat (loopflush buffSize frames) = concat frames \<and>
    read_all plen (length ps) (concat (loopflush buffSize frames)) = map (\<lambda>(d, a). (take plen d, with_network ''udp'' a)) ps"
proof -
  let ?f = "\<lambda>(d, a). WriteAddr a @ PutUint16 (of_nat (length d)) @ d"
  have "map (\<lambda>(d, a). uot_frame stale d (Some (SysAddress a))) ps = map (Some \<circ> Inr) (map ?f ps)"
    using assms by (auto simp: uot_frame_eq)
  moreover have "read_all plen (length ps) (concat (map ?f ps)) = map (\<lambda>(d, a). (take plen d, with_network ''udp'' a)) ps"
    using assms
  proof (induction ps)
    case (Cons p ps)
    obtain d a where p: "p = (d, a)" by fastforce
    show ?case using Cons uot_ReadFrom_frame [of d a plen "concat (map ?f ps)"] by (simp add: p)
  qed simp
  ultimately show ?thesis by (intro exI [of _ "map ?f ps"]) (simp add: concat_loopflush)
qed

theorem uot_stream_keeps_datagrams_witness:
  "\<exists>frames. map (\<lambda>(d, a). uot_frame [] d (Some (SysAddress a))) [([1, 2, 3], DomainAddr ''a.b'' 53 UDP), ([], DomainAddr ''c'' 1 UDP)] = map (Some \<circ> Inr) frames \<and>
    read_all 2 2 (concat (loopflush 4 frames)) = [([1, 2], DomainAddr ''a.b'' 53 UDP), ([], DomainAddr ''c'' 1 UDP)]"
proof -
  have "wire_address (DomainAddr ''a.b'' 53 UDP)" "wire_address (DomainAddr ''c'' 1 UDP)" by code_simp+
  then have "\<forall>(d, a) \<in> set [([1, 2, 3] :: bytes, DomainAddr ''a.b'' 53 UDP), ([], DomainAddr ''c'' 1 UDP)]. length d \<le> MaxSegmentSize \<and> wire_address a"
    by (simp add: MaxSegmentSize_def del: wire_address.simps)
  from uot_stream_keeps_datagrams [OF this, of "[]" 4 2] obtain frames where
    f: "map (\<lambda>(d, a). uot_frame [] d (Some (SysAddress a))) [([1, 2, 3], DomainAddr ''a.b'' 53 UDP), ([], DomainAddr ''c'' 1 UDP)] = map (Some \<circ> Inr) frames"
    and r: "read_all 2 (length [([1, 2, 3] :: bytes, DomainAddr ''a.b'' 53 UDP), ([], DomainAddr ''c'' 1 UDP)]) (concat (loopflush 4 frames)) =
      map (\<lambda>(d, a). (take 2 d, with_network ''udp'' a)) [([1, 2, 3], DomainAddr ''a.b'' 53 UDP), ([], DomainAddr ''c'' 1 UDP)]"
    by blast
  have "read_all 2 2 (concat (loopflush 4 frames)) = [([1, 2], DomainAddr ''a.b'' 53 UDP), ([], DomainAddr ''c'' 1 UDP)]"
    using r by (simp add: ParseAddressNetwork_def numeral_2_eq_2 del: read_all.simps)
  with f show ?thesis by blast
qed

section \<open>Properties of authenticated datagrams\<close>



text \<open>C38: A datagram that ends inside its IP address makes the decoder panic, whatever follows it in the buffer; for the
  SOCKS5 server, which has no password, any sender can send it.\<close>

theorem short_datagram_panics:
  assumes "length z = (if pfx then 3 else 0)" and "2 \<le> length b" and "t = IPv4 \<and> length b < 6 \<or> t = IPv6 \<and> length b < 18"
  shows "DecodePacket (z @ t # b) spare [] pfx = None"
proof -
  have "case DecodeAddr ''udp'' (t # b) spare of None \<Rightarrow> True | Some (Inl e) \<Rightarrow> False | Some (Inr (n, ad)) \<Rightarrow> length (t # b) < n"
    using assms(2,3) by (auto simp: DecodeAddr_def addr_types)
  then show ?thesis using assms(1)
    by (simp add: DecodePacket_def MaxPacketHeaderSize_def split: option.splits sum.splits prod.splits)
qed

theorem short_datagram_panics_witness:
  "DecodePacket [0, 0, 0, 1, 10, 10] (replicate 9 0) [] True = None"
  using short_datagram_panics [of "[0, 0, 0]" True "[10, 10]" 1 "replicate 9 0"] by (simp add: addr_types)

end
