(* ===== verification/Quic_Frag.thy ===== *)
theory Quic_Frag
  imports Wire "HOL-Library.Multiset"
begin

text \<open>
  Splitting of packets into QUIC datagrams and their reassembly (\<^verbatim>\<open>pkg/net/proxy/quic/frag.go\<close>). The map of unfinished
  packets is a partial function; the time a packet was first seen, which only the minute timer reads, is kept. \<open>None\<close>
  as a result of the reassembly is the nil buffer; the outer option of \<open>Receive\<close> is the panic.
\<close>

section \<open>Frames\<close>

definition FragmentTypeSplit :: u8 where "FragmentTypeSplit = 1"
definition FragmentTypeSingle :: u8 where "FragmentTypeSingle = 2"

lemmas frag_types = FragmentTypeSplit_def FragmentTypeSingle_def

definition NewFragFrameBytesBuffer :: "u8 \<Rightarrow> u64 \<Rightarrow> u8 \<Rightarrow> u8 \<Rightarrow> bytes \<Rightarrow> bytes" where
  "NewFragFrameBytesBuffer t fid ftotal current payload =
     (if t = FragmentTypeSingle then t # payload else t # PutUint64 fid @ [ftotal, current] @ payload)"

definition frame_Type :: "bytes \<Rightarrow> u8" where
  "frame_Type f = (if length f < 1 then 0 else f ! 0)"

definition frame_ID :: "bytes \<Rightarrow> u64" where
  "frame_ID f = (if length f < 1 + 8 then 0 else word_be (take 8 (drop 1 f)))"

definition frame_Total :: "bytes \<Rightarrow> u8" where
  "frame_Total f = (if length f < 1 + 8 + 1 then 0 else f ! 9)"

definition frame_Current :: "bytes \<Rightarrow> u8" where
  "frame_Current f = (if length f < 1 + 8 + 1 + 1 then 0 else f ! 10)"

definition frame_Payload :: "bytes \<Rightarrow> bytes" where
  "frame_Payload f =
     (if frame_Type f = FragmentTypeSingle then drop 1 f
      else if length f < 1 + 8 + 1 + 1 then [] else drop 11 f)"

section \<open>Reassembly\<close>

record MergeFrag =
  mf_time :: int
  mf_Data :: "bytes list"
  mf_Count :: u32
  mf_Total :: u32
  mf_TotalLen :: u32

record Frag =
  fr_mergeMap :: "u64 \<Rightarrow> MergeFrag option"
  fr_SplitID :: u64

definition new_Frag :: Frag where
  "new_Frag = \<lparr>fr_mergeMap = (\<lambda>_. None), fr_SplitID = 0\<rparr>"

definition Merge :: "int \<Rightarrow> bytes \<Rightarrow> Frag \<Rightarrow> bytes option \<times> Frag" where
  "Merge now buf f =
     (if frame_Type buf = FragmentTypeSingle then (Some (frame_Payload buf), f)
      else
        let ftotal = frame_Total buf; index = frame_Current buf; fid = frame_ID buf; mf = fr_mergeMap f fid in
        if frame_Type buf \<noteq> FragmentTypeSplit \<or> ftotal = 0 \<or> ftotal \<le> index \<or>
           (case mf of None \<Rightarrow> False | Some m \<Rightarrow> ucast ftotal \<noteq> mf_Total m)
        then (None, f\<lparr>fr_mergeMap := (fr_mergeMap f)(fid := None)\<rparr>)
        else
          let m = (case mf of
                Some m \<Rightarrow> m
              | None \<Rightarrow> \<lparr>mf_time = now, mf_Data = replicate (unat ftotal) [], mf_Count = 0, mf_Total = ucast ftotal, mf_TotalLen = 0\<rparr>);
              m = m\<lparr>mf_Data := (mf_Data m)[unat index := frame_Payload buf],
                    mf_TotalLen := mf_TotalLen m + of_nat (length (frame_Payload buf)), mf_Count := mf_Count m + 1\<rparr>
          in if mf_Count m = mf_Total m then (Some (concat (mf_Data m)), f\<lparr>fr_mergeMap := (fr_mergeMap f)(fid := None)\<rparr>)
             else (None, f\<lparr>fr_mergeMap := (fr_mergeMap f)(fid := Some m)\<rparr>))"

text \<open>The minute timer drops packets that are older than half a minute.\<close>

definition frag_expire :: "int \<Rightarrow> Frag \<Rightarrow> Frag" where
  "frag_expire now f = f\<lparr>fr_mergeMap := (\<lambda>fid. case fr_mergeMap f fid of
       Some m \<Rightarrow> if now - mf_time m > 30 * 10 ^ 9 then None else Some m | None \<Rightarrow> None)\<rparr>"

section \<open>Splitting\<close>

definition frag_headerSize :: nat where "frag_headerSize = 1 + 8 + 1 + 1"

definition frag_slice :: "bytes \<Rightarrow> nat \<Rightarrow> nat \<Rightarrow> nat \<Rightarrow> bytes" where
  "frag_slice buf m frames i = (if i = frames - 1 then drop (i * m) buf else take m (drop (i * m) buf))"

definition frag_count :: "nat \<Rightarrow> nat \<Rightarrow> nat" where
  "frag_count n m = n div m + (if n mod m \<noteq> 0 then 1 else 0)"

text \<open>The frames, or no frames at all when the packet cannot be split.\<close>

definition frag_Split :: "bytes \<Rightarrow> int \<Rightarrow> Frag \<Rightarrow> bytes list \<times> Frag" where
  "frag_Split buf maxSize f =
     (if maxSize \<le> int frag_headerSize then ([], f)
      else if int (length buf) < maxSize - 1 then ([NewFragFrameBytesBuffer FragmentTypeSingle 0 1 0 buf], f)
      else
        let m = nat maxSize - frag_headerSize;
            frames = frag_count (length buf) m
        in if frames > 255 then ([], f)
           else
             let fid = fr_SplitID f + 1 in
             (map (\<lambda>i. NewFragFrameBytesBuffer FragmentTypeSplit fid (of_nat frames) (of_nat i) (frag_slice buf m frames i)) [0..<frames],
              f\<lparr>fr_SplitID := fid\<rparr>))"

text \<open>A packet on the connection starts with the number of its session. \<open>Inl\<close>: the datagram completed no packet and
  the connection waits for the next.\<close>

definition frag_Write :: "bytes \<Rightarrow> u64 \<Rightarrow> int \<Rightarrow> Frag \<Rightarrow> bytes list \<times> Frag" where
  "frag_Write b fid maxSize f = frag_Split (PutUint64 fid @ b) maxSize f"

definition frag_Receive :: "int \<Rightarrow> bytes \<Rightarrow> Frag \<Rightarrow> ((unit + u64 \<times> bytes) \<times> Frag) option" where
  "frag_Receive now data f =
     (case Merge now data f of
        (None, f) \<Rightarrow> Some (Inl (), f)
      | (Some buf, f) \<Rightarrow> (case Uint64 buf of None \<Rightarrow> None | Some fid \<Rightarrow> Some (Inr (fid, drop 8 buf), f)))"

section \<open>The frames of a packet\<close>

lemma frame_split [simp]:
  assumes "t = FragmentTypeSplit"
  shows "frame_Type (NewFragFrameBytesBuffer t fid n i d) = FragmentTypeSplit" "frame_ID (NewFragFrameBytesBuffer t fid n i d) = fid"
    "frame_Total (NewFragFrameBytesBuffer t fid n i d) = n" "frame_Current (NewFragFrameBytesBuffer t fid n i d) = i"
    "frame_Payload (NewFragFrameBytesBuffer t fid n i d) = d"
  using assms by (simp_all add: NewFragFrameBytesBuffer_def frame_Type_def frame_ID_def frame_Total_def frame_Current_def frame_Payload_def
      frag_types nth_Cons' nth_append)

lemma concat_takes: "concat (map (\<lambda>i. take m (drop (i * m) buf)) [0..<k]) = take (k * m) buf"
proof (induction k)
  case (Suc k)
  then show ?case by (simp add: take_add add.commute [of m])
qed simp

lemma concat_slices:
  assumes "0 < n"
  shows "concat (map (frag_slice buf m n) [0..<n]) = buf"
proof -
  obtain k where n: "n = Suc k" using assms by (cases n) auto
  have "map (frag_slice buf m n) [0..<k] = map (\<lambda>i. take m (drop (i * m) buf)) [0..<k]" by (auto simp: frag_slice_def n)
  then have "concat (map (frag_slice buf m n) [0..<k]) = take (k * m) buf" by (simp only: concat_takes)
  moreover have "[0..<n] = [0..<k] @ [k]" "frag_slice buf m n k = drop (k * m) buf" by (simp_all add: n frag_slice_def)
  ultimately show ?thesis by simp
qed

section \<open>Packets do not disturb each other\<close>

text \<open>A datagram that belongs to the packet \<open>fid\<close>.\<close>

definition split_of :: "u64 \<Rightarrow> bytes \<Rightarrow> bool" where
  "split_of fid d \<longleftrightarrow> frame_Type d \<noteq> FragmentTypeSingle \<and> frame_ID d = fid"

definition merge_slot :: "int \<Rightarrow> bytes \<Rightarrow> MergeFrag option \<Rightarrow> bytes option \<times> MergeFrag option" where
  "merge_slot now d s = (let (r, f) = Merge now d \<lparr>fr_mergeMap = (\<lambda>_. s), fr_SplitID = 0\<rparr> in (r, fr_mergeMap f (frame_ID d)))"

lemma Merge_other: "\<not> split_of fid d \<Longrightarrow> fr_mergeMap (snd (Merge now d f)) fid = fr_mergeMap f fid"
  by (auto simp: Merge_def split_of_def Let_def)

lemma Merge_slot:
  "split_of fid d \<Longrightarrow> fst (Merge now d f) = fst (merge_slot now d (fr_mergeMap f fid)) \<and>
    fr_mergeMap (snd (Merge now d f)) fid = snd (merge_slot now d (fr_mergeMap f fid))"
  by (simp add: Merge_def merge_slot_def split_of_def Let_def)

fun frag_trace :: "(int \<times> bytes) list \<Rightarrow> Frag \<Rightarrow> (bytes \<times> bytes option) list" where
  "frag_trace [] f = []"
| "frag_trace ((now, d) # ds) f = (case Merge now d f of (r, f) \<Rightarrow> (d, r) # frag_trace ds f)"

fun slot_trace :: "(int \<times> bytes) list \<Rightarrow> MergeFrag option \<Rightarrow> bytes option list" where
  "slot_trace [] s = []"
| "slot_trace ((now, d) # ds) s = (case merge_slot now d s of (r, s) \<Rightarrow> r # slot_trace ds s)"

lemma frag_trace_slot:
  "map snd (filter (\<lambda>(d, r). split_of fid d) (frag_trace ds f)) = slot_trace (filter (\<lambda>(now, d). split_of fid d) ds) (fr_mergeMap f fid)"
proof (induction ds arbitrary: f)
  case (Cons p ds)
  obtain now d where p: "p = (now, d)" by fastforce
  obtain r g where m: "Merge now d f = (r, g)" by fastforce
  show ?case
  proof (cases "split_of fid d")
    case True
    then show ?thesis using Cons [of g] Merge_slot [of fid d now f] m by (simp add: p split: prod.split)
  next
    case False
    then show ?thesis using Cons [of g] Merge_other [of fid d now f] m by (simp add: p)
  qed
qed simp

section \<open>Reassembly of one packet\<close>

definition frame_at :: "u64 \<Rightarrow> nat \<Rightarrow> (nat \<Rightarrow> bytes) \<Rightarrow> nat \<Rightarrow> bytes" where
  "frame_at fid n sl i = NewFragFrameBytesBuffer FragmentTypeSplit fid (of_nat n) (of_nat i) (sl i)"

text \<open>The slot after the frames \<open>js\<close> have arrived.\<close>

definition slot_after :: "nat \<Rightarrow> (nat \<Rightarrow> bytes) \<Rightarrow> nat list \<Rightarrow> MergeFrag \<Rightarrow> bool" where
  "slot_after n sl js m \<longleftrightarrow> mf_Data m = map (\<lambda>i. if i \<in> set js then sl i else []) [0..<n] \<and>
     mf_Count m = of_nat (length js) \<and> mf_Total m = of_nat n"

lemma small_words:
  "n \<le> 255 \<Longrightarrow> unat (of_nat n :: u8) = n" "n \<le> 255 \<Longrightarrow> (ucast (of_nat n :: u8) :: u32) = of_nat n"
  "i \<le> 255 \<Longrightarrow> k \<le> 255 \<Longrightarrow> (of_nat i :: u32) = of_nat k \<longleftrightarrow> i = k"
  by (simp_all add: unat_of_nat word_eq_iff_unsigned [where 'a = nat] unsigned_ucast_eq take_bit_nat_eq_self_iff)

lemma merge_slot_step:
  assumes n: "0 < n" "n \<le> 255" and i: "i < n" "i \<notin> set js" and l: "length js < n"
    and s: "s = None \<and> js = [] \<or> (\<exists>m. s = Some m \<and> slot_after n sl js m)"
  shows "\<exists>m. slot_after n sl (i # js) m \<and>
    merge_slot now (frame_at fid n sl i) s = (if length (i # js) = n then (Some (concat (mf_Data m)), None) else (None, Some m))"
proof -
  have w: "unat (of_nat n :: u8) = n" "unat (of_nat i :: u8) = i" "(ucast (of_nat n :: u8) :: u32) = of_nat n"
    using small_words n i by auto
  have z: "(of_nat n :: u8) \<noteq> 0" "\<not> (of_nat n :: u8) \<le> of_nat i"
    using w n i by (auto simp: word_le_nat_alt)
  have c: "(of_nat (length js) + 1 :: u32) = of_nat n \<longleftrightarrow> length (i # js) = n"
    using small_words(3) [of "Suc (length js)" n] l n by (simp add: add.commute)
  define m0 where "m0 = (case s of Some m \<Rightarrow> m | None \<Rightarrow>
      \<lparr>mf_time = now, mf_Data = replicate n [], mf_Count = 0, mf_Total = of_nat n, mf_TotalLen = 0\<rparr>)"
  have m0: "slot_after n sl js m0"
    using s by (auto simp: m0_def slot_after_def map_replicate_const)
  define m where "m = m0\<lparr>mf_Data := (mf_Data m0)[i := sl i],
      mf_TotalLen := mf_TotalLen m0 + of_nat (length (sl i)), mf_Count := mf_Count m0 + 1\<rparr>"
  have t: "(case s of None \<Rightarrow> False | Some m \<Rightarrow> of_nat n \<noteq> mf_Total m) = False" using s by (auto simp: slot_after_def)
  have "slot_after n sl (i # js) m" using m0 i
    by (auto simp: slot_after_def m_def list_eq_iff_nth_eq nth_list_update)
  moreover have "merge_slot now (frame_at fid n sl i) s = (if length (i # js) = n then (Some (concat (mf_Data m)), None) else (None, Some m))"
    unfolding merge_slot_def Merge_def frame_at_def frame_split [OF refl] Let_def w
    using z c t m0 by (simp add: slot_after_def m_def m0_def frag_types cong: option.case_cong)
  ultimately show ?thesis by blast
qed

lemma slot_trace_frames:
  assumes n: "0 < n" "n \<le> 255"
  shows "distinct (js @ map fst ps) \<Longrightarrow> set (js @ map fst ps) = {..<n} \<Longrightarrow> ps \<noteq> [] \<Longrightarrow>
    s = None \<and> js = [] \<or> (\<exists>m. s = Some m \<and> slot_after n sl js m) \<Longrightarrow>
    slot_trace (map (\<lambda>(i, now). (now, frame_at fid n sl i)) ps) s =
      replicate (length ps - 1) None @ [Some (concat (map sl [0..<n]))]"
proof (induction ps arbitrary: js s)
  case (Cons p ps)
  obtain i now where p: "p = (i, now)" by fastforce
  have i: "i < n" "i \<notin> set js" using Cons.prems(1,2) p by auto
  have card: "length (js @ map fst (p # ps)) = n" using distinct_card [OF Cons.prems(1)] Cons.prems(2) by simp
  then have l: "length js < n" by simp
  obtain m where m: "slot_after n sl (i # js) m"
      "merge_slot now (frame_at fid n sl i) s = (if length (i # js) = n then (Some (concat (mf_Data m)), None) else (None, Some m))"
    using merge_slot_step [OF n i l Cons.prems(4), of now fid] by auto
  show ?case
  proof (cases "ps = []")
    case True
    then have "set (i # js) = {..<n}" using Cons.prems(2) p by auto
    then have "mf_Data m = map sl [0..<n]" using m(1) unfolding slot_after_def by (simp only: lessThan_iff) simp
    then show ?thesis using True m(2) card by (simp add: p)
  next
    case False
    then have "length (i # js) \<noteq> n" using card by (cases ps) auto
    then have "merge_slot now (frame_at fid n sl i) s = (None, Some m)" using m(2) by simp
    moreover have "slot_trace (map (\<lambda>(i, now). (now, frame_at fid n sl i)) ps) (Some m) =
        replicate (length ps - 1) None @ [Some (concat (map sl [0..<n]))]"
    proof (rule Cons.IH [of "i # js" "Some m"])
      show "distinct ((i # js) @ map fst ps)" using Cons.prems(1) p by auto
      show "set ((i # js) @ map fst ps) = {..<n}" using Cons.prems(2) p by auto
    qed (use False m(1) in simp_all)
    ultimately show ?thesis using False by (cases ps) (simp_all add: p)
  qed
qed simp

lemma mset_map_pairs:
  assumes "mset (map snd ds) = mset (map f xs)"
  shows "\<exists>ps. mset (map fst ps) = mset xs \<and> ds = map (\<lambda>(x, t). (t, f x)) ps"
  using assms
proof (induction ds arbitrary: xs)
  case (Cons d ds)
  obtain t v where d: "d = (t, v)" by fastforce
  have "v \<in> set (map f xs)" using mset_eq_setD [OF Cons.prems] d by auto
  then obtain x where x: "x \<in> set xs" "v = f x" by auto
  have r: "mset (x # remove1 x xs) = mset xs" using x(1) by simp
  have "add_mset (f x) (mset (map f (remove1 x xs))) = mset (map f (x # remove1 x xs))" by simp
  also have "\<dots> = mset (map f xs)" using r by (simp only: mset_map)
  also have "\<dots> = add_mset (f x) (mset (map snd ds))" using Cons.prems d x(2) by simp
  finally have e: "mset (map snd ds) = mset (map f (remove1 x xs))" by simp
  obtain ps where ps: "mset (map fst ps) = mset (remove1 x xs)" "ds = map (\<lambda>(x, t). (t, f x)) ps" using Cons.IH [OF e] by auto
  have "mset (map fst ((x, t) # ps)) = mset (x # remove1 x xs)" using ps(1) by (simp only: list.map fst_conv mset.simps)
  then have "mset (map fst ((x, t) # ps)) = mset xs" using r by (simp only:)
  moreover have "d # ds = map (\<lambda>(x, t). (t, f x)) ((x, t) # ps)" using ps(2) d x(2) by simp
  ultimately show ?case by (intro exI [of _ "(x, t) # ps"] conjI)
qed simp

lemma frag_Split_frames:
  assumes "frag_Split buf maxSize f = (frames, f')" and "1 < length frames"
  shows "\<exists>n sl. 0 < n \<and> n \<le> 255 \<and> n = length frames \<and> frames = map (frame_at (fr_SplitID f') n sl) [0..<n] \<and> concat (map sl [0..<n]) = buf"
proof -
  let ?m = "nat maxSize - frag_headerSize"
  let ?n = "frag_count (length buf) ?m"
  have "?n \<le> 255" "fr_SplitID f' = fr_SplitID f + 1"
    "frames = map (frame_at (fr_SplitID f') ?n (frag_slice buf ?m ?n)) [0..<?n]"
    using assms by (auto simp: frag_Split_def frame_at_def Let_def split: if_splits)
  moreover from this have "length frames = ?n" by simp
  ultimately show ?thesis using assms(2) concat_slices [of ?n buf ?m] by (intro exI [of _ ?n] exI [of _ "frag_slice buf ?m ?n"]) simp
qed

section \<open>Properties\<close>

text \<open>C25: The datagrams of a packet give the packet back exactly once, when the last of them arrives: in whatever order they
  arrive, and whatever datagrams of other packets or garbage with other numbers arrive between them.\<close>

theorem fragments_reassemble:
  assumes split: "frag_Split buf maxSize f = (frames, f')" and more: "1 < length frames"
    and fresh: "fr_mergeMap g (fr_SplitID f') = None"
    and arrive: "mset (map snd (filter (\<lambda>(now, d). split_of (fr_SplitID f') d) ds)) = mset frames"
  shows "map snd (filter (\<lambda>(d, r). split_of (fr_SplitID f') d) (frag_trace ds g)) =
    replicate (length frames - 1) None @ [Some buf]"
proof -
  let ?fid = "fr_SplitID f'"
  obtain n sl where n: "0 < n" "n \<le> 255" "n = length frames" "frames = map (frame_at ?fid n sl) [0..<n]" and b: "concat (map sl [0..<n]) = buf"
    using frag_Split_frames [OF split more] by blast
  obtain ps where ps: "mset (map fst ps) = mset [0..<n]" "filter (\<lambda>(now, d). split_of ?fid d) ds = map (\<lambda>(i, t). (t, frame_at ?fid n sl i)) ps"
    using mset_map_pairs [of "filter (\<lambda>(now, d). split_of ?fid d) ds" "frame_at ?fid n sl" "[0..<n]"] arrive n(4) by auto
  have "distinct (map fst ps)" "set (map fst ps) = {..<n}" "length ps = n"
    using ps(1) mset_eq_imp_distinct_iff [OF ps(1)] mset_eq_setD [OF ps(1)] mset_eq_length [OF ps(1)] by auto
  moreover from this have "ps \<noteq> []" using n(1) by auto
  ultimately have "slot_trace (map (\<lambda>(i, t). (t, frame_at ?fid n sl i)) ps) None = replicate (length ps - 1) None @ [Some (concat (map sl [0..<n]))]"
    by (intro slot_trace_frames [OF n(1,2), of "[]"]) simp_all
  then show ?thesis using frag_trace_slot [of ?fid ds g] fresh ps(2) b \<open>length ps = n\<close> n(3) by simp
qed

lemma split_of_frames:
  assumes "frag_Split buf maxSize f = (frames, f')" and "1 < length frames" and "d \<in> set frames"
  shows "split_of (fr_SplitID f') d"
proof -
  obtain n sl where "frames = map (frame_at (fr_SplitID f') n sl) [0..<n]" using frag_Split_frames [OF assms(1,2)] by blast
  then show ?thesis using assms(3) by (auto simp: frame_at_def split_of_def frag_types frame_split [unfolded frag_types])
qed

theorem fragments_reassemble_witness:
  "let (frames, f') = frag_Split [0, 1, 2, 3, 4, 5, 6, 7, 8, 9, 10, 11] 13 new_Frag in
    length frames = 6 \<and>
    map snd (filter (\<lambda>(d, r). split_of (fr_SplitID f') d) (frag_trace (map (Pair 0) (rev frames)) new_Frag)) =
      replicate 5 None @ [Some [0, 1, 2, 3, 4, 5, 6, 7, 8, 9, 10, 11]]"
proof -
  let ?b = "[0, 1, 2, 3, 4, 5, 6, 7, 8, 9, 10, 11] :: bytes"
  obtain frames f' where s: "frag_Split ?b 13 new_Frag = (frames, f')" by fastforce
  have l: "length frames = 6"
    using arg_cong [OF s, of "\<lambda>x. length (fst x)"] by (simp add: frag_Split_def frag_headerSize_def frag_count_def Let_def)
  then have "filter (\<lambda>(now, d). split_of (fr_SplitID f') d) (map (Pair (0 :: int)) (rev frames)) = map (Pair 0) (rev frames)"
    using split_of_frames [OF s] by (auto simp: filter_id_conv)
  then have "mset (map snd (filter (\<lambda>(now, d). split_of (fr_SplitID f') d) (map (Pair (0 :: int)) (rev frames)))) = mset frames"
    by (simp add: o_def)
  from fragments_reassemble [OF s _ _ this, of new_Frag] show ?thesis unfolding s using l by (simp add: new_Frag_def)
qed

text \<open>A datagram that is a single frame of fewer than eight bytes makes the receiver panic: the number of the session is
  read without a check.\<close>

theorem short_single_frame_panics:
  "length d < 8 \<Longrightarrow> frag_Receive now (FragmentTypeSingle # d) f = None"
  by (simp add: frag_Receive_def Merge_def frame_Type_def frame_Payload_def Uint64_def)

theorem short_single_frame_panics_witness: "frag_Receive 0 (FragmentTypeSingle # []) new_Frag = None"
  using short_single_frame_panics [of "[]" 0 new_Frag] by simp

text \<open>The reassembly counts datagrams, not distinct ones: the same datagram twice completes a packet of two, without
  its second half.\<close>

theorem duplicate_frame_truncates:
  "frag_trace [(t, NewFragFrameBytesBuffer FragmentTypeSplit fid 2 0 p), (t, NewFragFrameBytesBuffer FragmentTypeSplit fid 2 0 p)] new_Frag =
    [(NewFragFrameBytesBuffer FragmentTypeSplit fid 2 0 p, None), (NewFragFrameBytesBuffer FragmentTypeSplit fid 2 0 p, Some p)]"
proof -
  have "replicate 2 [] = [[], [] :: bytes]" by (simp add: numeral_2_eq_2)
  then show ?thesis by (simp add: Merge_def new_Frag_def Let_def frag_types frame_split [unfolded frag_types])
qed

end
