(* ===== verification/Stun_Message.thy ===== *)
theory Stun_Message
  imports Wire
begin

unbundle bit_operations_syntax

text \<open>
  STUN messages (\<^verbatim>\<open>pkg/net/stun/message.go\<close>, \<^verbatim>\<open>attribute.go\<close>, \<^verbatim>\<open>helper.go\<close>, \<^verbatim>\<open>textattrs.go\<close>). A message owns a buffer that
  it reuses: \<open>m_Raw\<close> is the slice and \<open>m_Spare\<close> what the backing array holds behind it, up to its capacity, for
  instance of an earlier message. The values of attributes are copies; \<^verbatim>\<open>Encode\<close>, which writes a message over the buffer
  its attributes may be slices of, is left out, and so are the texts of messages and errors. \<open>None\<close> is a panic.
\<close>

section \<open>Types\<close>

record MessageType =
  mt_Method :: u16
  mt_Class :: u8

definition type_Value :: "MessageType \<Rightarrow> u16" where
  "type_Value t =
     (let m = mt_Method t;
          a = m AND 0xf; b = m AND 0x70; d = m AND 0xf80;
          m = a + push_bit 1 b + push_bit 2 d;
          c = ucast (mt_Class t) :: u16;
          c0 = push_bit 4 (c AND 1); c1 = push_bit 7 (c AND 2)
      in m + (c0 + c1))"

definition type_ReadValue :: "u16 \<Rightarrow> MessageType" where
  "type_ReadValue v =
     (let c0 = drop_bit 4 v AND 1; c1 = drop_bit 7 v AND 2; c = c0 + c1;
          a = v AND 0xf; b = drop_bit 1 v AND 0x70; d = drop_bit 2 v AND 0xf80
      in \<lparr>mt_Method = a + b + d, mt_Class = ucast c\<rparr>)"

record RawAttribute =
  ra_Value :: bytes
  ra_Type :: u16
  ra_Length :: u16

record stun_Message =
  m_Attributes :: "RawAttribute list"
  m_Raw :: bytes
  m_Spare :: bytes
  m_Length :: u32
  m_Type :: MessageType
  m_TransactionID :: bytes

definition magicCookie :: u32 where "magicCookie = 0x2112A442"
definition attributeHeaderSize :: nat where "attributeHeaderSize = 4"
definition messageHeaderSize :: nat where "messageHeaderSize = 20"

definition IsMessage :: "bytes \<Rightarrow> bool" where
  "IsMessage b \<longleftrightarrow> length b \<ge> messageHeaderSize \<and> Uint32 (take 4 (drop 4 b)) = Some magicCookie"

definition nearestPaddedValueLength :: "nat \<Rightarrow> nat" where
  "nearestPaddedValueLength l = (let n = 4 * (l div 4) in if n < l then n + 4 else n)"

definition compatAttrType :: "u16 \<Rightarrow> u16" where
  "compatAttrType val = (if val = 0x8020 then 0x0020 else val)"

definition attrs_Get :: "u16 \<Rightarrow> RawAttribute list \<Rightarrow> RawAttribute option" where
  "attrs_Get t a = find (\<lambda>c. ra_Type c = t) a"

text \<open>\<open>None\<close> is \<^verbatim>\<open>ErrAttributeNotFound\<close>.\<close>

definition msg_Get :: "u16 \<Rightarrow> stun_Message \<Rightarrow> bytes option" where
  "msg_Get t m = map_option ra_Value (attrs_Get t (m_Attributes m))"

definition msg_Contains :: "u16 \<Rightarrow> stun_Message \<Rightarrow> bool" where
  "msg_Contains t m \<longleftrightarrow> (\<exists>a \<in> set (m_Attributes m). ra_Type a = t)"

section \<open>The buffer\<close>

text \<open>\<^verbatim>\<open>m.Raw[:n]\<close> up to the capacity.\<close>

definition reslice :: "nat \<Rightarrow> stun_Message \<Rightarrow> stun_Message" where
  "reslice n m = m\<lparr>m_Raw := take n (m_Raw m @ m_Spare m), m_Spare := drop n (m_Raw m @ m_Spare m)\<rparr>"

definition msg_grow :: "nat \<Rightarrow> stun_Message \<Rightarrow> stun_Message" where
  "msg_grow n m =
     (if length (m_Raw m) \<ge> n then m
      else if length (m_Raw m @ m_Spare m) \<ge> n then reslice n m
      else m\<lparr>m_Raw := m_Raw m @ replicate (n - length (m_Raw m)) 0, m_Spare := []\<rparr>)"

definition put_at :: "nat \<Rightarrow> bytes \<Rightarrow> bytes \<Rightarrow> bytes" where
  "put_at i bs xs = take i xs @ bs @ drop (i + length bs) xs"

definition write_at :: "nat \<Rightarrow> bytes \<Rightarrow> stun_Message \<Rightarrow> stun_Message" where
  "write_at i bs m = m\<lparr>m_Raw := put_at i bs (m_Raw m)\<rparr>"

definition WriteLength :: "stun_Message \<Rightarrow> stun_Message" where
  "WriteLength m = (let m = msg_grow 4 m in write_at 2 (PutUint16 (ucast (m_Length m))) m)"

definition WriteType :: "stun_Message \<Rightarrow> stun_Message" where
  "WriteType m = (let m = msg_grow 2 m in write_at 0 (PutUint16 (type_Value (m_Type m))) m)"

definition msg_SetType :: "MessageType \<Rightarrow> stun_Message \<Rightarrow> stun_Message" where
  "msg_SetType t m = WriteType (m\<lparr>m_Type := t\<rparr>)"

definition WriteHeader :: "stun_Message \<Rightarrow> stun_Message" where
  "WriteHeader m =
     (let m = msg_grow messageHeaderSize m; m = WriteType m; m = WriteLength m; m = write_at 4 (PutUint32 magicCookie) m
      in write_at 8 (m_TransactionID m) m)"

text \<open>The header must be within the capacity of the buffer.\<close>

definition WriteTransactionID :: "stun_Message \<Rightarrow> stun_Message option" where
  "WriteTransactionID m =
     (if length (m_Raw m @ m_Spare m) < messageHeaderSize then None
      else
        let all = put_at 8 (m_TransactionID m) (m_Raw m @ m_Spare m) in
        Some (m\<lparr>m_Raw := take (length (m_Raw m)) all, m_Spare := drop (length (m_Raw m)) all\<rparr>))"

definition msg_Reset :: "stun_Message \<Rightarrow> stun_Message" where
  "msg_Reset m = (reslice 0 m)\<lparr>m_Length := 0, m_Attributes := []\<rparr>"

text \<open>The two halves of \<^verbatim>\<open>Add\<close>: the type, length and value behind what the message holds, and the padding.\<close>

definition add_value :: "u16 \<Rightarrow> bytes \<Rightarrow> stun_Message \<Rightarrow> stun_Message" where
  "add_value t v m =
     (let allocSize = attributeHeaderSize + length v;
          first = messageHeaderSize + unat (m_Length m);
          l = first + allocSize;
          m = reslice l (msg_grow l m);
          m = m\<lparr>m_Length := m_Length m + of_nat allocSize\<rparr>
      in write_at first (PutUint16 t @ PutUint16 (of_nat (length v)) @ v) m)"

definition add_padding :: "nat \<Rightarrow> bytes \<Rightarrow> stun_Message \<Rightarrow> stun_Message" where
  "add_padding l v m =
     (if unat (of_nat (length v) :: u16) mod 4 \<noteq> 0 then
        let bytesToAdd = nearestPaddedValueLength (length v) - length v;
            l = l + bytesToAdd;
            m = msg_grow l m;
            m = reslice l (write_at (l - bytesToAdd) (replicate bytesToAdd 0) m)
        in m\<lparr>m_Length := m_Length m + of_nat bytesToAdd\<rparr>
      else m)"

definition msg_Add :: "u16 \<Rightarrow> bytes \<Rightarrow> stun_Message \<Rightarrow> stun_Message" where
  "msg_Add t v m =
     (let l = messageHeaderSize + unat (m_Length m) + (attributeHeaderSize + length v);
          attr = \<lparr>ra_Value = v, ra_Type = t, ra_Length = of_nat (length v)\<rparr>;
          m = add_padding l v (add_value t v m)
      in WriteLength (m\<lparr>m_Attributes := m_Attributes m @ [attr]\<rparr>))"

section \<open>Decoding\<close>

datatype stun_error = ErrUnexpectedHeaderEOF | DecodeErr string string | ErrAttributeNotFound | ErrAttributeSizeOverflow
  | ErrBadIPLength | StunUnexpectedEOF

text \<open>What was read before an error stays in the message.\<close>

function decode_attrs :: "nat \<Rightarrow> nat \<Rightarrow> bytes \<Rightarrow> RawAttribute list \<Rightarrow> stun_error option \<times> RawAttribute list" where
  "decode_attrs total1 offset b attrs =
     (if offset < total1 then
        if length b < attributeHeaderSize then (Some (DecodeErr ''attribute'' ''header''), attrs)
        else
          let t = compatAttrType (word_be (take 2 b)); n = word_be (take 2 (drop 2 b)) :: u16;
              aL = unat n; aBuffL = nearestPaddedValueLength aL;
              b = drop attributeHeaderSize b
          in if length b < aBuffL then (Some (DecodeErr ''attribute'' ''value''), attrs)
             else decode_attrs total1 (offset + attributeHeaderSize + aBuffL) (drop aBuffL b)
               (attrs @ [\<lparr>ra_Value = take aL b, ra_Type = t, ra_Length = n\<rparr>])
      else (None, attrs))"
  by pat_completeness auto
termination
  by (relation "measure (\<lambda>(s, offset, b, attrs). s - offset)") (auto simp: attributeHeaderSize_def)

definition msg_Decode :: "stun_Message \<Rightarrow> stun_error option \<times> stun_Message" where
  "msg_Decode m =
     (let buf = m_Raw m in
      if length buf < messageHeaderSize then (Some ErrUnexpectedHeaderEOF, m)
      else
        let t = word_be (take 2 buf) :: u16;
            total1 = unat (word_be (take 2 (drop 2 buf)) :: u16);
            cookie = word_be (take 4 (drop 4 buf)) :: u32;
            fullSize = messageHeaderSize + total1
        in if cookie \<noteq> magicCookie then (Some (DecodeErr ''message'' ''cookie''), m)
           else if length buf < fullSize then (Some (DecodeErr ''attribute'' ''message''), m)
           else
             let (e, attrs) = decode_attrs total1 0 (take total1 (drop messageHeaderSize buf)) [] in
             (e, m\<lparr>m_Type := type_ReadValue t, m_Length := of_nat total1,
                m_TransactionID := take 12 (drop 8 buf), m_Attributes := attrs\<rparr>))"

text \<open>\<^verbatim>\<open>Decode(data, m)\<close>, \<^verbatim>\<open>Write\<close>, \<^verbatim>\<open>UnmarshalBinary\<close> and \<^verbatim>\<open>CloneTo\<close>: the data replace the buffer.\<close>

definition stun_Decode :: "bytes \<Rightarrow> stun_Message \<Rightarrow> stun_error option \<times> stun_Message" where
  "stun_Decode data m = msg_Decode (m\<lparr>m_Raw := data, m_Spare := drop (length data) (m_Raw m @ m_Spare m)\<rparr>)"

declare decode_attrs.simps [simp del]

section \<open>Comparison\<close>

fun attr_Equal :: "RawAttribute \<Rightarrow> RawAttribute \<Rightarrow> bool" where
  "attr_Equal a b =
     (if ra_Type a \<noteq> ra_Type b then False
      else if ra_Length a \<noteq> ra_Length b then False
      else if length (ra_Value b) \<noteq> length (ra_Value a) then False
      else list_all (\<lambda>i. ra_Value b ! i = ra_Value a ! i) [0..<length (ra_Value a)])"

definition attrSliceEqual :: "RawAttribute list \<Rightarrow> RawAttribute list \<Rightarrow> bool" where
  "attrSliceEqual a b \<longleftrightarrow> list_all (\<lambda>x. list_ex (\<lambda>y. ra_Type y = ra_Type x \<and> attr_Equal y x) b) a"

text \<open>\<open>None\<close> is the nil slice.\<close>

definition attrEqual :: "RawAttribute list option \<Rightarrow> RawAttribute list option \<Rightarrow> bool" where
  "attrEqual a b =
     (case (a, b) of
        (None, None) \<Rightarrow> True
      | (Some a, Some b) \<Rightarrow>
          if length a \<noteq> length b then False else if \<not> attrSliceEqual a b then False else if \<not> attrSliceEqual b a then False else True
      | _ \<Rightarrow> False)"

section \<open>Setters\<close>

text \<open>A setter may fail or panic.\<close>

type_synonym stun_setter = "stun_Message \<Rightarrow> (stun_error + stun_Message) option"

definition set_type :: "MessageType \<Rightarrow> stun_setter" where
  "set_type t m = Some (Inr (msg_SetType t m))"

definition set_transaction :: "bytes \<Rightarrow> stun_setter" where
  "set_transaction tid m = map_option Inr (WriteTransactionID (m\<lparr>m_TransactionID := tid\<rparr>))"

definition set_raw :: "RawAttribute \<Rightarrow> stun_setter" where
  "set_raw a m = Some (Inr (msg_Add (ra_Type a) (ra_Value a) m))"

definition CheckOverflow :: "nat \<Rightarrow> int \<Rightarrow> stun_error option" where
  "CheckOverflow got maxVal = (if int got \<le> maxVal then None else Some ErrAttributeSizeOverflow)"

definition set_text :: "u16 \<Rightarrow> int \<Rightarrow> bytes \<Rightarrow> stun_setter" where
  "set_text t maxLen v m =
     Some (case CheckOverflow (length v) maxLen of Some e \<Rightarrow> Inl e | None \<Rightarrow> Inr (msg_Add t v m))"

fun run_setters :: "stun_setter list \<Rightarrow> stun_setter" where
  "run_setters [] m = Some (Inr m)"
| "run_setters (s # ss) m = (case s m of None \<Rightarrow> None | Some (Inl e) \<Rightarrow> Some (Inl e) | Some (Inr m) \<Rightarrow> run_setters ss m)"

definition msg_Build :: "stun_setter list \<Rightarrow> stun_setter" where
  "msg_Build setters m = run_setters setters (WriteHeader (msg_Reset m))"

definition new_Message :: stun_Message where
  "new_Message = \<lparr>m_Attributes = [], m_Raw = [], m_Spare = [], m_Length = 0, m_Type = \<lparr>mt_Method = 0, mt_Class = 0\<rparr>,
     m_TransactionID = replicate 12 0\<rparr>"


section \<open>The type field\<close>

lemma or_add: "x AND y = 0 \<Longrightarrow> x + y = (x OR y :: 'a::len word)"
  by (metis add_0 word_plus_and_or)

lemma type_masks: "bit (0xf :: u16) i \<longleftrightarrow> i < 4" "bit (0x70 :: u16) i \<longleftrightarrow> 4 \<le> i \<and> i < 7" "bit (0xf80 :: u16) i \<longleftrightarrow> 7 \<le> i \<and> i < 12"
   "bit (2 :: u16) i \<longleftrightarrow> i = 1"
proof -
  have a: "(0xf :: u16) = mask 4" "(0x70 :: u16) = push_bit 4 (mask 3)" "(0xf80 :: u16) = push_bit 7 (mask 5)" "(2 :: u16) = push_bit 1 (mask 1)"
    by (simp_all add: mask_eq_exp_minus_1)
  show "bit (0xf :: u16) i \<longleftrightarrow> i < 4" "bit (0x70 :: u16) i \<longleftrightarrow> 4 \<le> i \<and> i < 7" "bit (0xf80 :: u16) i \<longleftrightarrow> 7 \<le> i \<and> i < 12"
     "bit (2 :: u16) i \<longleftrightarrow> i = 1"
    unfolding a by (auto simp: bit_simps)
qed

lemma split_sums:
  fixes A B D C E m c v :: u16
  assumes "\<And>i. bit A i \<longleftrightarrow> i < 4" "\<And>i. bit B i \<longleftrightarrow> 4 \<le> i \<and> i < 7" "\<And>i. bit D i \<longleftrightarrow> 7 \<le> i \<and> i < 12"
    "\<And>i. bit C i \<longleftrightarrow> i = 0" "\<And>i. bit E i \<longleftrightarrow> i = 1"
  shows "(m AND A) + push_bit 1 (m AND B) + push_bit 2 (m AND D) + (push_bit 4 (c AND C) + push_bit 7 (c AND E))
    = (m AND A) OR push_bit 1 (m AND B) OR push_bit 2 (m AND D) OR (push_bit 4 (c AND C) OR push_bit 7 (c AND E))"
    "(v AND A) + (drop_bit 1 v AND B) + (drop_bit 2 v AND D) = (v AND A) OR (drop_bit 1 v AND B) OR (drop_bit 2 v AND D)"
    "(drop_bit 4 v AND C) + (drop_bit 7 v AND E) = (drop_bit 4 v AND C) OR (drop_bit 7 v AND E)"
proof -
  have "(m AND A) AND push_bit 1 (m AND B) = 0" by (rule bit_word_eqI, unfold bit_and_iff bit_or_iff bit_push_bit_iff assms) auto
  moreover have "((m AND A) OR push_bit 1 (m AND B)) AND push_bit 2 (m AND D) = 0" by (rule bit_word_eqI, unfold bit_and_iff bit_or_iff bit_push_bit_iff assms) auto
  moreover have "push_bit 4 (c AND C) AND push_bit 7 (c AND E) = 0" by (rule bit_word_eqI, unfold bit_and_iff bit_or_iff bit_push_bit_iff assms) auto
  moreover have "((m AND A) OR push_bit 1 (m AND B) OR push_bit 2 (m AND D)) AND (push_bit 4 (c AND C) OR push_bit 7 (c AND E)) = 0"
    by (rule bit_word_eqI, unfold bit_and_iff bit_or_iff bit_push_bit_iff assms) auto
  ultimately show "(m AND A) + push_bit 1 (m AND B) + push_bit 2 (m AND D) + (push_bit 4 (c AND C) + push_bit 7 (c AND E))
    = (m AND A) OR push_bit 1 (m AND B) OR push_bit 2 (m AND D) OR (push_bit 4 (c AND C) OR push_bit 7 (c AND E))"
    by (simp only: or_add or.assoc)
  have "(v AND A) AND (drop_bit 1 v AND B) = 0" by (rule bit_word_eqI, unfold bit_and_iff bit_or_iff bit_drop_bit_eq o_def assms) auto
  moreover have "((v AND A) OR (drop_bit 1 v AND B)) AND (drop_bit 2 v AND D) = 0" by (rule bit_word_eqI, unfold bit_and_iff bit_or_iff bit_drop_bit_eq o_def assms) auto
  ultimately show "(v AND A) + (drop_bit 1 v AND B) + (drop_bit 2 v AND D) = (v AND A) OR (drop_bit 1 v AND B) OR (drop_bit 2 v AND D)"
    by (simp only: or_add or.assoc)
  have "(drop_bit 4 v AND C) AND (drop_bit 7 v AND E) = 0" by (rule bit_word_eqI, unfold bit_and_iff bit_or_iff bit_drop_bit_eq o_def assms) auto
  then show "(drop_bit 4 v AND C) + (drop_bit 7 v AND E) = (drop_bit 4 v AND C) OR (drop_bit 7 v AND E)" by (simp only: or_add or.assoc)
qed

lemma type_mask1: "bit (1 :: u16) i \<longleftrightarrow> i = 0"
  by (simp add: bit_1_iff)

lemmas type_sums = split_sums [OF type_masks(1-3) type_mask1 type_masks(4)]

lemma type_bits:
  "bit (type_Value t) i \<longleftrightarrow>
     i < 4 \<and> bit (mt_Method t) i \<or> 5 \<le> i \<and> i < 8 \<and> bit (mt_Method t) (i - 1) \<or> 9 \<le> i \<and> i < 14 \<and> bit (mt_Method t) (i - 2) \<or>
     i = 4 \<and> bit (mt_Class t) 0 \<or> i = 8 \<and> bit (mt_Class t) 1"
proof -
  have 1: "(1 \<le> i \<and> possible_bit TYPE(16 word) i \<and> b \<and> 4 \<le> i - 1 \<and> i - 1 < 7) = (5 \<le> i \<and> i < 8 \<and> b)" for b
    by (cases b) auto
  have 2: "(2 \<le> i \<and> possible_bit TYPE(16 word) i \<and> b \<and> 7 \<le> i - 2 \<and> i - 2 < 12) = (9 \<le> i \<and> i < 14 \<and> b)" for b
    by (cases b) auto
  have 3: "(4 \<le> i \<and> possible_bit TYPE(16 word) i \<and> (i - 4 < LENGTH(16) \<and> bit (mt_Class t) (i - 4)) \<and> i - 4 = 0)
      = (i = 4 \<and> bit (mt_Class t) 0)"
    by (cases "i = 4") auto
  have 4: "(7 \<le> i \<and> possible_bit TYPE(16 word) i \<and> (i - 7 < LENGTH(16) \<and> bit (mt_Class t) (i - 7)) \<and> i - 7 = 1)
      = (i = 8 \<and> bit (mt_Class t) 1)"
    by (cases "i = 8") auto
  show ?thesis
    unfolding type_Value_def Let_def type_sums bit_or_iff bit_push_bit_iff bit_and_iff type_masks type_mask1 bit_ucast_iff 1 2 3 4
    by (simp only: conj_commute [of "bit (mt_Method t) i"])
qed

lemma read_method_bits:
  "bit (mt_Method (type_ReadValue v)) i \<longleftrightarrow>
     i < 4 \<and> bit v i \<or> 4 \<le> i \<and> i < 7 \<and> bit v (1 + i) \<or> 7 \<le> i \<and> i < 12 \<and> bit v (2 + i)"
  unfolding type_ReadValue_def Let_def type_sums MessageType.select_convs bit_or_iff bit_drop_bit_eq bit_and_iff type_masks o_def
  by blast

lemma read_class_bits: "bit (mt_Class (type_ReadValue v)) i \<longleftrightarrow> i = 0 \<and> bit v 4 \<or> i = 1 \<and> bit v 8"
proof -
  have "bit (mt_Class (type_ReadValue v)) i \<longleftrightarrow> i < LENGTH(8) \<and> (bit v (4 + i) \<and> i = 0 \<or> bit v (7 + i) \<and> i = 1)"
    unfolding type_ReadValue_def Let_def type_sums MessageType.select_convs bit_or_iff bit_drop_bit_eq bit_and_iff type_masks type_mask1 bit_ucast_iff o_def
    by blast
  then show ?thesis by (cases "i = 0"; cases "i = 1") simp_all
qed

lemma bit_below: "x < 2 ^ k \<Longrightarrow> k < LENGTH('a) \<Longrightarrow> bit (x :: 'a::len word) i \<Longrightarrow> i < k"
  by (metis bit_take_bit_iff less_mask_eq take_bit_eq_mask)

lemma type_value_read:
  assumes "mt_Method t < 2 ^ 12" "mt_Class t < 2 ^ 2"
  shows "type_ReadValue (type_Value t) = t"
proof -
  have "bit (mt_Method (type_ReadValue (type_Value t))) i = bit (mt_Method t) i" for i
  proof -
    consider "i < 4" | "4 \<le> i" "i < 7" | "7 \<le> i" "i < 12" | "12 \<le> i" by linarith
    then show ?thesis
    proof cases
      case 4
      then have "\<not> bit (mt_Method t) i" using bit_below [OF assms(1), of i] by auto
      then show ?thesis using 4 by (simp add: read_method_bits)
    qed (simp_all add: read_method_bits type_bits)
  qed
  moreover have "bit (mt_Class (type_ReadValue (type_Value t))) i = bit (mt_Class t) i" for i
  proof (cases "i < 2")
    case True
    then show ?thesis by (auto simp: read_class_bits type_bits less_2_cases_iff)
  next
    case False
    then show ?thesis using bit_below [OF assms(2), of i] by (auto simp: read_class_bits)
  qed
  ultimately show ?thesis by (simp add: bit_eq_iff)
qed

lemma type_read_value:
  assumes "v < 2 ^ 14"
  shows "type_Value (type_ReadValue v) = v"
proof (rule bit_word_eqI)
  fix i :: nat
  consider "i < 4" | "i = 4" | "5 \<le> i" "i < 8" | "i = 8" | "9 \<le> i" "i < 14" | "14 \<le> i" by linarith
  then show "bit (type_Value (type_ReadValue v)) i = bit v i"
  proof cases
    case 3
    then show ?thesis by (simp add: type_bits read_method_bits) arith
  next
    case 5
    then obtain j where "i = j + 2" using that [of "i - 2"] by simp
    then show ?thesis using 5 by (simp add: type_bits read_method_bits)
  next
    case 6
    then show ?thesis using bit_below [OF assms, of i] by (auto simp: type_bits)
  qed (simp_all add: type_bits read_method_bits read_class_bits)
qed

section \<open>Writing\<close>

named_theorems stun

definition tlv :: "RawAttribute \<Rightarrow> bytes" where
  "tlv a = PutUint16 (ra_Type a) @ PutUint16 (ra_Length a) @ ra_Value a
     @ replicate (nearestPaddedValueLength (length (ra_Value a)) - length (ra_Value a)) 0"

definition stun_wire :: "MessageType \<Rightarrow> bytes \<Rightarrow> u32 \<Rightarrow> RawAttribute list \<Rightarrow> bytes" where
  "stun_wire t tid n attrs =
     PutUint16 (type_Value t) @ PutUint16 (ucast n) @ PutUint32 magicCookie @ tid @ concat (map tlv attrs)"

definition msg_wf :: "stun_Message \<Rightarrow> bool" where
  "msg_wf m \<longleftrightarrow>
     m_Raw m = stun_wire (m_Type m) (m_TransactionID m) (m_Length m) (m_Attributes m) \<and> length (m_TransactionID m) = 12 \<and>
     unat (m_Length m) = length (concat (map tlv (m_Attributes m))) \<and>
     (\<forall>a \<in> set (m_Attributes m). ra_Length a = of_nat (length (ra_Value a)))"

lemma nearestPaddedValueLength_eq: "nearestPaddedValueLength l = 4 * ((l + 3) div 4)"
  unfolding nearestPaddedValueLength_def Let_def by arith

lemma padded_ge [simp]: "l \<le> nearestPaddedValueLength l"
  unfolding nearestPaddedValueLength_eq by arith

lemma length_tlv: "length (tlv a) = 4 + nearestPaddedValueLength (length (ra_Value a))"
  by (simp add: tlv_def)

lemma msg_grow_append:
  assumes "length (m_Raw m) \<le> n"
  shows "\<exists>X S. msg_grow n m = m\<lparr>m_Raw := m_Raw m @ X, m_Spare := S\<rparr> \<and> length X = n - length (m_Raw m)"
proof (cases "length (m_Raw m) = n")
  case True
  then have "msg_grow n m = m\<lparr>m_Raw := m_Raw m @ [], m_Spare := m_Spare m\<rparr>" by (simp add: msg_grow_def)
  then show ?thesis using True by fastforce
next
  case lt: False
  show ?thesis
  proof (cases "length (m_Raw m @ m_Spare m) \<ge> n")
    case True
    then have "msg_grow n m = m\<lparr>m_Raw := m_Raw m @ take (n - length (m_Raw m)) (m_Spare m), m_Spare := drop n (m_Raw m @ m_Spare m)\<rparr>"
      using lt assms by (simp add: msg_grow_def reslice_def)
    then show ?thesis by (intro exI conjI) (use True in auto)
  next
    case False
    then have "msg_grow n m = m\<lparr>m_Raw := m_Raw m @ replicate (n - length (m_Raw m)) 0, m_Spare := []\<rparr>"
      using lt assms by (simp add: msg_grow_def)
    then show ?thesis by (intro exI conjI) auto
  qed
qed

lemma msg_grow_enough [simp, stun]: "n \<le> length (m_Raw m) \<Longrightarrow> msg_grow n m = m"
  by (simp add: msg_grow_def)

lemma reslice_all [simp, stun]: "n = length (m_Raw m) \<Longrightarrow> reslice n m = m"
  by (simp add: reslice_def)

lemma put_at_end: "length bs = length X \<Longrightarrow> put_at (length R) bs (R @ X) = R @ bs"
  by (simp add: put_at_def)

lemma put_at_middle: "i = length A \<Longrightarrow> length bs = length B \<Longrightarrow> put_at i bs (A @ B @ C) = A @ bs @ C"
  by (simp add: put_at_def)

lemma pad_mod: "nearestPaddedValueLength l - l = (if l mod 4 = 0 then 0 else 4 - l mod 4)"
  unfolding nearestPaddedValueLength_eq by arith

lemma mod4_u16: "unat (of_nat l :: u16) mod 4 = l mod 4"
  by (simp add: unat_of_nat mod_mod_cancel)

lemma add_value_append:
  assumes "length (m_Raw m) = 20 + unat (m_Length m)"
  shows "\<exists>S. add_value t v m = m\<lparr>m_Raw := m_Raw m @ PutUint16 t @ PutUint16 (of_nat (length v)) @ v, m_Spare := S,
    m_Length := m_Length m + of_nat (4 + length v)\<rparr>"
proof -
  let ?h = "PutUint16 t @ PutUint16 (of_nat (length v)) @ v" and ?l = "20 + unat (m_Length m) + (4 + length v)"
  obtain X S where 1: "msg_grow ?l m = m\<lparr>m_Raw := m_Raw m @ X, m_Spare := S\<rparr>" "length X = 4 + length v"
    using msg_grow_append [of m ?l] assms by auto
  have "put_at (20 + unat (m_Length m)) ?h (m_Raw m @ X) = m_Raw m @ ?h"
    using put_at_end [of ?h X "m_Raw m"] 1(2) assms by simp
  then have "add_value t v m = m\<lparr>m_Raw := m_Raw m @ ?h, m_Spare := S, m_Length := m_Length m + of_nat (4 + length v)\<rparr>"
    unfolding add_value_def attributeHeaderSize_def messageHeaderSize_def Let_def 1(1) write_at_def
    by (subst reslice_all; simp add: 1(2) assms)+
  then show ?thesis by blast
qed

lemma add_padding_append:
  assumes "length (m_Raw m) = l"
  shows "\<exists>S. add_padding l v m = m\<lparr>m_Raw := m_Raw m @ replicate (nearestPaddedValueLength (length v) - length v) 0, m_Spare := S,
    m_Length := m_Length m + of_nat (nearestPaddedValueLength (length v) - length v)\<rparr>"
proof (cases "length v mod 4 = 0")
  case True
  then have "add_padding l v m = m\<lparr>m_Spare := m_Spare m\<rparr>" "nearestPaddedValueLength (length v) - length v = 0"
    by (simp_all add: add_padding_def mod4_u16 pad_mod)
  then show ?thesis by (intro exI [of _ "m_Spare m"]) simp
next
  case False
  define k where "k = nearestPaddedValueLength (length v) - length v"
  obtain Y S where 3: "msg_grow (l + k) m = m\<lparr>m_Raw := m_Raw m @ Y, m_Spare := S\<rparr>" "length Y = k"
    using msg_grow_append [of m "l + k"] assms by auto
  have "put_at l (replicate k 0) (m_Raw m @ Y) = m_Raw m @ replicate k 0"
    using put_at_end [of "replicate k 0" Y "m_Raw m"] 3(2) assms by simp
  then have "add_padding l v m = m\<lparr>m_Raw := m_Raw m @ replicate k 0, m_Spare := S, m_Length := m_Length m + of_nat k\<rparr>"
    unfolding add_padding_def Let_def k_def [symmetric] 3(1) write_at_def
    by (simp add: mod4_u16 False assms)
  then show ?thesis unfolding k_def by blast
qed

lemma msg_Add_append:
  assumes "length (m_Raw m) = 20 + unat (m_Length m)"
  shows "\<exists>S. msg_Add t v m =
    (let a = \<lparr>ra_Value = v, ra_Type = t, ra_Length = of_nat (length v)\<rparr>; n = m_Length m + of_nat (length (tlv a)) in
     m\<lparr>m_Attributes := m_Attributes m @ [a], m_Raw := put_at 2 (PutUint16 (ucast n)) (m_Raw m @ tlv a), m_Spare := S, m_Length := n\<rparr>)"
proof -
  let ?l = "20 + unat (m_Length m) + (4 + length v)"
  obtain S where 1: "add_value t v m = m\<lparr>m_Raw := m_Raw m @ PutUint16 t @ PutUint16 (of_nat (length v)) @ v, m_Spare := S,
      m_Length := m_Length m + of_nat (4 + length v)\<rparr>"
    using add_value_append [OF assms] by blast
  moreover have "length (m_Raw (add_value t v m)) = ?l" using assms 1 by simp
  ultimately obtain S' where 2: "add_padding ?l v (add_value t v m) = m\<lparr>m_Raw := m_Raw m @ tlv \<lparr>ra_Value = v, ra_Type = t, ra_Length = of_nat (length v)\<rparr>,
      m_Spare := S', m_Length := m_Length m + of_nat (4 + length v) + of_nat (nearestPaddedValueLength (length v) - length v)\<rparr>"
    using add_padding_append [of "add_value t v m" ?l v] by (auto simp: tlv_def)
  have n: "m_Length m + of_nat (4 + length v) + of_nat (nearestPaddedValueLength (length v) - length v)
      = m_Length m + of_nat (length (tlv \<lparr>ra_Value = v, ra_Type = t, ra_Length = of_nat (length v)\<rparr>))"
    by (simp add: length_tlv of_nat_diff)
  show ?thesis
    unfolding msg_Add_def Let_def attributeHeaderSize_def messageHeaderSize_def 2 n
    by (intro exI [of _ S']) (simp add: WriteLength_def write_at_def Let_def assms)
qed

lemma stun_wire_puts [stun]:
  assumes "length tid = 12"
  shows "put_at 0 (PutUint16 (type_Value t')) (stun_wire t tid n as) = stun_wire t' tid n as"
    "put_at 2 (PutUint16 (ucast n')) (stun_wire t tid n as) = stun_wire t tid n' as"
    "length tid' = 12 \<Longrightarrow> put_at 8 tid' (stun_wire t tid n as) = stun_wire t tid' n as"
proof -
  let ?c = "PutUint32 magicCookie" and ?b = "concat (map tlv as)"
  let ?t = "PutUint16 (type_Value t)" and ?n = "PutUint16 (ucast n)"
  show "put_at 0 (PutUint16 (type_Value t')) (stun_wire t tid n as) = stun_wire t' tid n as"
    using put_at_middle [of 0 "[]" "PutUint16 (type_Value t')" ?t "?n @ ?c @ tid @ ?b"] by (simp add: stun_wire_def)
  show "put_at 2 (PutUint16 (ucast n')) (stun_wire t tid n as) = stun_wire t tid n' as"
    using put_at_middle [of 2 ?t "PutUint16 (ucast n')" ?n "?c @ tid @ ?b"] by (simp add: stun_wire_def)
  assume "length tid' = 12"
  then show "put_at 8 tid' (stun_wire t tid n as) = stun_wire t tid' n as"
    using put_at_middle [of 8 "?t @ ?n @ ?c" tid' tid ?b] assms by (simp add: stun_wire_def)
qed

lemma stun_wire_append: "stun_wire t tid n as @ tlv a = stun_wire t tid n (as @ [a])"
  by (simp add: stun_wire_def)

lemma length_stun_wire: "length tid = 12 \<Longrightarrow> length (stun_wire t tid n as) = 20 + length (concat (map tlv as))"
  by (simp add: stun_wire_def)

lemma msg_wf_length: "msg_wf m \<Longrightarrow> length (m_Raw m) = 20 + unat (m_Length m)"
  by (simp add: msg_wf_def length_stun_wire)

lemma msg_Add_wf:
  fixes t v
  defines "a \<equiv> \<lparr>ra_Value = v, ra_Type = t, ra_Length = of_nat (length v)\<rparr>"
  assumes "msg_wf m" "unat (m_Length m) + length (tlv a) < 2 ^ 32"
  shows "msg_wf (msg_Add t v m)" "m_Attributes (msg_Add t v m) = m_Attributes m @ [a]"
    "m_Type (msg_Add t v m) = m_Type m" "m_TransactionID (msg_Add t v m) = m_TransactionID m"
    "unat (m_Length (msg_Add t v m)) = unat (m_Length m) + length (tlv a)"
proof -
  let ?n = "m_Length m + of_nat (length (tlv a))"
  obtain S where 1: "msg_Add t v m = m\<lparr>m_Attributes := m_Attributes m @ [a],
      m_Raw := put_at 2 (PutUint16 (ucast ?n)) (m_Raw m @ tlv a), m_Spare := S, m_Length := ?n\<rparr>"
    using msg_Add_append [OF msg_wf_length [OF assms(2)], of t v] unfolding Let_def a_def by blast
  have 2: "unat ?n = unat (m_Length m) + length (tlv a)"
    using assms(3) by (simp add: unat_word_ariths unat_of_nat)
  have "length (m_TransactionID m) = 12" "m_Raw m = stun_wire (m_Type m) (m_TransactionID m) (m_Length m) (m_Attributes m)"
    using assms(2) by (simp_all add: msg_wf_def)
  then have "put_at 2 (PutUint16 (ucast ?n)) (m_Raw m @ tlv a) = stun_wire (m_Type m) (m_TransactionID m) ?n (m_Attributes m @ [a])"
    by (simp only: stun_wire_append stun_wire_puts)
  then show "msg_wf (msg_Add t v m)" using assms(2) 2 unfolding 1 msg_wf_def by (auto simp: a_def)
  show "m_Attributes (msg_Add t v m) = m_Attributes m @ [a]"
    "m_Type (msg_Add t v m) = m_Type m" "m_TransactionID (msg_Add t v m) = m_TransactionID m" using 1 by simp_all
  show "unat (m_Length (msg_Add t v m)) = unat (m_Length m) + length (tlv a)" using 1 2 by simp
qed

lemma msg_SetType_wf:
  assumes "msg_wf m"
  shows "msg_wf (msg_SetType t m)" "msg_SetType t m = m\<lparr>m_Type := t, m_Raw := stun_wire t (m_TransactionID m) (m_Length m) (m_Attributes m)\<rparr>"
proof -
  show "msg_SetType t m = m\<lparr>m_Type := t, m_Raw := stun_wire t (m_TransactionID m) (m_Length m) (m_Attributes m)\<rparr>"
    using assms msg_wf_length [OF assms]
    by (simp add: msg_SetType_def WriteType_def write_at_def Let_def msg_wf_def stun_wire_puts)
  then show "msg_wf (msg_SetType t m)" using assms by (simp add: msg_wf_def)
qed

lemma set_transaction_wf:
  assumes "msg_wf m" "length tid = 12"
  shows "set_transaction tid m = Some (Inr (m\<lparr>m_TransactionID := tid, m_Raw := stun_wire (m_Type m) tid (m_Length m) (m_Attributes m)\<rparr>))"
    "msg_wf (m\<lparr>m_TransactionID := tid, m_Raw := stun_wire (m_Type m) tid (m_Length m) (m_Attributes m)\<rparr>)"
proof -
  have l: "length (m_Raw m) \<ge> 20" using msg_wf_length [OF assms(1)] by simp
  have "put_at 8 tid (m_Raw m @ m_Spare m) = put_at 8 tid (m_Raw m) @ m_Spare m" using l assms(2) by (simp add: put_at_def)
  moreover have "put_at 8 tid (m_Raw m) = stun_wire (m_Type m) tid (m_Length m) (m_Attributes m)"
    using assms by (simp add: msg_wf_def stun_wire_puts)
  moreover have "length (stun_wire (m_Type m) tid (m_Length m) (m_Attributes m)) = length (m_Raw m)"
    using assms by (simp add: msg_wf_def length_stun_wire)
  ultimately show "set_transaction tid m = Some (Inr (m\<lparr>m_TransactionID := tid, m_Raw := stun_wire (m_Type m) tid (m_Length m) (m_Attributes m)\<rparr>))"
    using l by (simp add: set_transaction_def WriteTransactionID_def messageHeaderSize_def)
  show "msg_wf (m\<lparr>m_TransactionID := tid, m_Raw := stun_wire (m_Type m) tid (m_Length m) (m_Attributes m)\<rparr>)"
    using assms by (simp add: msg_wf_def)
qed

lemma WriteHeader_wf:
  assumes "length (m_TransactionID m) = 12"
  shows "\<exists>S. WriteHeader (msg_Reset m) = m\<lparr>m_Attributes := [], m_Raw := stun_wire (m_Type m) (m_TransactionID m) 0 [], m_Spare := S, m_Length := 0\<rparr>"
    "msg_wf (WriteHeader (msg_Reset m))"
proof -
  let ?r = "m\<lparr>m_Raw := [], m_Spare := m_Raw m @ m_Spare m, m_Length := 0, m_Attributes := []\<rparr>"
  have r: "msg_Reset m = ?r" by (simp add: msg_Reset_def reslice_def)
  obtain X S where 1: "msg_grow 20 ?r = ?r\<lparr>m_Raw := X, m_Spare := S\<rparr>" "length X = 20"
    using msg_grow_append [of ?r 20] by auto
  have "put_at 8 (m_TransactionID m) (put_at 4 (PutUint32 magicCookie) (put_at 2 (PutUint16 0) (put_at 0 (PutUint16 (type_Value (m_Type m))) X)))
      = stun_wire (m_Type m) (m_TransactionID m) 0 []"
    using 1(2) assms by (simp add: put_at_def stun_wire_def)
  then have *: "WriteHeader (msg_Reset m) = m\<lparr>m_Attributes := [], m_Raw := stun_wire (m_Type m) (m_TransactionID m) 0 [], m_Spare := S, m_Length := 0\<rparr>"
    unfolding r WriteHeader_def messageHeaderSize_def Let_def 1(1)
    by (simp add: WriteType_def WriteLength_def write_at_def Let_def 1(2) put_at_def)
  then show "\<exists>S. WriteHeader (msg_Reset m) = m\<lparr>m_Attributes := [], m_Raw := stun_wire (m_Type m) (m_TransactionID m) 0 [], m_Spare := S, m_Length := 0\<rparr>"
    by blast
  show "msg_wf (WriteHeader (msg_Reset m))" unfolding * msg_wf_def using assms by simp
qed

section \<open>Reading what was written\<close>

text \<open>An attribute with the length of its value, and as the decoder reads it.\<close>

definition sized :: "RawAttribute \<Rightarrow> RawAttribute" where
  "sized a = a\<lparr>ra_Length := of_nat (length (ra_Value a))\<rparr>"

definition as_read :: "RawAttribute \<Rightarrow> RawAttribute" where
  "as_read a = a\<lparr>ra_Type := compatAttrType (ra_Type a)\<rparr>"

lemma length_tlv_sized [simp]: "length (tlv (sized a)) = length (tlv a)" "length (concat (map (tlv \<circ> sized) as)) = length (concat (map tlv as))"
  by (simp_all add: length_concat length_tlv sized_def o_def)

lemma decode_attrs_tlvs:
  assumes "\<forall>a \<in> set as. ra_Length a = of_nat (length (ra_Value a)) \<and> length (ra_Value a) < 2 ^ 16"
  shows "decode_attrs (off + length (concat (map tlv as))) off (concat (map tlv as)) attrs = (None, attrs @ map as_read as)"
  using assms
proof (induction as arbitrary: off attrs)
  case Nil
  then show ?case by (simp add: decode_attrs.simps)
next
  case (Cons a as)
  let ?v = "ra_Value a" and ?k = "nearestPaddedValueLength (length (ra_Value a))"
  let ?b = "?v @ replicate (?k - length ?v) 0 @ concat (map tlv as)"
  have *: "concat (map tlv (a # as)) = PutUint16 (ra_Type a) @ PutUint16 (ra_Length a) @ ?b" by (simp add: tlv_def)
  have r: "\<lparr>ra_Value = ?v, ra_Type = compatAttrType (ra_Type a), ra_Length = ra_Length a\<rparr> = as_read a"
    by (cases a) (simp add: as_read_def)
  have n: "unat (ra_Length a) = length ?v" using Cons.prems by (simp add: unat_of_nat)
  have d: "drop ?k ?b = concat (map tlv as)" "take (length ?v) ?b = ?v" "\<not> length ?b < ?k" by (simp_all add: padded_ge)
  have "decode_attrs (off + length (concat (map tlv (a # as)))) off (concat (map tlv (a # as))) attrs
      = decode_attrs (off + length (concat (map tlv (a # as)))) (off + 4 + ?k) (concat (map tlv as)) (attrs @ [as_read a])"
    using d unfolding * by (subst decode_attrs.simps) (simp add: attributeHeaderSize_def n Let_def r)
  moreover have "off + length (concat (map tlv (a # as))) = (off + 4 + ?k) + length (concat (map tlv as))"
    by (simp add: length_tlv)
  moreover have "decode_attrs ((off + 4 + ?k) + length (concat (map tlv as))) (off + 4 + ?k) (concat (map tlv as)) (attrs @ [as_read a])
      = (None, (attrs @ [as_read a]) @ map as_read as)"
    by (rule Cons.IH) (use Cons.prems in simp)
  ultimately show ?case by (simp add: add.assoc)
qed

lemma value_below: "a \<in> set as \<Longrightarrow> length (ra_Value a) \<le> length (concat (map tlv as))"
  using length_tlv padded_ge [of "length (ra_Value a)"]
  by (induction as) (auto simp: add_increasing intro: order_trans [OF padded_ge])

lemma stun_Decode_wire:
  assumes "mt_Method t < 2 ^ 12" "mt_Class t < 2 ^ 2" "length tid = 12" "length (concat (map tlv as)) < 2 ^ 16"
    "\<forall>a \<in> set as. ra_Length a = of_nat (length (ra_Value a))"
  shows "\<exists>S. stun_Decode (stun_wire t tid (of_nat (length (concat (map tlv as)))) as) m =
    (None, m\<lparr>m_Attributes := map as_read as, m_Raw := stun_wire t tid (of_nat (length (concat (map tlv as)))) as, m_Spare := S,
       m_Length := of_nat (length (concat (map tlv as))), m_Type := t, m_TransactionID := tid\<rparr>)"
proof -
  let ?n = "length (concat (map tlv as))"
  let ?w = "stun_wire t tid (of_nat ?n) as"
  have n: "unat (ucast (of_nat ?n :: u32) :: u16) = ?n"
    using assms(4) by (simp add: unsigned_ucast_eq unat_of_nat take_bit_eq_mod del: length_concat length_map map_map)
  have h: "take 2 ?w = PutUint16 (type_Value t)" "take 2 (drop 2 ?w) = PutUint16 (ucast (of_nat ?n :: u32))"
    "take 4 (drop 4 ?w) = PutUint32 magicCookie" "take 12 (drop 8 ?w) = tid" "drop 20 ?w = concat (map tlv as)"
    using assms(3) by (simp_all add: stun_wire_def)
  have l: "length ?w = 20 + ?n" using assms(3) by (rule length_stun_wire)
  have "decode_attrs (0 + ?n) 0 (concat (map tlv as)) [] = (None, [] @ map as_read as)"
    by (rule decode_attrs_tlvs) (use assms(4,5) value_below [of _ as] in fastforce)
  then show ?thesis
    unfolding stun_Decode_def msg_Decode_def Let_def messageHeaderSize_def
    by (intro exI [of _ "drop (length ?w) (m_Raw m @ m_Spare m)"])
      (simp add: h l n type_value_read [OF assms(1,2)] del: length_concat)
qed

lemma run_set_raws:
  assumes "msg_wf m" "unat (m_Length m) + length (concat (map tlv as)) < 2 ^ 32"
  shows "\<exists>m'. run_setters (map set_raw as) m = Some (Inr m') \<and> msg_wf m' \<and> m_Type m' = m_Type m \<and>
    m_TransactionID m' = m_TransactionID m \<and> m_Attributes m' = m_Attributes m @ map sized as"
  using assms
proof (induction as arbitrary: m)
  case Nil
  then show ?case by simp
next
  case (Cons a as)
  have s: "\<lparr>ra_Value = ra_Value a, ra_Type = ra_Type a, ra_Length = of_nat (length (ra_Value a))\<rparr> = sized a"
    by (simp add: sized_def)
  have "unat (m_Length m) + length (tlv (sized a)) < 2 ^ 32" using Cons.prems(2) by simp
  note add = msg_Add_wf [OF Cons.prems(1), of "ra_Value a" "ra_Type a", unfolded s, OF this]
  then show ?case using Cons.IH [OF add(1)] Cons.prems(2) by (auto simp: set_raw_def)
qed

text \<open>C27: 
  Building a message in a buffer that was used before and decoding what was built gives back the type, the
  transaction and the attributes with the lengths of their values, whatever bytes the buffers held: the message is
  the same for every old content, so nothing of it leaks into the padding.
\<close>

theorem stun_build_decode:
  assumes "mt_Method t < 2 ^ 12" "mt_Class t < 2 ^ 2" "length tid = 12" "length (m_TransactionID m0) = 12"
    "length (concat (map tlv as)) < 2 ^ 16"
  shows "\<exists>m. msg_Build ([set_transaction tid, set_type t] @ map set_raw as) m0 = Some (Inr m) \<and>
    m_Raw m = stun_wire t tid (of_nat (length (concat (map tlv as)))) (map sized as) \<and>
    (\<exists>m'. stun_Decode (m_Raw m) m1 = (None, m') \<and> m_Type m' = t \<and> m_TransactionID m' = tid \<and>
       m_Attributes m' = map (as_read \<circ> sized) as)"
proof -
  let ?h = "WriteHeader (msg_Reset m0)"
  let ?a = "?h\<lparr>m_TransactionID := tid, m_Raw := stun_wire (m_Type ?h) tid (m_Length ?h) (m_Attributes ?h)\<rparr>"
  let ?b = "msg_SetType t ?a"
  obtain S where h: "?h = m0\<lparr>m_Attributes := [], m_Raw := stun_wire (m_Type m0) (m_TransactionID m0) 0 [], m_Spare := S, m_Length := 0\<rparr>"
    using WriteHeader_wf(1) [OF assms(4)] by blast
  note a = set_transaction_wf [OF WriteHeader_wf(2) [OF assms(4)] assms(3)]
  note b = msg_SetType_wf [OF a(2), of t]
  have s: "m_Type ?b = t" "m_TransactionID ?b = tid" "m_Attributes ?b = []" "m_Length ?b = 0" unfolding b(2) by (simp_all add: h)
  obtain m where m: "run_setters (map set_raw as) ?b = Some (Inr m)" "msg_wf m" "m_Type m = t" "m_TransactionID m = tid"
      "m_Attributes m = map sized as"
    using run_set_raws [OF b(1), of as] s assms(5) by auto
  have build: "msg_Build ([set_transaction tid, set_type t] @ map set_raw as) m0 = Some (Inr m)"
    using m(1) by (simp add: msg_Build_def a(1) set_type_def)
  have n: "length (concat (map tlv as)) = unat (m_Length m)" using m(2) unfolding msg_wf_def m(5) by simp
  have "m_Length m = of_nat (length (concat (map tlv as)))" unfolding n by simp
  then have w: "m_Raw m = stun_wire t tid (of_nat (length (concat (map tlv as)))) (map sized as)"
    using m by (simp add: msg_wf_def)
  have "\<forall>a \<in> set (map sized as). ra_Length a = of_nat (length (ra_Value a))" by (simp add: sized_def)
  from stun_Decode_wire [OF assms(1-3) _ this, of m1] show ?thesis
    using build w assms(5) by auto
qed

theorem stun_build_decode_witness:
  "\<exists>m. msg_Build ([set_transaction (replicate 12 7), set_type \<lparr>mt_Method = 1, mt_Class = 2\<rparr>] @
      map set_raw [\<lparr>ra_Value = [1, 2, 3, 4, 5], ra_Type = 0x8022, ra_Length = 0\<rparr>])
      (new_Message\<lparr>m_Spare := replicate 64 255\<rparr>) = Some (Inr m) \<and>
    (\<exists>m'. stun_Decode (m_Raw m) new_Message = (None, m') \<and>
      m_Attributes m' = [\<lparr>ra_Value = [1, 2, 3, 4, 5], ra_Type = 0x8022, ra_Length = 5\<rparr>])"
proof -
  have "length (concat (map tlv [\<lparr>ra_Value = [1, 2, 3, 4, 5], ra_Type = 0x8022, ra_Length = 0\<rparr>])) = 12"
    by (simp add: length_tlv nearestPaddedValueLength_def)
  then have 1: "length (concat (map tlv [\<lparr>ra_Value = [1, 2, 3, 4, 5], ra_Type = 0x8022, ra_Length = 0\<rparr>])) < 2 ^ 16" by simp
  have 2: "map (as_read \<circ> sized) [\<lparr>ra_Value = [1, 2, 3, 4, 5], ra_Type = 0x8022, ra_Length = 0\<rparr>]
      = [\<lparr>ra_Value = [1, 2, 3, 4, 5], ra_Type = 0x8022, ra_Length = 5\<rparr>]"
    by (simp add: as_read_def sized_def compatAttrType_def)
  have 3: "length (replicate 12 7 :: bytes) = 12" "length (m_TransactionID (new_Message\<lparr>m_Spare := replicate 64 255\<rparr>)) = 12"
    "mt_Method \<lparr>mt_Method = 1, mt_Class = 2\<rparr> < 2 ^ 12" "mt_Class \<lparr>mt_Method = 1, mt_Class = 2\<rparr> < 2 ^ 2"
    by (simp_all add: new_Message_def)
  show ?thesis using stun_build_decode [OF 3(3,4,1,2) 1, of new_Message] unfolding 2 by blast
qed

text \<open>The type field holds every method of twelve bits and every class of two bits, and nothing else.\<close>

theorem stun_type_roundtrip:
  "(mt_Method t < 2 ^ 12 \<and> mt_Class t < 2 ^ 2 \<longrightarrow> type_ReadValue (type_Value t) = t) \<and>
   (v < 2 ^ 14 \<longrightarrow> type_Value (type_ReadValue v) = v)"
  by (simp add: type_value_read type_read_value)

theorem stun_type_roundtrip_witness:
  "type_ReadValue (type_Value \<lparr>mt_Method = 0xabc, mt_Class = 3\<rparr>) = \<lparr>mt_Method = 0xabc, mt_Class = 3\<rparr> \<and>
   type_Value (type_ReadValue 0x0101) = 0x0101"
  using stun_type_roundtrip [where t = "\<lparr>mt_Method = 0xabc, mt_Class = 3\<rparr>" and v = "0x0101"] by simp

text \<open>The comparison of attributes looks at the attributes that occur and not at how often they do.\<close>

lemma attr_Equal_eq: "attr_Equal a b \<longleftrightarrow> a = b" for a b :: RawAttribute
proof (cases "ra_Type a = ra_Type b \<and> ra_Length a = ra_Length b \<and> length (ra_Value b) = length (ra_Value a)")
  case True
  then have "attr_Equal a b \<longleftrightarrow> (\<forall>i < length (ra_Value a). ra_Value b ! i = ra_Value a ! i)"
    by (auto simp: list_all_iff)
  also have "\<dots> \<longleftrightarrow> ra_Value b = ra_Value a" using True by (metis nth_equalityI)
  finally have "attr_Equal a b \<longleftrightarrow> ra_Value b = ra_Value a" .
  then show ?thesis using True by (auto intro: RawAttribute.equality)
next
  case False
  then have "\<not> attr_Equal a b" by (simp only: attr_Equal.simps if_split) blast
  then show ?thesis using False by blast
qed

declare attr_Equal.simps [simp del]

lemma attrSliceEqual_subset: "attrSliceEqual a b \<longleftrightarrow> set a \<subseteq> set b"
  by (auto simp: attrSliceEqual_def list_all_iff list_ex_iff attr_Equal_eq)

theorem attrEqual_sets: "attrEqual (Some a) (Some b) \<longleftrightarrow> length a = length b \<and> set a = set b"
  by (auto simp: attrEqual_def attrSliceEqual_subset)

text \<open>The documentation promises that a negative limit means no check; every text is refused then.\<close>

theorem text_negative_limit: "maxLen < 0 \<Longrightarrow> set_text t maxLen v m = Some (Inl ErrAttributeSizeOverflow)"
  by (simp add: set_text_def CheckOverflow_def)

theorem text_negative_limit_witness: "set_text 6 (-1) [] new_Message = Some (Inl ErrAttributeSizeOverflow)"
  using text_negative_limit [of "-1" 6 "[]" new_Message] by simp

end
