(* ===== verification/Stun_Nat.thy ===== *)
theory Stun_Nat
  imports Stun_Message Net_Text
begin

text \<open>
  The address attributes of STUN messages (\<^verbatim>\<open>pkg/net/stun/addr.go\<close>, \<^verbatim>\<open>xoraddr.go\<close>) and the tests for the behaviour of
  a NAT that use them (\<^verbatim>\<open>pkg/net/latency/stun.go\<close>). The network is a function from the number of a request, its
  target and its bytes to what comes back. Random transaction numbers are arguments. A nil slice and an empty one are
  the empty list; \<open>None\<close> is a panic.
\<close>

section \<open>Address attributes\<close>

record stun_addr =
  sa_IP :: bytes
  sa_Port :: int

definition familyIPv4 :: u16 where "familyIPv4 = 1"
definition familyIPv6 :: u16 where "familyIPv6 = 2"

definition isZeros :: "bytes \<Rightarrow> bool" where
  "isZeros p = list_all (\<lambda>x. x = 0) p"

definition isIPv4 :: "bytes \<Rightarrow> bool" where
  "isIPv4 ip \<longleftrightarrow> isZeros (take 10 ip) \<and> ip ! 10 = 0xff \<and> ip ! 11 = 0xff"

text \<open>The family and the bytes that both setters write.\<close>

definition family_ip :: "bytes \<Rightarrow> stun_error + u16 \<times> bytes" where
  "family_ip ip =
     (if length ip = 16 then if isIPv4 ip then Inr (familyIPv4, drop 12 ip) else Inr (familyIPv6, ip)
      else if length ip \<noteq> 4 then Inl ErrBadIPLength
      else Inr (familyIPv4, ip))"

definition mapped_AddToAs :: "stun_addr \<Rightarrow> u16 \<Rightarrow> stun_setter" where
  "mapped_AddToAs a t m =
     Some (case family_ip (sa_IP a) of
        Inl e \<Rightarrow> Inl e
      | Inr (family, ip) \<Rightarrow> Inr (msg_Add t (PutUint16 family @ PutUint16 (of_int (sa_Port a)) @ ip) m))"

definition XORBytes :: "bytes \<Rightarrow> bytes \<Rightarrow> bytes" where
  "XORBytes x y = map2 (XOR) x y"

definition xorValue :: "stun_Message \<Rightarrow> bytes" where
  "xorValue m = PutUint32 magicCookie @ m_TransactionID m"

definition xor_AddToAs :: "stun_addr \<Rightarrow> u16 \<Rightarrow> stun_setter" where
  "xor_AddToAs a t m =
     Some (case family_ip (sa_IP a) of
        Inl e \<Rightarrow> Inl e
      | Inr (family, ip) \<Rightarrow>
          Inr (msg_Add t (PutUint16 family @ PutUint16 (of_int (sa_Port a XOR 0x2112)) @ XORBytes ip (xorValue m)) m))"

definition family_len :: "u16 \<Rightarrow> nat" where
  "family_len family = (if family = familyIPv6 then 16 else 4)"

text \<open>The getters set the address they are called on; the slice it had is cleared before it is used again.\<close>

definition mapped_GetFromAs :: "u16 \<Rightarrow> stun_Message \<Rightarrow> stun_addr \<Rightarrow> stun_error option \<times> stun_addr" where
  "mapped_GetFromAs t m a =
     (case msg_Get t m of
        None \<Rightarrow> (Some ErrAttributeNotFound, a)
      | Some v \<Rightarrow>
          if length v \<le> 4 then (Some StunUnexpectedEOF, a)
          else
            let family = word_be (take 2 v) in
            if family \<noteq> familyIPv6 \<and> family \<noteq> familyIPv4 then (Some (DecodeErr ''xor-mapped address'' ''family''), a)
            else
              let ipLen = family_len family; b = take ipLen (drop 4 v) in
              (None, \<lparr>sa_IP = b @ replicate (ipLen - length b) 0, sa_Port = uint (word_be (take 2 (drop 2 v)) :: u16)\<rparr>))"

text \<open>
  The value of an attribute is a slice of the buffer, and \<^verbatim>\<open>v[0:2]\<close> may read what lies behind it up to the capacity.
  The position of the value follows from the attributes before it.
\<close>

fun value_end :: "u16 \<Rightarrow> nat \<Rightarrow> RawAttribute list \<Rightarrow> nat" where
  "value_end t off [] = off"
| "value_end t off (a # as) =
     (if ra_Type a = t then off + attributeHeaderSize + length (ra_Value a)
      else value_end t (off + attributeHeaderSize + nearestPaddedValueLength (unat (ra_Length a))) as)"

definition behind :: "u16 \<Rightarrow> stun_Message \<Rightarrow> bytes" where
  "behind t m = drop (value_end t messageHeaderSize (m_Attributes m)) (m_Raw m @ m_Spare m)"

definition xor_GetFromAs :: "u16 \<Rightarrow> stun_Message \<Rightarrow> stun_addr \<Rightarrow> (stun_error option \<times> stun_addr) option" where
  "xor_GetFromAs t m a =
     (case msg_Get t m of
        None \<Rightarrow> Some (Some ErrAttributeNotFound, a)
      | Some v \<Rightarrow>
          (case Uint16 (v @ behind t m) of
             None \<Rightarrow> None
           | Some family \<Rightarrow>
               Some (if family \<noteq> familyIPv6 \<and> family \<noteq> familyIPv4 then (Some (DecodeErr ''xor-mapped address'' ''family''), a)
                else
                  let ipLen = family_len family; a = a\<lparr>sa_IP := replicate ipLen 0\<rparr> in
                  if length v \<le> 4 then (Some StunUnexpectedEOF, a)
                  else case CheckOverflow (length (drop 4 v)) (int ipLen) of
                      Some e \<Rightarrow> (Some e, a)
                    | None \<Rightarrow>
                        let b = XORBytes (drop 4 v) (xorValue m) in
                        (None, \<lparr>sa_IP = b @ replicate (ipLen - length b) 0,
                           sa_Port = uint (word_be (take 2 (drop 2 v)) :: u16) XOR 0x2112\<rparr>))))"

definition AttrMappedAddress :: u16 where "AttrMappedAddress = 0x0001"
definition AttrChangeRequest :: u16 where "AttrChangeRequest = 0x0003"
definition AttrChangedAddress :: u16 where "AttrChangedAddress = 0x0005"
definition AttrXORMappedAddress :: u16 where "AttrXORMappedAddress = 0x0020"
definition AttrSoftware :: u16 where "AttrSoftware = 0x8022"
definition AttrResponseOrigin :: u16 where "AttrResponseOrigin = 0x802b"
definition AttrOtherAddress :: u16 where "AttrOtherAddress = 0x802C"

text \<open>\<^verbatim>\<open>net.IP.String\<close> and the text of an address.\<close>

definition hex_bytes :: "bytes \<Rightarrow> string" where
  "hex_bytes b = concat (map (\<lambda>x. [hex_char (unat x div 16), hex_char (unat x mod 16)]) b)"

definition net_IP_String :: "bytes \<Rightarrow> string" where
  "net_IP_String ip =
     (if ip = [] then ''<nil>''
      else if length ip \<noteq> 4 \<and> length ip \<noteq> 16 then ''?'' @ hex_bytes ip
      else case To4 ip of Some p \<Rightarrow> string4 (word_be p) | None \<Rightarrow> addr_String (Addr6 (word_be ip)) [])"

definition sa_String :: "stun_addr \<Rightarrow> string" where
  "sa_String a = JoinHostPort (net_IP_String (sa_IP a)) (Itoa (nat (sa_Port a)))"

section \<open>Requests and responses\<close>

text \<open>The pointers of an empty response are nil.\<close>

record Response =
  rp_xorMappedAddr :: "stun_addr option"
  rp_otherAddr :: "stun_addr option"
  rp_changedAddr :: "stun_addr option"
  rp_origin :: "stun_addr option"
  rp_mappedAddr :: "stun_addr option"
  rp_software :: "bytes option"

definition no_Response :: Response where
  "no_Response = \<lparr>rp_xorMappedAddr = None, rp_otherAddr = None, rp_changedAddr = None, rp_origin = None, rp_mappedAddr = None, rp_software = None\<rparr>"

definition no_addr :: stun_addr where
  "no_addr = \<lparr>sa_IP = [], sa_Port = 0\<rparr>"

definition ParseResponse :: "stun_Message \<Rightarrow> (stun_error + Response) option" where
  "ParseResponse msg =
     (case xor_GetFromAs AttrXORMappedAddress msg no_addr of
        None \<Rightarrow> None
      | Some (Some e, _) \<Rightarrow> Some (Inl e)
      | Some (None, x) \<Rightarrow>
          let opt = (\<lambda>t. Some (snd (mapped_GetFromAs t msg no_addr))) in
          Some (Inr \<lparr>rp_xorMappedAddr = Some x, rp_otherAddr = opt AttrOtherAddress, rp_changedAddr = opt AttrChangedAddress,
            rp_origin = opt AttrResponseOrigin, rp_mappedAddr = opt AttrMappedAddress,
            rp_software = Some (case msg_Get AttrSoftware msg of None \<Rightarrow> [] | Some v \<Rightarrow> v)\<rparr>))"

text \<open>What a request ends with: a failed write or read, after the deadline or not, or a datagram read into a buffer
  with the content \<open>stale\<close>.\<close>

datatype io_outcome = WriteFails bool | ReadFails bool | Reads bytes bytes

datatype send_error = DeadlineExceeded | OtherFailure | BadResponse stun_error

type_synonym stun_net = "nat \<Rightarrow> (bytes \<times> int) option \<Rightarrow> bytes \<Rightarrow> io_outcome"

definition read_datagram :: "bytes \<Rightarrow> bytes \<Rightarrow> stun_Message" where
  "read_datagram data stale =
     (let b = GetBytes stale MaxSegmentSize; raw = take MaxSegmentSize data in
      new_Message\<lparr>m_Raw := raw, m_Spare := drop (length raw) b\<rparr>)"

definition sendRequest ::
    "bytes \<Rightarrow> stun_net \<Rightarrow> nat \<Rightarrow> (bytes \<times> int) option \<Rightarrow> stun_Message \<Rightarrow> ((send_error + Response) \<times> stun_Message) option" where
  "sendRequest tid conn i target req =
     (case WriteTransactionID (req\<lparr>m_TransactionID := tid\<rparr>) of
        None \<Rightarrow> None
      | Some req \<Rightarrow>
          (case conn i target (m_Raw req) of
             WriteFails late \<Rightarrow> Some (Inl (if late then DeadlineExceeded else OtherFailure), req)
           | ReadFails late \<Rightarrow> Some (Inl (if late then DeadlineExceeded else OtherFailure), req)
           | Reads data stale \<Rightarrow>
               (case msg_Decode (read_datagram data stale) of
                  (Some e, _) \<Rightarrow> Some (Inl (BadResponse e), req)
                | (None, resp) \<Rightarrow>
                    (case ParseResponse resp of
                       None \<Rightarrow> None
                     | Some (Inl e) \<Rightarrow> Some (Inl (BadResponse e), req)
                     | Some (Inr r) \<Rightarrow> Some (Inr r, req)))))"

section \<open>The tests\<close>

datatype NatType = Unknown | NoResult | EndpointIndependentNoNAT | EndpointIndependent | AddressDependent
  | AddressAndPortDependent | ServerNotSupportChangePort

definition BindingRequest :: MessageType where
  "BindingRequest = \<lparr>mt_Method = 1, mt_Class = 0\<rparr>"

text \<open>\<^verbatim>\<open>MustBuild(TransactionID, BindingRequest)\<close>: an error would be a panic.\<close>

definition binding_request :: "bytes \<Rightarrow> stun_Message option" where
  "binding_request tid =
     (case msg_Build [set_transaction tid, set_type BindingRequest] new_Message of Some (Inr m) \<Rightarrow> Some m | _ \<Rightarrow> None)"

text \<open>The comparison of the mapped addresses of two responses; a nil pointer panics.\<close>

definition same_mapped :: "Response \<Rightarrow> Response \<Rightarrow> bool option" where
  "same_mapped r s =
     (case (rp_xorMappedAddr r, rp_xorMappedAddr s) of (Some x, Some y) \<Rightarrow> Some (sa_String x = sa_String y) | _ \<Rightarrow> None)"

text \<open>The last test; \<open>resp2\<close> is what the second one left.\<close>

definition mapping_test3 :: "bytes \<Rightarrow> stun_net \<Rightarrow> stun_addr \<Rightarrow> Response \<Rightarrow> Response \<Rightarrow> stun_Message \<Rightarrow> ((Response \<times> NatType) \<times> send_error option) option" where
  "mapping_test3 tid3 conn other resp resp2 req =
     (case sendRequest tid3 conn 3 (Some (sa_IP other, sa_Port other)) req of
        None \<Rightarrow> None
      | Some (Inl e, _) \<Rightarrow>
          Some (if e \<noteq> DeadlineExceeded then ((resp, NoResult), Some e) else ((resp, AddressAndPortDependent), None))
      | Some (Inr resp3, _) \<Rightarrow>
          (case same_mapped resp3 resp2 of
             None \<Rightarrow> None
           | Some b \<Rightarrow> Some ((resp, if b then AddressDependent else AddressAndPortDependent), None)))"

definition mapping_test2 :: "bytes \<Rightarrow> bytes \<Rightarrow> stun_net \<Rightarrow> int \<Rightarrow> stun_addr \<Rightarrow> Response \<Rightarrow> stun_Message \<Rightarrow> ((Response \<times> NatType) \<times> send_error option) option" where
  "mapping_test2 tid2 tid3 conn port other resp req =
     (case sendRequest tid2 conn 2 (Some (sa_IP other, port)) req of
        None \<Rightarrow> None
      | Some (Inl e, req) \<Rightarrow>
          if e \<noteq> DeadlineExceeded then Some ((resp, NoResult), Some e) else mapping_test3 tid3 conn other resp no_Response req
      | Some (Inr resp2, req) \<Rightarrow>
          (case same_mapped resp2 resp of
             None \<Rightarrow> None
           | Some b \<Rightarrow> if b then Some ((resp, EndpointIndependent), None) else mapping_test3 tid3 conn other resp resp2 req))"

text \<open>\<open>tid0\<close> is the number that building the request draws; each send draws another one.\<close>

definition Mapping :: "bytes \<times> bytes \<times> bytes \<times> bytes \<Rightarrow> stun_net \<Rightarrow> string \<Rightarrow> int \<Rightarrow> ((Response \<times> NatType) \<times> send_error option) option" where
  "Mapping tids conn localAddr port =
     (case tids of (tid0, tid1, tid2, tid3) \<Rightarrow>
      case binding_request tid0 of
        None \<Rightarrow> None
      | Some req \<Rightarrow>
          (case sendRequest tid1 conn 1 None req of
             None \<Rightarrow> None
           | Some (Inl e, _) \<Rightarrow> Some ((no_Response, NoResult), Some e)
           | Some (Inr resp, req) \<Rightarrow>
               (case (rp_xorMappedAddr resp, rp_otherAddr resp, rp_changedAddr resp) of
                  (Some x, Some other, Some changed) \<Rightarrow>
                    if sa_String x = localAddr then Some ((resp, EndpointIndependentNoNAT), None)
                    else if sa_IP other = [] then
                      if sa_IP changed = [] then Some ((resp, ServerNotSupportChangePort), None)
                      else mapping_test2 tid2 tid3 conn port changed (resp\<lparr>rp_otherAddr := Some changed\<rparr>) req
                    else mapping_test2 tid2 tid3 conn port other resp req
                | _ \<Rightarrow> None)))"

text \<open>One test of \<^verbatim>\<open>Filtering\<close> with a request that asks the server to answer from elsewhere.\<close>

definition change_request :: "bytes \<Rightarrow> u8 \<Rightarrow> stun_Message option" where
  "change_request tid flags = map_option (msg_Add AttrChangeRequest [0, 0, 0, flags]) (binding_request tid)"

definition filtering_test :: "bytes \<Rightarrow> bytes \<Rightarrow> stun_net \<Rightarrow> nat \<Rightarrow> u8 \<Rightarrow> (send_error + Response) option" where
  "filtering_test tid tid' conn i flags =
     (case change_request tid flags of
        None \<Rightarrow> None
      | Some req \<Rightarrow> map_option fst (sendRequest tid' conn i None req))"

definition Filtering :: "(nat \<Rightarrow> bytes) \<Rightarrow> stun_net \<Rightarrow> (NatType \<times> send_error option) option" where
  "Filtering tids conn =
     (case binding_request (tids 0) of
        None \<Rightarrow> None
      | Some req \<Rightarrow>
          (case sendRequest (tids 1) conn 1 None req of
             None \<Rightarrow> None
           | Some (Inl e, _) \<Rightarrow> Some (NoResult, Some e)
           | Some (Inr _, _) \<Rightarrow>
               (case filtering_test (tids 2) (tids 3) conn 2 (0x04 OR 0x02) of
                  None \<Rightarrow> None
                | Some (Inr _) \<Rightarrow> Some (EndpointIndependent, None)
                | Some (Inl e) \<Rightarrow>
                    if e \<noteq> DeadlineExceeded then Some (NoResult, Some e)
                    else
                      (case filtering_test (tids 4) (tids 5) conn 3 0x02 of
                         None \<Rightarrow> None
                       | Some (Inr _) \<Rightarrow> Some (AddressDependent, None)
                       | Some (Inl e) \<Rightarrow>
                           Some (if e \<noteq> DeadlineExceeded then (NoResult, Some e) else (AddressAndPortDependent, None))))))"

text \<open>The response over a stream: the bytes of the stream are \<open>input\<close>, its end is an error. The length of the slices is
  computed in sixteen bits.\<close>

definition StunTCP_read :: "bytes \<Rightarrow> bytes \<Rightarrow> (send_error + stun_addr) option" where
  "StunTCP_read stale input =
     (let buf = GetBytes stale MaxSegmentSize in
      if length input < 20 then Some (Inl OtherFailure)
      else
        let n = word_be (take 2 (drop 2 input)) :: u16 in
        if unat n > MaxSegmentSize - 20 then Some (Inl OtherFailure)
        else
          let full = unat (n + 20) in
          if full < 20 then None
          else if length input < full then Some (Inl OtherFailure)
          else
            case msg_Decode (new_Message\<lparr>m_Raw := take full input, m_Spare := drop full buf\<rparr>) of
              (Some e, _) \<Rightarrow> Some (Inl (BadResponse e))
            | (None, msg) \<Rightarrow>
                (case xor_GetFromAs AttrXORMappedAddress msg no_addr of
                   None \<Rightarrow> None
                 | Some (Some e, _) \<Rightarrow> Some (Inl (BadResponse e))
                 | Some (None, x) \<Rightarrow> Some (Inr x)))"

section \<open>Addresses come back\<close>

lemma XORBytes_inverse: "length ip \<le> length k \<Longrightarrow> XORBytes (XORBytes ip k) k = ip"
  unfolding XORBytes_def by (rule nth_equalityI) (auto simp: xor.assoc)

lemma length_XORBytes [simp]: "length (XORBytes x y) = min (length x) (length y)"
  by (simp add: XORBytes_def)

lemma xor_port: "0 \<le> p \<Longrightarrow> p < 65536 \<Longrightarrow> uint (of_int (p XOR 0x2112) :: u16) XOR 0x2112 = p"
  by (simp add: unsigned_of_int take_bit_xor take_bit_int_eq_self xor.assoc)

lemma plain_port: "0 \<le> p \<Longrightarrow> p < 65536 \<Longrightarrow> uint (of_int p :: u16) = p"
  by (simp add: unsigned_of_int take_bit_int_eq_self)

lemma xor_GetFromAs_value:
  assumes "msg_Get t m = Some (PutUint16 family @ PutUint16 p @ b)" "family = familyIPv4 \<or> family = familyIPv6"
    "b \<noteq> []" "length b \<le> family_len family"
  shows "xor_GetFromAs t m a = Some (None, \<lparr>sa_IP = XORBytes b (xorValue m) @ replicate (family_len family - length (XORBytes b (xorValue m))) 0,
    sa_Port = uint p XOR 0x2112\<rparr>)"
  using assms by (auto simp: xor_GetFromAs_def Let_def CheckOverflow_def)

lemma mapped_GetFromAs_value:
  assumes "msg_Get t m = Some (PutUint16 family @ PutUint16 p @ b)" "family = familyIPv4 \<or> family = familyIPv6"
    "b \<noteq> []" "length b \<le> family_len family"
  shows "mapped_GetFromAs t m a = (None, \<lparr>sa_IP = b @ replicate (family_len family - length b) 0, sa_Port = uint p\<rparr>)"
  using assms by (auto simp: mapped_GetFromAs_def Let_def)

text \<open>The bytes of an address that are sent: an IPv4-mapped address as IPv4.\<close>

definition sent_ip :: "bytes \<Rightarrow> bytes" where
  "sent_ip ip = (if length ip = 16 \<and> isIPv4 ip then drop 12 ip else ip)"

lemma family_ip_sent:
  assumes "length ip = 4 \<or> length ip = 16"
  shows "\<exists>family. family_ip ip = Inr (family, sent_ip ip) \<and> (family = familyIPv4 \<or> family = familyIPv6) \<and>
    family_len family = length (sent_ip ip) \<and> (length (sent_ip ip) = 4 \<or> length (sent_ip ip) = 16)"
  using assms by (auto simp: family_ip_def sent_ip_def family_len_def familyIPv4_def familyIPv6_def)

lemma attrs_Get_last: "\<forall>x \<in> set xs. ra_Type x \<noteq> ra_Type a \<Longrightarrow> attrs_Get (ra_Type a) (xs @ [a]) = Some a"
  by (induction xs) (auto simp: attrs_Get_def)

lemma decode_added:
  assumes "msg_wf m" "mt_Method (m_Type m) < 2 ^ 12" "mt_Class (m_Type m) < 2 ^ 2"
    "unat (m_Length m) + 4 + nearestPaddedValueLength (length v) < 2 ^ 16"
    "t \<noteq> 0x8020" "\<forall>a \<in> set (m_Attributes m). compatAttrType (ra_Type a) \<noteq> t"
  shows "\<exists>r. stun_Decode (m_Raw (msg_Add t v m)) m1 = (None, r) \<and> msg_Get t r = Some v \<and> m_TransactionID r = m_TransactionID m"
proof -
  let ?a = "\<lparr>ra_Value = v, ra_Type = t, ra_Length = of_nat (length v)\<rparr>" and ?m = "msg_Add t v m"
  have "unat (m_Length m) + length (tlv ?a) < 2 ^ 32" using assms(4) by (simp add: length_tlv)
  note add = msg_Add_wf [OF assms(1) this]
  have l: "unat (m_Length ?m) = length (concat (map tlv (m_Attributes ?m)))" "length (m_TransactionID ?m) = 12"
    "\<forall>a \<in> set (m_Attributes ?m). ra_Length a = of_nat (length (ra_Value a))"
    "m_Raw ?m = stun_wire (m_Type ?m) (m_TransactionID ?m) (m_Length ?m) (m_Attributes ?m)"
    using add(1) unfolding msg_wf_def by blast+
  have n: "m_Length ?m = of_nat (length (concat (map tlv (m_Attributes ?m))))" unfolding l(1) [symmetric] by simp
  have below: "length (concat (map tlv (m_Attributes ?m))) < 2 ^ 16" using l(1) add(5) assms(4) by (simp add: length_tlv)
  have "mt_Method (m_Type ?m) < 2 ^ 12" "mt_Class (m_Type ?m) < 2 ^ 2" using assms(2,3) unfolding add(3) by simp_all
  from stun_Decode_wire [OF this l(2) below l(3), of m1, folded n l(4)]
  obtain S where "stun_Decode (m_Raw ?m) m1 = (None, m1\<lparr>m_Attributes := map as_read (m_Attributes ?m), m_Raw := m_Raw ?m, m_Spare := S,
      m_Length := m_Length ?m, m_Type := m_Type ?m, m_TransactionID := m_TransactionID ?m\<rparr>)"
    by blast
  moreover have "attrs_Get t (map as_read (m_Attributes m) @ [as_read ?a]) = Some (as_read ?a)"
    using attrs_Get_last [of "map as_read (m_Attributes m)" "as_read ?a"] assms(5,6) by (auto simp: as_read_def compatAttrType_def)
  ultimately show ?thesis using add(2,4) by (auto simp: msg_Get_def as_read_def)
qed

text \<open>C28: 
  An address added to a message as a plain or as an XOR attribute is read back from the bytes of the message, as IPv4
  when it was an IPv4-mapped address, whatever message and address the receiver used before.
\<close>

theorem stun_address_roundtrip:
  assumes "msg_wf m" "mt_Method (m_Type m) < 2 ^ 12" "mt_Class (m_Type m) < 2 ^ 2" "unat (m_Length m) + 24 < 2 ^ 16"
    "t \<noteq> 0x8020" "\<forall>a \<in> set (m_Attributes m). compatAttrType (ra_Type a) \<noteq> t"
    "length (sa_IP x) = 4 \<or> length (sa_IP x) = 16" "0 \<le> sa_Port x" "sa_Port x < 65536"
  shows "(\<exists>m' r. xor_AddToAs x t m = Some (Inr m') \<and> stun_Decode (m_Raw m') m1 = (None, r) \<and>
      xor_GetFromAs t r y = Some (None, x\<lparr>sa_IP := sent_ip (sa_IP x)\<rparr>)) \<and>
    (\<exists>m' r. mapped_AddToAs x t m = Some (Inr m') \<and> stun_Decode (m_Raw m') m1 = (None, r) \<and>
      mapped_GetFromAs t r y = (None, x\<lparr>sa_IP := sent_ip (sa_IP x)\<rparr>))"
proof -
  obtain family where f: "family_ip (sa_IP x) = Inr (family, sent_ip (sa_IP x))" "family = familyIPv4 \<or> family = familyIPv6"
      "family_len family = length (sent_ip (sa_IP x))" "length (sent_ip (sa_IP x)) = 4 \<or> length (sent_ip (sa_IP x)) = 16"
    using family_ip_sent [OF assms(7)] by blast
  have k: "length (xorValue m) = 16" using assms(1) by (simp add: xorValue_def msg_wf_def)
  have x: "x\<lparr>sa_IP := ip\<rparr> = \<lparr>sa_IP = ip, sa_Port = sa_Port x\<rparr>" for ip by (cases x) simp
  have pad: "nearestPaddedValueLength (4 + length (sent_ip (sa_IP x))) \<le> 20" using f(4) by (auto simp: nearestPaddedValueLength_def)
  let ?b = "XORBytes (sent_ip (sa_IP x)) (xorValue m)"
  let ?v = "PutUint16 family @ PutUint16 (of_int (sa_Port x XOR 0x2112)) @ ?b"
  have b: "length ?b = length (sent_ip (sa_IP x))" using f(4) k by auto
  have lv: "length ?v = 4 + length (sent_ip (sa_IP x))" using b by simp
  have "unat (m_Length m) + 4 + nearestPaddedValueLength (length ?v) < 2 ^ 16" using pad assms(4) unfolding lv by simp
  from decode_added [OF assms(1-3) this assms(5,6), of m1] obtain r where
    r: "stun_Decode (m_Raw (msg_Add t ?v m)) m1 = (None, r)" "msg_Get t r = Some ?v" "m_TransactionID r = m_TransactionID m" by blast
  have "0 < length ?b" using b f(4) by linarith
  then have "?b \<noteq> []" "length ?b \<le> family_len family" using b f(3) by fastforce+
  from xor_GetFromAs_value [OF r(2) f(2) this, of y]
  have "xor_GetFromAs t r y = Some (None, x\<lparr>sa_IP := sent_ip (sa_IP x)\<rparr>)"
    using r(3) b f(3,4) k XORBytes_inverse [of "sent_ip (sa_IP x)" "xorValue m"] xor_port [OF assms(8,9)]
    by (auto simp: x xorValue_def)
  moreover have "xor_AddToAs x t m = Some (Inr (msg_Add t ?v m))" by (simp add: xor_AddToAs_def f(1))
  ultimately have 1: "\<exists>m' r. xor_AddToAs x t m = Some (Inr m') \<and> stun_Decode (m_Raw m') m1 = (None, r) \<and>
      xor_GetFromAs t r y = Some (None, x\<lparr>sa_IP := sent_ip (sa_IP x)\<rparr>)" using r(1) by blast
  let ?w = "PutUint16 family @ PutUint16 (of_int (sa_Port x)) @ sent_ip (sa_IP x)"
  have lw: "length ?w = 4 + length (sent_ip (sa_IP x))" by simp
  have "unat (m_Length m) + 4 + nearestPaddedValueLength (length ?w) < 2 ^ 16" using pad assms(4) unfolding lw by simp
  from decode_added [OF assms(1-3) this assms(5,6), of m1] obtain r where
    r: "stun_Decode (m_Raw (msg_Add t ?w m)) m1 = (None, r)" "msg_Get t r = Some ?w" by blast
  have "sent_ip (sa_IP x) \<noteq> []" using f(4) by auto
  from mapped_GetFromAs_value [OF r(2) f(2) this, of y]
  have "mapped_GetFromAs t r y = (None, x\<lparr>sa_IP := sent_ip (sa_IP x)\<rparr>)"
    using f(3) plain_port [OF assms(8,9)] by (simp add: x)
  moreover have "mapped_AddToAs x t m = Some (Inr (msg_Add t ?w m))" by (simp add: mapped_AddToAs_def f(1))
  ultimately show ?thesis using 1 r(1) by blast
qed

theorem stun_address_roundtrip_witness:
  "\<exists>m' r. xor_AddToAs \<lparr>sa_IP = [192, 0, 2, 1], sa_Port = 32853\<rparr> 0x20 (WriteHeader (msg_Reset new_Message)) = Some (Inr m') \<and>
     stun_Decode (m_Raw m') new_Message = (None, r) \<and>
     xor_GetFromAs 0x20 r no_addr = Some (None, \<lparr>sa_IP = [192, 0, 2, 1], sa_Port = 32853\<rparr>)"
proof -
  have l: "length (m_TransactionID new_Message) = 12" by (simp add: new_Message_def)
  obtain S where h: "WriteHeader (msg_Reset new_Message) = new_Message\<lparr>m_Attributes := [],
      m_Raw := stun_wire (m_Type new_Message) (m_TransactionID new_Message) 0 [], m_Spare := S, m_Length := 0\<rparr>"
    using WriteHeader_wf(1) [OF l] by blast
  let ?h = "WriteHeader (msg_Reset new_Message)"
  have "mt_Method (m_Type ?h) < 2 ^ 12" "mt_Class (m_Type ?h) < 2 ^ 2" "unat (m_Length ?h) + 24 < 2 ^ 16" "0x20 \<noteq> (0x8020 :: u16)"
    "\<forall>a \<in> set (m_Attributes ?h). compatAttrType (ra_Type a) \<noteq> 0x20"
    unfolding h by (simp_all add: new_Message_def)
  from stun_address_roundtrip [OF WriteHeader_wf(2) [OF l] this, of "\<lparr>sa_IP = [192, 0, 2, 1], sa_Port = 32853\<rparr>" new_Message no_addr]
  show ?thesis by (simp add: sent_ip_def)
qed

section \<open>Reading responses\<close>

lemma padded_mod4 [simp]: "nearestPaddedValueLength l mod 4 = 0"
  by (simp add: nearestPaddedValueLength_eq)

definition attrs_size :: "RawAttribute list \<Rightarrow> nat" where
  "attrs_size as = (\<Sum>a\<leftarrow>as. 4 + nearestPaddedValueLength (unat (ra_Length a)))"

lemma attrs_size_mod4: "attrs_size as mod 4 = 0"
  by (induction as) (simp_all add: attrs_size_def mod_add_eq [symmetric] nearestPaddedValueLength_eq)

lemma decode_attrs_ok:
  "decode_attrs total1 off b attrs = (None, attrs') \<Longrightarrow> length b = total1 - off \<Longrightarrow> off \<le> total1 \<Longrightarrow>
   \<exists>new. attrs' = attrs @ new \<and> off + attrs_size new = total1 \<and> (\<forall>a \<in> set new. length (ra_Value a) = unat (ra_Length a))"
proof (induction total1 off b attrs rule: decode_attrs.induct)
  case (1 total1 off b attrs)
  show ?case
  proof (cases "off < total1")
    case False
    then show ?thesis using 1 by (auto simp: decode_attrs.simps attrs_size_def)
  next
    case True
    define n :: u16 where "n = word_be (take 2 (drop 2 b))"
    define k where "k = nearestPaddedValueLength (unat n)"
    define a where "a = \<lparr>ra_Value = take (unat n) (drop 4 b), ra_Type = compatAttrType (word_be (take 2 b)), ra_Length = n\<rparr>"
    have 4: "4 \<le> length b" "k \<le> length (drop 4 b)"
      and d: "decode_attrs total1 (off + 4 + k) (drop k (drop 4 b)) (attrs @ [a]) = (None, attrs')"
      using 1(2) True unfolding n_def k_def a_def
      by (subst (asm) decode_attrs.simps; simp add: attributeHeaderSize_def Let_def split: if_splits)+
    have "\<exists>new. attrs' = (attrs @ [a]) @ new \<and> off + 4 + k + attrs_size new = total1 \<and> (\<forall>a \<in> set new. length (ra_Value a) = unat (ra_Length a))"
      using 1(1) [OF True, of "compatAttrType (word_be (take 2 b))" n "unat n" k "drop 4 b"] 4 d 1(3,4)
      by (simp add: attributeHeaderSize_def n_def k_def a_def)
    then obtain new where "attrs' = attrs @ a # new" "off + attrs_size (a # new) = total1" "\<forall>a \<in> set new. length (ra_Value a) = unat (ra_Length a)"
      by (auto simp: attrs_size_def a_def k_def)
    moreover have "length (ra_Value a) = unat (ra_Length a)"
      using 4(2) order_trans [OF padded_ge [of "unat n"], of "length (drop 4 b)"] by (simp add: a_def k_def)
    ultimately show ?thesis by (intro exI [of _ "a # new"]) simp
  qed
qed

lemma value_end_bound:
  "\<forall>a \<in> set as. length (ra_Value a) = unat (ra_Length a) \<Longrightarrow> attrs_Get t as \<noteq> None \<Longrightarrow> value_end t off as \<le> off + attrs_size as"
proof (induction as arbitrary: off)
  case (Cons a as)
  have s: "attrs_size (a # as) = 4 + nearestPaddedValueLength (unat (ra_Length a)) + attrs_size as" by (simp add: attrs_size_def)
  show ?case
  proof (cases "ra_Type a = t")
    case True
    then show ?thesis using Cons.prems padded_ge [of "unat (ra_Length a)"]
      by (simp add: s attributeHeaderSize_def trans_le_add1)
  next
    case False
    then have "attrs_Get t as \<noteq> None" using Cons.prems by (simp add: attrs_Get_def)
    then show ?thesis
      using Cons.IH [of "off + attributeHeaderSize + nearestPaddedValueLength (unat (ra_Length a))"] Cons.prems False
      by (simp add: s attributeHeaderSize_def)
  qed
qed (simp add: attrs_Get_def)

text \<open>A buffer of the size of the pooled ones is not divisible by four, so there are bytes behind every value.\<close>

lemma decoded_xor_no_panic:
  assumes "msg_Decode m = (None, r)" "length (m_Raw m @ m_Spare m) = 65535"
  shows "xor_GetFromAs t r a \<noteq> None"
proof (cases "msg_Get t r")
  case None
  then show ?thesis by (simp add: xor_GetFromAs_def)
next
  case (Some v)
  define n where "n = unat (word_be (take 2 (drop 2 (m_Raw m))) :: u16)"
  have l: "20 + n \<le> length (m_Raw m)" and r: "m_Raw r = m_Raw m" "m_Spare r = m_Spare m"
    and d: "decode_attrs n 0 (take n (drop 20 (m_Raw m))) [] = (None, m_Attributes r)"
    using assms(1) by (auto simp: msg_Decode_def messageHeaderSize_def Let_def n_def split: if_splits prod.splits)
  obtain new where "m_Attributes r = new" "attrs_size new = n" "\<forall>a \<in> set new. length (ra_Value a) = unat (ra_Length a)"
    using decode_attrs_ok [OF d] l by auto
  moreover have "attrs_Get t (m_Attributes r) \<noteq> None" using Some by (auto simp: msg_Get_def)
  ultimately have "value_end t 20 (m_Attributes r) \<le> 20 + n" "n mod 4 = 0"
    using value_end_bound [of new t 20] attrs_size_mod4 [of new] by auto
  moreover have "n \<le> 65515" using l assms(2) by simp
  ultimately have "value_end t 20 (m_Attributes r) \<le> 65532" by presburger
  then have "length (behind t r) \<ge> 2" using assms(2) r by (simp add: behind_def messageHeaderSize_def)
  then have "Uint16 (v @ behind t r) \<noteq> None" by (simp add: Uint16_def)
  then show ?thesis using Some by (auto simp: xor_GetFromAs_def)
qed

lemma read_datagram_size: "length (m_Raw (read_datagram data stale) @ m_Spare (read_datagram data stale)) = 65535"
  by (simp add: read_datagram_def Let_def MaxSegmentSize_def)

lemma ParseResponse_no_panic:
  assumes "msg_Decode (read_datagram data stale) = (None, r)"
  shows "ParseResponse r \<noteq> None"
  using decoded_xor_no_panic [OF assms read_datagram_size, of AttrXORMappedAddress no_addr]
  by (auto simp: ParseResponse_def Let_def split: option.splits)

text \<open>C29: 
  Reading the mapped address looks at the first two bytes of the attribute before it checks its length. With the
  buffers the readers use this never goes beyond the buffer: no datagram and no stream makes the readers panic.
\<close>

theorem stun_readers_never_panic:
  "(msg_Decode (read_datagram data stale) = (None, r) \<longrightarrow> ParseResponse r \<noteq> None) \<and> StunTCP_read stale' input \<noteq> None"
proof -
  define n where "n = (word_be (take 2 (drop 2 input)) :: u16)"
  have full: "unat (n + 20) = unat n + 20" if "unat n \<le> 65515" using that by (simp add: unat_word_ariths)
  have "StunTCP_read stale' input \<noteq> None"
  proof (cases "length input < 20 \<or> 65515 < unat n \<or> length input < unat n + 20")
    case True
    then show ?thesis using full
      by (auto simp: StunTCP_read_def Let_def MaxSegmentSize_def n_def [symmetric])
  next
    case False
    let ?m = "new_Message\<lparr>m_Raw := take (unat n + 20) input, m_Spare := drop (unat n + 20) (GetBytes stale' 65535)\<rparr>"
    have "length (m_Raw ?m @ m_Spare ?m) = 65535" using False by simp
    then have x: "xor_GetFromAs AttrXORMappedAddress r no_addr \<noteq> None" if "msg_Decode ?m = (None, r)" for r
      using decoded_xor_no_panic [OF that] by simp
    have "StunTCP_read stale' input = (case msg_Decode ?m of
        (Some e, _) \<Rightarrow> Some (Inl (BadResponse e))
      | (None, msg) \<Rightarrow>
          (case xor_GetFromAs AttrXORMappedAddress msg no_addr of
             None \<Rightarrow> None
           | Some (Some e, _) \<Rightarrow> Some (Inl (BadResponse e))
           | Some (None, x) \<Rightarrow> Some (Inr x)))"
      using False full by (simp add: StunTCP_read_def Let_def MaxSegmentSize_def n_def [symmetric])
    then show ?thesis using x by (cases "msg_Decode ?m") (auto split: option.splits)
  qed
  then show ?thesis using ParseResponse_no_panic by blast
qed

lemma decode_read_datagram:
  assumes "length data \<le> 65535"
  shows "msg_Decode (read_datagram data stale) = stun_Decode data (new_Message\<lparr>m_Raw := GetBytes stale MaxSegmentSize\<rparr>)"
  using assms by (simp add: read_datagram_def stun_Decode_def MaxSegmentSize_def new_Message_def)

theorem stun_readers_never_panic_witness:
  "ParseResponse (snd (msg_Decode (read_datagram (stun_wire BindingRequest (replicate 12 0) 0 []) []))) \<noteq> None \<and> StunTCP_read [] [] \<noteq> None"
proof -
  let ?w = "stun_wire BindingRequest (replicate 12 0) 0 []"
  have w: "length ?w \<le> 65535" by (simp add: length_stun_wire)
  have "\<exists>r. stun_Decode ?w m = (None, r)" for m
    using stun_Decode_wire [of BindingRequest "replicate 12 0" "[]" m] by (auto simp: BindingRequest_def)
  then have "msg_Decode (read_datagram ?w []) = (None, snd (msg_Decode (read_datagram ?w [])))"
    unfolding decode_read_datagram [OF w] by (metis snd_conv)
  then show ?thesis using stun_readers_never_panic [of ?w "[]" "snd (msg_Decode (read_datagram ?w []))" "[]" "[]"] by simp
qed

section \<open>The behaviour of the NAT\<close>

text \<open>What a request that ends with an outcome gives.\<close>

definition reply :: "io_outcome \<Rightarrow> send_error + Response" where
  "reply out =
     (case out of
        WriteFails late \<Rightarrow> Inl (if late then DeadlineExceeded else OtherFailure)
      | ReadFails late \<Rightarrow> Inl (if late then DeadlineExceeded else OtherFailure)
      | Reads data stale \<Rightarrow>
          (case msg_Decode (read_datagram data stale) of
             (Some e, _) \<Rightarrow> Inl (BadResponse e)
           | (None, r) \<Rightarrow> (case the (ParseResponse r) of Inl e \<Rightarrow> Inl (BadResponse e) | Inr x \<Rightarrow> Inr x)))"

lemma sendRequest_reply:
  assumes "msg_wf req" "length tid = 12"
  shows "\<exists>req'. sendRequest tid conn i target req = Some (reply (conn i target (m_Raw req')), req') \<and> msg_wf req' \<and>
    m_Raw req' = stun_wire (m_Type req) tid (m_Length req) (m_Attributes req) \<and> m_Type req' = m_Type req \<and>
    m_Length req' = m_Length req \<and> m_Attributes req' = m_Attributes req"
proof -
  let ?r = "req\<lparr>m_TransactionID := tid, m_Raw := stun_wire (m_Type req) tid (m_Length req) (m_Attributes req)\<rparr>"
  have w: "WriteTransactionID (req\<lparr>m_TransactionID := tid\<rparr>) = Some ?r"
    using set_transaction_wf(1) [OF assms] by (simp add: set_transaction_def)
  have "sendRequest tid conn i target req = Some (reply (conn i target (m_Raw ?r)), ?r)"
    by (auto simp: sendRequest_def w reply_def dest: ParseResponse_no_panic split: io_outcome.splits prod.splits option.splits sum.splits)
  then show ?thesis using set_transaction_wf(2) [OF assms] by (intro exI [of _ ?r]) simp
qed

lemma binding_request_wf:
  assumes "length tid = 12"
  shows "\<exists>m. binding_request tid = Some m \<and> msg_wf m \<and> m_Type m = BindingRequest \<and> m_Attributes m = [] \<and> m_Length m = 0"
proof -
  let ?h = "WriteHeader (msg_Reset new_Message)"
  have l: "length (m_TransactionID new_Message) = 12" by (simp add: new_Message_def)
  obtain S where h: "?h = new_Message\<lparr>m_Attributes := [], m_Raw := stun_wire (m_Type new_Message) (m_TransactionID new_Message) 0 [],
      m_Spare := S, m_Length := 0\<rparr>"
    using WriteHeader_wf(1) [OF l] by blast
  note a = set_transaction_wf [OF WriteHeader_wf(2) [OF l] assms]
  note b = msg_SetType_wf [OF a(2), of BindingRequest]
  let ?b = "msg_SetType BindingRequest (?h\<lparr>m_TransactionID := tid, m_Raw := stun_wire (m_Type ?h) tid (m_Length ?h) (m_Attributes ?h)\<rparr>)"
  have "msg_Build [set_transaction tid, set_type BindingRequest] new_Message = Some (Inr ?b)"
    by (simp add: msg_Build_def a(1) set_type_def)
  moreover have "m_Type ?b = BindingRequest" "m_Attributes ?b = []" "m_Length ?b = 0" unfolding b(2) by (simp_all add: h)
  ultimately show ?thesis using b(1) by (intro exI [of _ ?b]) (simp add: binding_request_def)
qed

definition is_binding :: "stun_Message \<Rightarrow> bool" where
  "is_binding m \<longleftrightarrow> msg_wf m \<and> m_Type m = BindingRequest \<and> m_Attributes m = [] \<and> m_Length m = 0"

abbreviation binding_wire :: "bytes \<Rightarrow> bytes" where
  "binding_wire tid \<equiv> stun_wire BindingRequest tid 0 []"

lemma sendRequest_binding:
  assumes "is_binding req" "length tid = 12"
  shows "\<exists>req'. sendRequest tid conn i target req = Some (reply (conn i target (binding_wire tid)), req') \<and> is_binding req'"
  using sendRequest_reply [of req tid conn i target] assms by (auto simp: is_binding_def)

lemma binding_request_binding: "length tid = 12 \<Longrightarrow> \<exists>m. binding_request tid = Some m \<and> is_binding m"
  using binding_request_wf by (auto simp: is_binding_def)

lemma reply_pointers:
  assumes "reply out = Inr r"
  shows "rp_xorMappedAddr r \<noteq> None" "rp_otherAddr r \<noteq> None" "rp_changedAddr r \<noteq> None"
proof -
  obtain data stale m where "out = Reads data stale" "msg_Decode (read_datagram data stale) = (None, m)" "the (ParseResponse m) = Inr r"
    using assms by (auto simp: reply_def split: io_outcome.splits prod.splits option.splits sum.splits)
  then have "ParseResponse m = Some (Inr r)" using ParseResponse_no_panic by fastforce
  then show "rp_xorMappedAddr r \<noteq> None" "rp_otherAddr r \<noteq> None" "rp_changedAddr r \<noteq> None"
    by (auto simp: ParseResponse_def Let_def split: option.splits)
qed

lemma mapping_test3_panics:
  assumes "is_binding req" "length tid3 = 12"
  shows "mapping_test3 tid3 conn other resp resp2 req = None \<longleftrightarrow>
    rp_xorMappedAddr resp2 = None \<and> (\<exists>r. reply (conn 3 (Some (sa_IP other, sa_Port other)) (binding_wire tid3)) = Inr r)"
proof -
  obtain req' where "sendRequest tid3 conn 3 (Some (sa_IP other, sa_Port other)) req =
      Some (reply (conn 3 (Some (sa_IP other, sa_Port other)) (binding_wire tid3)), req')"
    using sendRequest_binding [OF assms] by blast
  then show ?thesis
    by (auto simp: mapping_test3_def same_mapped_def dest: reply_pointers split: sum.splits option.splits)
qed

lemma mapping_test2_panics:
  assumes "is_binding req" "length tid2 = 12" "length tid3 = 12" "rp_xorMappedAddr resp \<noteq> None"
  shows "mapping_test2 tid2 tid3 conn port other resp req = None \<longleftrightarrow>
    reply (conn 2 (Some (sa_IP other, port)) (binding_wire tid2)) = Inl DeadlineExceeded \<and>
    (\<exists>r. reply (conn 3 (Some (sa_IP other, sa_Port other)) (binding_wire tid3)) = Inr r)"
proof -
  let ?r = "reply (conn 2 (Some (sa_IP other, port)) (binding_wire tid2))"
  obtain req' where s: "sendRequest tid2 conn 2 (Some (sa_IP other, port)) req = Some (?r, req')" and b: "is_binding req'"
    using sendRequest_binding [OF assms(1,2)] by blast
  note t3 = mapping_test3_panics [OF b assms(3)]
  show ?thesis
  proof (cases ?r)
    case (Inl e)
    then show ?thesis using t3 [of conn other resp no_Response] by (simp add: mapping_test2_def s no_Response_def)
  next
    case (Inr r2)
    then obtain x where "rp_xorMappedAddr r2 = Some x" using reply_pointers(1) by blast
    then show ?thesis using Inr assms(4) t3 [of conn other resp r2] by (auto simp: mapping_test2_def s same_mapped_def)
  qed
qed

text \<open>The other address of the server that a response names.\<close>

definition other_address :: "Response \<Rightarrow> stun_addr option" where
  "other_address r =
     (case (rp_otherAddr r, rp_changedAddr r) of
        (Some other, Some changed) \<Rightarrow> if sa_IP other \<noteq> [] then Some other else if sa_IP changed \<noteq> [] then Some changed else None
      | _ \<Rightarrow> None)"

text \<open>C39: 
  The mapping test panics in exactly one case: the first request is answered and names another address of the server,
  the request to the other address with the first port gets no answer in time, and the request to the other address and
  port is answered. The comparison then dereferences the response of the second test, which is empty.
\<close>

theorem mapping_panics_iff:
  assumes "length tid0 = 12" "length tid1 = 12" "length tid2 = 12" "length tid3 = 12"
  shows "Mapping (tid0, tid1, tid2, tid3) conn localAddr port = None \<longleftrightarrow>
    (\<exists>resp x other r3. reply (conn 1 None (binding_wire tid1)) = Inr resp \<and>
       rp_xorMappedAddr resp = Some x \<and> sa_String x \<noteq> localAddr \<and> other_address resp = Some other \<and>
       reply (conn 2 (Some (sa_IP other, port)) (binding_wire tid2)) = Inl DeadlineExceeded \<and>
       reply (conn 3 (Some (sa_IP other, sa_Port other)) (binding_wire tid3)) = Inr r3)"
proof -
  obtain m where m: "binding_request tid0 = Some m" "is_binding m" using binding_request_binding [OF assms(1)] by blast
  obtain req where s: "sendRequest tid1 conn 1 None m = Some (reply (conn 1 None (binding_wire tid1)), req)" and b: "is_binding req"
    using sendRequest_binding [OF m(2) assms(2)] by blast
  note t2 = mapping_test2_panics [OF b assms(3,4)]
  show ?thesis
  proof (cases "reply (conn 1 None (binding_wire tid1))")
    case (Inl e)
    then show ?thesis by (simp add: Mapping_def m s del: One_nat_def)
  next
    case (Inr resp)
    obtain x where x: "rp_xorMappedAddr resp = Some x" using reply_pointers(1) [OF Inr] by blast
    obtain other where y: "rp_otherAddr resp = Some other" using reply_pointers(2) [OF Inr] by blast
    obtain changed where z: "rp_changedAddr resp = Some changed" using reply_pointers(3) [OF Inr] by blast
    show ?thesis
      using Inr x y z by (auto simp: Mapping_def m s other_address_def t2 simp del: One_nat_def)
  qed
qed

text \<open>A server whose answer to the first request names another address, and answers the third request as well.\<close>

definition witness_answer :: bytes where
  "witness_answer = stun_wire \<lparr>mt_Method = 1, mt_Class = 2\<rparr> (replicate 12 0) 24
     [\<lparr>ra_Value = PutUint16 1 @ PutUint16 0 @ [1, 2, 3, 4], ra_Type = 0x20, ra_Length = 8\<rparr>,
      \<lparr>ra_Value = PutUint16 1 @ PutUint16 3479 @ [9, 9, 9, 9], ra_Type = 0x802C, ra_Length = 8\<rparr>]"

definition witness_net :: stun_net where
  "witness_net i target req = (if i = 2 then ReadFails True else Reads witness_answer [])"

lemma reply_witness_answer:
  "\<exists>resp. reply (Reads witness_answer []) = Inr resp \<and> rp_xorMappedAddr resp = Some \<lparr>sa_IP = [0x20, 0x10, 0xa7, 0x46], sa_Port = 0x2112\<rparr> \<and>
     rp_otherAddr resp = Some \<lparr>sa_IP = [9, 9, 9, 9], sa_Port = 3479\<rparr> \<and> rp_changedAddr resp = Some no_addr"
proof -
  let ?t = "\<lparr>mt_Method = 1, mt_Class = 2\<rparr>"
  let ?as = "[\<lparr>ra_Value = PutUint16 1 @ PutUint16 0 @ [1, 2, 3, 4], ra_Type = 0x20, ra_Length = 8\<rparr>,
      \<lparr>ra_Value = PutUint16 1 @ PutUint16 3479 @ [9, 9, 9, 9], ra_Type = 0x802C, ra_Length = 8\<rparr>]"
  have n: "length (concat (map tlv ?as)) = 24" by (simp add: length_tlv nearestPaddedValueLength_def)
  have w: "length witness_answer \<le> 65535" using n by (simp add: witness_answer_def length_stun_wire)
  obtain S where d: "msg_Decode (read_datagram witness_answer []) = (None, new_Message\<lparr>m_Attributes := map as_read ?as, m_Raw := witness_answer,
      m_Spare := S, m_Length := 24, m_Type := ?t, m_TransactionID := replicate 12 0\<rparr>)"
    using stun_Decode_wire [of ?t "replicate 12 0" ?as "new_Message\<lparr>m_Raw := GetBytes [] MaxSegmentSize\<rparr>"]
    unfolding decode_read_datagram [OF w] n witness_answer_def [symmetric] by (auto simp: witness_answer_def)
  define r where "r = new_Message\<lparr>m_Attributes := map as_read ?as, m_Raw := witness_answer,
      m_Spare := S, m_Length := 24, m_Type := ?t, m_TransactionID := replicate 12 0\<rparr>"
  have g: "msg_Get 0x20 r = Some (PutUint16 1 @ PutUint16 0 @ [1, 2, 3, 4])" "msg_Get 0x802C r = Some (PutUint16 1 @ PutUint16 3479 @ [9, 9, 9, 9])"
    "msg_Get 5 r = None"
    by (simp_all add: r_def msg_Get_def attrs_Get_def as_read_def compatAttrType_def)
  have "PutUint32 magicCookie = [0x21, 0x12, 0xA4, 0x42]"
    by (simp add: magicCookie_def bytes_be_def upt_rec)
  then have k: "xorValue r = [0x21, 0x12, 0xA4, 0x42] @ replicate 12 0" by (simp add: xorValue_def r_def)
  have "xor_GetFromAs 0x20 r no_addr = Some (None, \<lparr>sa_IP = [0x20, 0x10, 0xa7, 0x46], sa_Port = 0x2112\<rparr>)"
    using xor_GetFromAs_value [OF g(1), of no_addr]
    by (simp add: familyIPv4_def family_len_def familyIPv6_def XORBytes_def k)
  moreover have "mapped_GetFromAs 0x802C r no_addr = (None, \<lparr>sa_IP = [9, 9, 9, 9], sa_Port = 3479\<rparr>)"
    using mapped_GetFromAs_value [OF g(2), of no_addr] by (simp add: familyIPv4_def family_len_def familyIPv6_def)
  moreover have "mapped_GetFromAs 5 r no_addr = (Some ErrAttributeNotFound, no_addr)" by (simp add: mapped_GetFromAs_def g(3))
  ultimately show ?thesis
    by (simp add: reply_def d [folded r_def] ParseResponse_def AttrXORMappedAddress_def AttrOtherAddress_def AttrChangedAddress_def)
qed

theorem mapping_panics_iff_witness:
  "Mapping (replicate 12 0, replicate 12 1, replicate 12 2, replicate 12 3) witness_net ''0.0.0.0:0'' 3478 = None"
proof -
  have l: "length (replicate 12 a) = 12" for a :: u8 by simp
  obtain resp where r: "reply (Reads witness_answer []) = Inr resp"
    "rp_xorMappedAddr resp = Some \<lparr>sa_IP = [0x20, 0x10, 0xa7, 0x46], sa_Port = 0x2112\<rparr>"
    "rp_otherAddr resp = Some \<lparr>sa_IP = [9, 9, 9, 9], sa_Port = 3479\<rparr>" "rp_changedAddr resp = Some no_addr"
    using reply_witness_answer by blast
  have "other_address resp = Some \<lparr>sa_IP = [9, 9, 9, 9], sa_Port = 3479\<rparr>" by (simp add: other_address_def r)
  moreover have "sa_String \<lparr>sa_IP = [0x20, 0x10, 0xa7, 0x46], sa_Port = 0x2112\<rparr> \<noteq> ''0.0.0.0:0''"
    by (simp add: sa_String_def JoinHostPort_def net_IP_String_def To4_def word_be_def string4_def bytes_be_def upt_rec Itoa.simps)
  moreover have "reply (ReadFails True) = Inl DeadlineExceeded" by (simp add: reply_def)
  ultimately show ?thesis
    unfolding mapping_panics_iff [OF l l l l]
    by (intro exI [of _ resp] exI [of _ "\<lparr>sa_IP = [0x20, 0x10, 0xa7, 0x46], sa_Port = 0x2112\<rparr>"]
        exI [of _ "\<lparr>sa_IP = [9, 9, 9, 9], sa_Port = 3479\<rparr>"]) (simp add: witness_net_def r)
qed

abbreviation change_wire :: "u8 \<Rightarrow> bytes \<Rightarrow> bytes" where
  "change_wire flags tid \<equiv> stun_wire BindingRequest tid 8 [\<lparr>ra_Value = [0, 0, 0, flags], ra_Type = AttrChangeRequest, ra_Length = 4\<rparr>]"

lemma filtering_test_reply:
  assumes "length tid = 12" "length tid' = 12"
  shows "filtering_test tid tid' conn i flags = Some (reply (conn i None (change_wire flags tid')))"
proof -
  obtain m where m: "binding_request tid = Some m" "is_binding m" using binding_request_binding [OF assms(1)] by blast
  let ?a = "\<lparr>ra_Value = [0, 0, 0, flags], ra_Type = AttrChangeRequest, ra_Length = of_nat (length [0, 0, 0, flags])\<rparr>"
  have len: "length (tlv ?a) = 8" by (simp add: length_tlv nearestPaddedValueLength_def)
  have "msg_wf m" "unat (m_Length m) + length (tlv ?a) < 2 ^ 32" using m(2) len by (simp_all add: is_binding_def)
  note add = msg_Add_wf [OF this]
  let ?m = "msg_Add AttrChangeRequest [0, 0, 0, flags] m"
  have s: "m_Type ?m = BindingRequest" "m_Attributes ?m = [?a]" using add(2,3) m(2) by (simp_all add: is_binding_def)
  have "unat (m_Length ?m) = 8" using add(5) m(2) len by (simp add: is_binding_def)
  then have "of_nat (unat (m_Length ?m)) = (8 :: u32)" by simp
  then have "m_Length ?m = 8" by simp
  then show ?thesis
    using sendRequest_reply [OF add(1) assms(2), of conn i None] s by (auto simp: filtering_test_def change_request_def m(1))
qed

definition filtering_verdict :: "send_error + Response \<Rightarrow> send_error + Response \<Rightarrow> send_error + Response \<Rightarrow> NatType \<times> send_error option" where
  "filtering_verdict r1 r2 r3 =
     (case r1 of
        Inl e \<Rightarrow> (NoResult, Some e)
      | Inr _ \<Rightarrow>
          if isl r2 \<and> projl r2 \<noteq> DeadlineExceeded then (NoResult, Some (projl r2))
          else if \<not> isl r2 then (EndpointIndependent, None)
          else if isl r3 \<and> projl r3 \<noteq> DeadlineExceeded then (NoResult, Some (projl r3))
          else if \<not> isl r3 then (AddressDependent, None)
          else (AddressAndPortDependent, None))"

text \<open>C30: 
  The filtering tests end, and what they report is determined by the replies to three datagrams: a plain binding request,
  one that asks for an answer from another address and port, and one that asks for another port, each with the
  transaction number drawn for it.
\<close>

theorem filtering_by_three_requests:
  assumes "\<forall>i. length (tids i) = 12"
  shows "Filtering tids conn = Some (filtering_verdict (reply (conn 1 None (binding_wire (tids 1))))
    (reply (conn 2 None (change_wire 6 (tids 3)))) (reply (conn 3 None (change_wire 2 (tids 5)))))"
proof -
  obtain m where m: "binding_request (tids 0) = Some m" "is_binding m" using binding_request_binding assms by blast
  obtain req where "sendRequest (tids 1) conn 1 None m = Some (reply (conn 1 None (binding_wire (tids 1))), req)"
    using sendRequest_binding [OF m(2)] assms by blast
  then show ?thesis
    using assms by (auto simp: Filtering_def m(1) filtering_test_reply filtering_verdict_def isl_def simp del: One_nat_def split: sum.splits)
qed

theorem filtering_by_three_requests_witness:
  "Filtering (\<lambda>_. replicate 12 0) (\<lambda>i target req. ReadFails True) = Some (NoResult, Some DeadlineExceeded)"
  using filtering_by_three_requests [of "\<lambda>_. replicate 12 0" "\<lambda>i target req. ReadFails True"]
  by (simp add: reply_def filtering_verdict_def)

end
