(* ===== verification/Spec2Isabelle.thy ===== *)
theory Spec2Isabelle
  imports Ring_Buffer Reverse_Lru Route_Activation Route_Dispatch Fakedns Hosts Resolver_Registry Yuubinsya Quic_Frag Stun_Nat
begin

text \<open>
  A verification library for \<^bold>\<open>yuhaiin\<close>, a proxy client and router written in Go. All paths are below \<^verbatim>\<open>src/pkg\<close>.

  \<^bold>\<open>The program.\<close> A connection enters through an inbound and passes a chain of layers. The fake address layer
  (\<^verbatim>\<open>resolver/fakeip.go\<close>) turns addresses that the fake DNS gave out (\<^verbatim>\<open>net/dns/fakeip\<close>) back into names. The hosts
  layer (\<^verbatim>\<open>resolver/hosts.go\<close>, \<^verbatim>\<open>utils/system/hosts.go\<close>) replaces configured names and addresses. The router
  (\<^verbatim>\<open>route\<close>) looks up the lists and the process of the connection, tries the rules in order and decides for a mode and
  a resolver; the resolvers are created from their configurations on demand (\<^verbatim>\<open>resolver/resolver.go\<close>). A node then opens
  the connection with one of the proxy protocols (\<^verbatim>\<open>net/proxy\<close>). The lists are indexed by tries (\<^verbatim>\<open>net/trie\<close>), caches
  and queues are in \<^verbatim>\<open>utils\<close>, and \<^verbatim>\<open>net/latency\<close> measures the behaviour of a NAT with STUN (\<^verbatim>\<open>net/stun\<close>).

  \<^bold>\<open>The theories.\<close>
  \<^item> \<^verbatim>\<open>Prelude\<close>: types, Go slices and strings, shared lemmas. \<^verbatim>\<open>Go_Strings\<close>, \<^verbatim>\<open>Net_Text\<close>, \<^verbatim>\<open>Netip\<close>, \<^verbatim>\<open>Netip_Parse\<close>,
    \<^verbatim>\<open>Netip_Range\<close>, \<^verbatim>\<open>Wire\<close>: the parts of the Go library the sources use (\<^verbatim>\<open>strings\<close>, \<^verbatim>\<open>strconv\<close>, \<^verbatim>\<open>net\<close>,
    \<^verbatim>\<open>net/netip\<close>, \<^verbatim>\<open>encoding/binary\<close>), with parsing and printing of addresses, and the buffers of \<^verbatim>\<open>pool\<close>.
  \<^item> \<^verbatim>\<open>Ring_Buffer\<close> (\<^verbatim>\<open>utils/ringbuffer\<close>) refines a bounded FIFO queue (locale \<^verbatim>\<open>bounded_fifo\<close>). \<^verbatim>\<open>Linked_List\<close>
    (\<^verbatim>\<open>utils/list\<close>, over a heap of nodes) refines sequences. \<^verbatim>\<open>Lru\<close> and \<^verbatim>\<open>Reverse_Lru\<close> (\<^verbatim>\<open>utils/lru\<close>) refine a list in
    order of recency (locale \<^verbatim>\<open>recency_list\<close>), and the reverse map holds exactly the live values.
  \<^item> \<^verbatim>\<open>Cidr_Trie\<close>, \<^verbatim>\<open>Fqdn_Reader\<close>, \<^verbatim>\<open>Domain_Trie\<close>, \<^verbatim>\<open>Trie_V2\<close> (\<^verbatim>\<open>net/trie/v2\<close>) and \<^verbatim>\<open>Domain_Trie_V1\<close>
    (\<^verbatim>\<open>net/trie/domain\<close>): after any history of changes a search gives exactly what the live entries say. The combined trie
    is proved over the locales \<^verbatim>\<open>cidr_matcher\<close>, \<^verbatim>\<open>domain_matcher\<close> and \<^verbatim>\<open>trie_parts\<close>, interpreted with the two tries.
  \<^item> \<^verbatim>\<open>Address\<close> and \<^verbatim>\<open>Conn_Context\<close> (\<^verbatim>\<open>net/netapi\<close>): addresses of connections with a round trip of their text, and the
    context that the layers read and write.
  \<^item> \<^verbatim>\<open>Route_Mode\<close>, \<^verbatim>\<open>Route_Lists\<close>, \<^verbatim>\<open>Route_Matcher\<close>, \<^verbatim>\<open>Route_Activation\<close>, \<^verbatim>\<open>Route_History\<close>, \<^verbatim>\<open>Route_Dispatch\<close>
    (\<^verbatim>\<open>route\<close>): the indexes of lists are exact, the first enabled rule that holds decides, blocked connections are recorded,
    and saved rules and lists take effect. Activation is a step relation in which threads of several activations interleave.
  \<^item> \<^verbatim>\<open>Fakeip_Pool\<close> (\<^verbatim>\<open>net/dns/fakeip/sqlite.go\<close>): the table of names and addresses is a bijection after any history with
    failing statements and restarts; a free address is found while there is one. \<^verbatim>\<open>Fakeip_Dns\<close> (\<^verbatim>\<open>fakeip.go\<close>) proves the way
    from an answer back to its name over the locale \<^verbatim>\<open>fake_pool\<close>, which the pool interprets; \<^verbatim>\<open>Fakedns\<close> is the layer.
  \<^item> \<^verbatim>\<open>Hosts\<close>: the rule by which configured hosts answer, reverse names, and the refresh of the hosts file.
    \<^verbatim>\<open>Resolver_Registry\<close>: resolvers belong to the last configuration and are closed exactly once.
  \<^item> \<^verbatim>\<open>Socks_Addr\<close> (\<^verbatim>\<open>net/proxy/socks5/tools\<close>), \<^verbatim>\<open>Yuubinsya\<close> (\<^verbatim>\<open>net/proxy/yuubinsya\<close>), \<^verbatim>\<open>Quic_Frag\<close>
    (\<^verbatim>\<open>net/proxy/quic/frag.go\<close>): wire formats with their round trips, datagrams over streams, and reassembly of fragments that
    arrive in any order and interleaved.
  \<^item> \<^verbatim>\<open>Stun_Message\<close>, \<^verbatim>\<open>Stun_Nat\<close> (\<^verbatim>\<open>net/stun\<close>, \<^verbatim>\<open>net/latency/stun.go\<close>): messages in reused buffers, address attributes,
    and the tests of the behaviour of a NAT over an arbitrary network.
  \<^item> This theory: the chain of the layers. A connection to the fake address of a name is routed by the rules for the name.

  \<^bold>\<open>Conventions.\<close> A Go slice is a list, a map a partial function or an association list, a string a list of bytes, a
  struct a record, a w-bit integer a word; an interface is a record of functions or a locale. \<open>None\<close> of an operation is a panic,
  a sum or pair with an option is a result with an error. The time is an argument. The order in which Go visits a map, the
  content of pooled or spare memory, random numbers, and which database statements fail are arguments too, so that theorems hold
  for all of them. Operations are atomic unless a theory says otherwise; mutexes are left out.

  \<^bold>\<open>Bounds and termination.\<close> All functions are total. Loops of the code are recursive functions with termination proofs
  (the scan for a free address ends after one round through the prefix, the decoder of attributes after as many steps as there
  are bytes). Widths are kept where they matter: STUN lengths of 16 and 32 bits with the bound on the size of a message in the
  hypotheses, the byte in which SOCKS5 computes the length of a name, fragment counts of eight bits.

  \<^bold>\<open>Not modelled.\<close> Sockets, TLS, QUIC, WireGuard, TUN and the other transports of \<^verbatim>\<open>net/proxy\<close>, the DNS clients and the DNS
  server, dialers and operating system settings: they are calls of the system and of third-party stacks, with little logic of
  their own. The disk tries and \<^verbatim>\<open>net/trie/v2/codec\<close> are file formats behind the interfaces that \<^verbatim>\<open>Trie_V2\<close> is generic in. The HTTP interface,
  stores, migrations and the wiring of the application move data between the database and the components modelled here. Of the
  modelled files, texts of errors and logs, closing of files, and goroutines that only call a modelled operation are left out.
  \<^verbatim>\<open>Encode\<close> of STUN messages is left out because it writes over the buffer that the attributes it reads may be slices of.
\<close>

section \<open>The proxy chain\<close>

text \<open>
  A connection passes the fake address layer, the hosts layer and the router, in the order \<^verbatim>\<open>app.go\<close> wires them; the
  statistics between hosts and router hand the address on unchanged.
\<close>

definition hosts_Conn ::
  "route_env \<Rightarrow> int \<Rightarrow> system_Hosts \<Rightarrow> address \<Rightarrow> Context \<Rightarrow> hostsStore \<Rightarrow> Route \<Rightarrow> ((string \<times> Mode \<times> string \<times> address) \<times> Context \<times> Route) option" where
  "hosts_Conn ev now sys ad ctx h s =
     (case hosts_dispatchAddr sys ctx ad h of (ad, ctx) \<Rightarrow> route_Conn ev now ad ctx s)"

definition fakedns_Conn ::
  "route_env \<Rightarrow> int \<Rightarrow> system_Hosts \<Rightarrow> bool \<Rightarrow> 'e \<Rightarrow> address \<Rightarrow> Context \<Rightarrow> ('e, 'p) Fakedns \<Rightarrow> hostsStore \<Rightarrow> Route \<Rightarrow>
   ((string \<times> Mode \<times> string \<times> address) \<times> Context \<times> ('e, 'p) Fakedns \<times> Route) option" where
  "fakedns_Conn ev now sys enabled e ad ctx f h s =
     (case fk_dispatchAddr enabled e ctx ad f of (ad, ctx, f) \<Rightarrow>
        map_option (\<lambda>(x, ctx, s). (x, ctx, f, s)) (hosts_Conn ev now sys ad ctx h s))"

lemma route_Conn_mode:
  assumes "route_Conn ev now ad k s = Some ((n, mode, tag, target), k', s')" "dispatch_lookup ev s ad k = Some c"
  shows "mode = me_mode (fst (run_matchers ev (rt_ms s) ad c))"
  using assms
  by (auto simp: route_Conn_def open_route_def dispatch_def dispatch_finish_def Let_def split: prod.splits if_splits option.splits bind_splits)

text \<open>C4: 
  The rules for a name apply to the connections that a client makes to the fake address it was given for the name: when
  no host is configured for it, the connection is opened exactly as one to the name with the port and network of the
  connection, and its mode is decided by the loopback check, the context or the first rule in force that holds for the
  name.
\<close>

theorem fake_connection_routed_by_name:
  fixes d p net a k
  defines "ad \<equiv> DomainAddr d p net"
    and "fake \<equiv> IPAddr \<lparr>ap_Addr = a, ap_Zone = [], ap_Port = p\<rparr> net"
    and "k1 \<equiv> cx_SetFakeIP (Some (SysAddress (IPAddr \<lparr>ap_Addr = a, ap_Zone = [], ap_Port = p\<rparr> net))) k"
  assumes "fakedns_ok f" "fk_enabled f" "sq_SearchString (fk_whitelist f) (RelDomain (dq_Name req)) = None"
    and "dq_Name req = d @ ''.''" "IsDomainName d" "IsDomainName (d @ ''.'')"
    and "fk_Raw v6 e1 e2 c req f = Some ((Some m, None), c', f')"
    and "dq_Qtype req = TypeA \<and> RR_A hd1 a \<in> set (dm_Answer m) \<or>
      dq_Qtype req = TypeAAAA \<and> RR_AAAA hd1 a \<in> set (dm_Answer m) \<and> \<not> Is4In6 a"
    and "a \<noteq> NoAddr 0" "ok_lookup1 (fst e3)"
    and "hs_lookup ad h = None" "fst (LookupStaticHost d sys) = []"
    and "rt_ms s = matchers_Update lev rules ms0"
  shows "\<exists>f''. fakedns_Conn ev now sys en e3 fake k f' h s =
      map_option (\<lambda>(x, ctx, s). (x, ctx, f'', s)) (route_Conn ev now ad k1 s) \<and>
    (\<forall>cl n mode tag target k2 s2. dispatch_lookup ev s ad k1 = Some cl \<and>
       route_Conn ev now ad k1 s = Some ((n, mode, tag, target), k2, s2) \<longrightarrow>
       mode = me_mode
         (let lm = loopback_check ev ad cl; cm = parseMode (co_RouteMode (fst (cx_ConnOptions cl))) in
          if lm \<noteq> BypassMode then lm
          else if \<not> mode_Unspecified cm then mode_enum cm
          else case find (\<lambda>r. rule_holds r ad cl) (filter (\<lambda>r. \<not> rr_Disabled r) rules) of
              None \<Rightarrow> ProxyMode | Some r \<Rightarrow> modeEnumFromRule r))"
proof -
  obtain f'' where "fk_dispatchAddr en e3 k fake f' = (ad, k1, f'')"
    using fake_answer_dispatch [OF assms(4-13)] unfolding ad_def fake_def k1_def by blast
  moreover have "hosts_dispatchAddr sys k1 ad h = (ad, k1)"
    using assms(14,15) by (simp add: hosts_dispatchAddr_def ad_def)
  ultimately have "fakedns_Conn ev now sys en e3 fake k f' h s =
      map_option (\<lambda>(x, ctx, s). (x, ctx, f'', s)) (route_Conn ev now ad k1 s)"
    by (simp add: fakedns_Conn_def hosts_Conn_def)
  then show ?thesis
    using route_Conn_mode [of ev now ad k1 s] run_matchers_decision [OF assms(16), of ev ad] by auto
qed

theorem fake_connection_routed_by_name_witness:
  "\<exists>m c f' f''. fk_Raw True (all_ok, 1, 1) (all_ok, 1, 1) WithContext demo_question demo_fakedns = Some ((Some m, None), c, f') \<and>
    fakedns_Conn demo_route_env 0 no_hosts False (all_ok, 2, 2) (IPAddr \<lparr>ap_Addr = Addr4 0x0A000000, ap_Zone = [], ap_Port = 443\<rparr> TCP)
        WithContext f' (hosts_Apply []) demo_route =
      map_option (\<lambda>(x, ctx, s). (x, ctx, f'', s)) (route_Conn demo_route_env 0 (DomainAddr ''a.com'' 443 TCP)
        (cx_SetFakeIP (Some (SysAddress (IPAddr \<lparr>ap_Addr = Addr4 0x0A000000, ap_Zone = [], ap_Port = 443\<rparr> TCP))) WithContext) demo_route)"
proof -
  obtain m c f where r: "fk_Raw True (all_ok, 1, 1) (all_ok, 1, 1) WithContext demo_question demo_fakedns = Some ((Some m, None), c, f)"
    and a: "RR_A \<lparr>dh_Name = ''a.com.'', dh_Class = ClassINET, dh_TTL = 40\<rparr> (Addr4 0x0A000000) \<in> set (dm_Answer m)"
    using demo_answer by blast
  have 1: "fk_enabled demo_fakedns" "dq_Name demo_question = ''a.com'' @ ''.''" "dq_Qtype demo_question = TypeA"
    "ok_lookup1 (fst (all_ok, 2 :: int, 2 :: int))"
    by (simp_all add: demo_fakedns_def demo_question_def all_ok_def)
  have 2: "hs_lookup (DomainAddr ''a.com'' 443 TCP) (hosts_Apply []) = None" by code_simp
  have 3: "fst (LookupStaticHost ''a.com'' no_hosts) = []" by code_simp
  have 4: "rt_ms demo_route = matchers_Update (demo_env ''l'' ''host'' [])
       [demo_rule ''r'' ''block'' [RuleExpr ''inbound'' [] [] None None None (Some \<lparr>sr_Name = ''guest'', sr_Names = []\<rparr>) None None None]]
       (NewMatchers new_Lists)" by (simp add: demo_route_def)
  have "dq_Qtype demo_question = TypeA \<and> RR_A \<lparr>dh_Name = ''a.com.'', dh_Class = ClassINET, dh_TTL = 40\<rparr> (Addr4 0x0A000000) \<in> set (dm_Answer m) \<or>
      dq_Qtype demo_question = TypeAAAA \<and> RR_AAAA \<lparr>dh_Name = ''a.com.'', dh_Class = ClassINET, dh_TTL = 40\<rparr> (Addr4 0x0A000000) \<in> set (dm_Answer m) \<and>
        \<not> Is4In6 (Addr4 0x0A000000)"
    using a 1(3) by blast
  from fake_connection_routed_by_name [OF demo_fakedns_ok 1(1) demo_whitelist 1(2) demo_name(1,4) r this _ 1(4) 2 3 4,
      of demo_route_env 0 False WithContext]
  show ?thesis using r by blast
qed

end
